(* ===== verification/Prelude.thy ===== *)
theory Prelude
  imports Main "HOL-Library.AList"
begin

section \<open>Shared collections, association lists and transition systems\<close>

text \<open>
  This theory holds what every component shares: the \<open>named_theorems\<close> collections that carry
  the component proofs, association-list lemmas (a Go map whose entries the code ranges over is an
  association list here, so that the order of iteration is explicit), Go's signed 64-bit
  arithmetic on \<open>int\<close>, and the interface \<open>guarded_system\<close> of a state machine with an
  invariant, which every stateful component interprets.
\<close>

named_theorems status_simps "case lemmas about statuses, ports and node types"

subsection \<open>Maps as association lists\<close>

text \<open>Go's \<open>m[k] = v\<close>, \<open>delete(m, k)\<close> and \<open>m[k]\<close> with the found flag.\<close>

abbreviation aput :: "'k \<Rightarrow> 'v \<Rightarrow> ('k \<times> 'v) list \<Rightarrow> ('k \<times> 'v) list" where
  "aput k v m \<equiv> AList.update k v m"

abbreviation adel :: "'k \<Rightarrow> ('k \<times> 'v) list \<Rightarrow> ('k \<times> 'v) list" where
  "adel k m \<equiv> AList.delete k m"

abbreviation aget :: "('k \<times> 'v) list \<Rightarrow> 'k \<Rightarrow> 'v option" where
  "aget m k \<equiv> map_of m k"

abbreviation ahas :: "('k \<times> 'v) list \<Rightarrow> 'k \<Rightarrow> bool" where
  "ahas m k \<equiv> map_of m k \<noteq> None"

definition akeys :: "('k \<times> 'v) list \<Rightarrow> 'k list" where
  "akeys m = map fst m"

lemma aget_aput [simp]: "aget (aput k v m) k' = (if k' = k then Some v else aget m k')"
  by (simp add: AList.update_conv')

lemma aget_adel [simp]: "aget (adel k m) k' = (if k' = k then None else aget m k')"
  by (simp add: delete_conv')

lemma distinct_akeys_aput [simp, intro]: "distinct (akeys m) \<Longrightarrow> distinct (akeys (aput k v m))"
  by (simp add: akeys_def distinct_update)

lemma distinct_akeys_adel [simp, intro]: "distinct (akeys m) \<Longrightarrow> distinct (akeys (adel k m))"
  by (simp add: akeys_def distinct_delete)

lemma set_akeys_aput [simp]: "set (akeys (aput k v m)) = insert k (set (akeys m))"
  by (simp add: akeys_def dom_update flip: image_set)

lemma set_akeys_adel [simp]: "set (akeys (adel k m)) = set (akeys m) - {k}"
  by (simp add: akeys_def delete_keys)

lemma akeys_aget_iff: "k \<in> set (akeys m) \<longleftrightarrow> aget m k \<noteq> None"
  by (simp add: akeys_def map_of_eq_None_iff)

lemma aget_by_keys: "akeys m = ks \<Longrightarrow> (aget m k = None) = (k \<notin> set ks)"
  using akeys_aget_iff [of k m] by blast

lemma akeys_aput_known: "akeys m = ks \<Longrightarrow> k \<in> set ks \<Longrightarrow> akeys (aput k v m) = ks"
  by (induction m arbitrary: ks) (auto simp: akeys_def)

lemma akeys_aput_fresh: "akeys m = ks \<Longrightarrow> k \<notin> set ks \<Longrightarrow> akeys (aput k v m) = ks @ [k]"
  by (induction m arbitrary: ks) (auto simp: akeys_def)

lemma akeys_length: "akeys m = ks \<Longrightarrow> length m = length ks"
  by (auto simp: akeys_def)

lemma aput_known_length: "aget m k \<noteq> None \<Longrightarrow> length (aput k v m) = length m"
  by (induction m) auto

lemma aget_map_values: "aget (map (\<lambda>(k, v). (k, f v)) m) x = map_option f (aget m x)"
  by (induction m) auto

lemma fold_aput_lookup:
  "distinct (akeys xs) \<Longrightarrow> aget (fold (\<lambda>(k, v). aput k v) xs m) x = (case aget xs x of Some v \<Rightarrow> Some v | None \<Rightarrow> aget m x)"
proof (induction xs arbitrary: m)
  case (Cons e xs)
  obtain a b where e: "e = (a, b)" by fastforce
  then have "aget xs a = None" using Cons.prems by (simp add: akeys_def map_of_eq_None_iff)
  with e Cons show ?case by (auto simp: akeys_def split: option.split)
qed simp

text \<open>How many entries satisfy a predicate, as a \<open>for _, v := range m\<close> counter does.\<close>

definition acount :: "('v \<Rightarrow> bool) \<Rightarrow> ('k \<times> 'v) list \<Rightarrow> nat" where
  "acount P m = length (filter (P \<circ> snd) m)"

lemma acount_Nil [simp]: "acount P [] = 0"
  by (simp add: acount_def)

lemma acount_Cons [simp]: "acount P (e # m) = (if P (snd e) then 1 else 0) + acount P m"
  by (simp add: acount_def)

lemma acount_aput_fresh: "aget m k = None \<Longrightarrow> acount P (aput k v m) = acount P m + (if P v then 1 else 0)"
  by (induction m) (auto split: if_splits)

lemma acount_aput_known:
  "distinct (akeys m) \<Longrightarrow> aget m k = Some u \<Longrightarrow>
   acount P (aput k v m) + (if P u then 1 else 0) = acount P m + (if P v then 1 else 0)"
  by (induction m) (auto simp: akeys_def split: if_splits)

subsection \<open>Lists by index\<close>

text \<open>A search loop that stops at the first hit, and the removal of the element at an index.\<close>

fun first_index :: "('a \<Rightarrow> bool) \<Rightarrow> 'a list \<Rightarrow> nat option" where
  "first_index P [] = None"
| "first_index P (x # xs) = (if P x then Some 0 else map_option Suc (first_index P xs))"

definition remove_at :: "nat \<Rightarrow> 'a list \<Rightarrow> 'a list" where
  "remove_at i xs = take i xs @ drop (Suc i) xs"

lemma first_index_None: "first_index P xs = None \<longleftrightarrow> (\<forall>x \<in> set xs. \<not> P x)"
  by (induction xs) auto

lemma first_index_Some:
  "first_index P xs = Some n \<Longrightarrow> n < length xs \<and> P (xs ! n) \<and> (\<forall>x \<in> set (take n xs). \<not> P x)"
  by (induction xs arbitrary: n) (auto split: if_splits)

lemma find_snoc: "find P (xs @ [x]) = (case find P xs of None \<Rightarrow> if P x then Some x else None | Some y \<Rightarrow> Some y)"
  by (induction xs) auto

subsection \<open>Go's 64-bit \<open>int\<close>\<close>

text \<open>
  The code's \<open>int\<close> and \<open>int64\<close> are two's-complement 64-bit values. Where a product or a sum
  may leave the range, the model writes the wrap-around with \<open>wrap64\<close>.
\<close>

definition wrap64 :: "int \<Rightarrow> int" where
  "wrap64 x = (x + 2 ^ 63) mod 2 ^ 64 - 2 ^ 63"

lemma wrap64_range: "- (2 ^ 63) \<le> wrap64 x \<and> wrap64 x < 2 ^ 63"
  by (simp add: wrap64_def)

lemma wrap64_id: "- (2 ^ 63) \<le> x \<Longrightarrow> x < 2 ^ 63 \<Longrightarrow> wrap64 x = x"
  by (simp add: wrap64_def)

subsection \<open>State machines with an invariant\<close>

text \<open>
  The interface every stateful component promises: a set of start states, an executable step on
  an operation (which may also refuse, leaving the state alone), and an invariant. The client's
  lemmas are about whole runs.
\<close>

locale guarded_system =
  fixes start :: "'s \<Rightarrow> bool"
    and exec :: "'op \<Rightarrow> 's \<Rightarrow> 's"
    and invar :: "'s \<Rightarrow> bool"
  assumes start_invar: "start s \<Longrightarrow> invar s"
    and exec_invar: "invar s \<Longrightarrow> invar (exec op s)"
begin

lemma fold_invar: "invar s \<Longrightarrow> invar (fold exec ops s)"
  by (induction ops arbitrary: s) (auto intro: exec_invar)

lemma run_invar: "start s \<Longrightarrow> invar (fold exec ops s)"
  by (rule fold_invar [OF start_invar])

end

end
