(* ===== verification/GoText.thy ===== *)
theory GoText
  imports Prelude "HOL-Library.Sublist" "HOL-Library.Char_ord" "HOL-Library.List_Lexorder"
begin

section \<open>Go strings\<close>

text \<open>
  What the modelled code uses of Go's \<open>strings\<close>, \<open>strconv\<close> and \<open>unicode/utf8\<close>. A Go string is
  a sequence of bytes, so it is a \<open>string\<close> (a list of 8-bit \<open>char\<close>s) here; a \<open>[]rune\<close> is a
  list of code points. \<open>strings.HasPrefix\<close> and \<open>strings.HasSuffix\<close> are \<open>prefix\<close> and \<open>suffix\<close> of
  the library; Go's \<open><\<close> on strings is the byte-wise lexicographic order of \<open>List_Lexorder\<close>.
\<close>

subsection \<open>Searching and cutting\<close>

text \<open>\<open>strings.Index\<close>: the position of the first occurrence, \<open>None\<close> for Go's \<open>-1\<close>.\<close>

fun index_of :: "string \<Rightarrow> string \<Rightarrow> nat option" where
  "index_of p [] = (if p = [] then Some 0 else None)"
| "index_of p (c # s) = (if prefix p (c # s) then Some 0 else map_option Suc (index_of p s))"

definition trim_prefix :: "string \<Rightarrow> string \<Rightarrow> string" where
  "trim_prefix p s = (if prefix p s then drop (length p) s else s)"

definition trim_suffix :: "string \<Rightarrow> string \<Rightarrow> string" where
  "trim_suffix p s = (if suffix p s then take (length s - length p) s else s)"

text \<open>\<open>strings.Cut\<close>: the text before and after the first separator, \<open>None\<close> when it is absent.\<close>

definition cut :: "string \<Rightarrow> string \<Rightarrow> (string \<times> string) option" where
  "cut sep s = map_option (\<lambda>i. (take i s, drop (i + length sep) s)) (index_of sep s)"

text \<open>\<open>strings.Split(s, "\<newline>")\<close> and \<open>strings.Join(_, "\<newline>")\<close> for a one-byte separator.\<close>

fun split_char :: "char \<Rightarrow> string \<Rightarrow> string list" where
  "split_char c [] = [[]]"
| "split_char c (x # xs) =
     (if x = c then [] # split_char c xs
      else (case split_char c xs of [] \<Rightarrow> [[x]] | l # ls \<Rightarrow> (x # l) # ls))"

fun join :: "string \<Rightarrow> string list \<Rightarrow> string" where
  "join sep [] = []"
| "join sep [x] = x"
| "join sep (x # y # zs) = x @ sep @ join sep (y # zs)"

abbreviation newline_char :: char where
  "newline_char \<equiv> CHR 0x0A"

lemma split_char_nonempty [simp]: "split_char c s \<noteq> []"
  by (induction s) (auto split: list.splits)

lemma split_char_no_sep: "c \<notin> set s \<Longrightarrow> split_char c s = [s]"
  by (induction s) auto

lemma split_char_append_sep:
  "split_char c (s @ c # t) = split_char c s @ split_char c t"
  by (induction s) (auto split: list.splits)

lemma join_Cons: "ls \<noteq> [] \<Longrightarrow> join sep (l # ls) = l @ sep @ join sep ls"
  by (cases ls) auto

lemma join_split: "join [c] (split_char c s) = s"
proof (induction s)
  case (Cons x s)
  then show ?case
  proof (cases "split_char c s")
    case (Cons l ls)
    with Cons.IH show ?thesis by (cases ls) (auto simp: join_Cons)
  qed simp
qed simp

lemma split_char_pieces: "l \<in> set (split_char c s) \<Longrightarrow> c \<notin> set l"
  by (induction s arbitrary: l) (auto split: if_splits list.splits)

lemma split_join:
  "ls \<noteq> [] \<Longrightarrow> \<forall>l \<in> set ls. c \<notin> set l \<Longrightarrow> split_char c (join [c] ls) = ls"
proof (induction ls)
  case (Cons l ls)
  then show ?case
    by (cases ls) (auto simp: split_char_no_sep split_char_append_sep)
qed simp

lemma index_of_Some: "index_of p s = Some i \<Longrightarrow> prefix p (drop i s) \<and> i + length p \<le> length s"
  by (induction s arbitrary: i) (auto split: if_splits dest: prefix_length_le)

lemma index_of_None: "index_of p s = None \<Longrightarrow> \<not> prefix p s"
  by (cases s) (auto split: if_splits)

lemma index_of_self: "index_of p (p @ s) = Some 0"
proof (cases "p @ s")
  case (Cons c t)
  then have "prefix p (c # t)" by (metis prefixI)
  then show ?thesis by (simp add: Cons)
qed simp

lemma index_of_first: "c \<notin> set s \<Longrightarrow> index_of [c] (s @ c # t) = Some (length s)"
  by (induction s) auto

lemma index_of_no_char: "index_of [c] s = None \<longleftrightarrow> c \<notin> set s"
  by (induction s) auto

lemma cut_first: "c \<notin> set s \<Longrightarrow> cut [c] (s @ c # t) = Some (s, t)"
  by (simp add: cut_def index_of_first)

lemma cut_None: "cut [c] s = None \<longleftrightarrow> c \<notin> set s"
  by (simp add: cut_def index_of_no_char)

lemma trim_prefix_append [simp]: "trim_prefix p (p @ s) = s"
  by (simp add: trim_prefix_def)

subsection \<open>UTF-8\<close>

type_synonym rune = nat

abbreviation byte :: "char \<Rightarrow> nat" where
  "byte c \<equiv> of_char c"

abbreviation rune_error :: rune where
  "rune_error \<equiv> 0xFFFD"

text \<open>\<open>utf8.AppendRune\<close>, which \<open>string(rune)\<close> and \<open>WriteRune\<close> use: surrogates and values above
  the last code point are written as the replacement character.\<close>

definition utf8_encode :: "rune \<Rightarrow> string" where
  "utf8_encode r =
     (let r' = (if 0x10FFFF < r \<or> (0xD800 \<le> r \<and> r \<le> 0xDFFF) then rune_error else r) in
      if r' < 0x80 then [char_of r']
      else if r' < 0x800 then [char_of (0xC0 + r' div 64), char_of (0x80 + r' mod 64)]
      else if r' < 0x10000 then
        [char_of (0xE0 + r' div 4096), char_of (0x80 + r' div 64 mod 64), char_of (0x80 + r' mod 64)]
      else
        [char_of (0xF0 + r' div 262144), char_of (0x80 + r' div 4096 mod 64),
         char_of (0x80 + r' div 64 mod 64), char_of (0x80 + r' mod 64)])"

text \<open>\<open>utf8.DecodeRuneInString\<close>: the first rune and its width. An ill-formed sequence gives the
  replacement character and width one.\<close>

definition in_range :: "nat \<Rightarrow> nat \<Rightarrow> char \<Rightarrow> bool" where
  "in_range lo hi c \<longleftrightarrow> lo \<le> byte c \<and> byte c \<le> hi"

fun decode_rune :: "string \<Rightarrow> rune \<times> nat" where
  "decode_rune [] = (rune_error, 0)"
| "decode_rune (b0 # bs) =
     (let n0 = byte b0 in
      if n0 < 0x80 then (n0, 1)
      else if 0xC2 \<le> n0 \<and> n0 \<le> 0xDF then
        (case bs of b1 # _ \<Rightarrow>
           if in_range 0x80 0xBF b1 then ((n0 - 0xC0) * 64 + (byte b1 - 0x80), 2) else (rune_error, 1)
         | _ \<Rightarrow> (rune_error, 1))
      else if 0xE0 \<le> n0 \<and> n0 \<le> 0xEF then
        (case bs of b1 # b2 # _ \<Rightarrow>
           if in_range (if n0 = 0xE0 then 0xA0 else 0x80) (if n0 = 0xED then 0x9F else 0xBF) b1
              \<and> in_range 0x80 0xBF b2
           then ((n0 - 0xE0) * 4096 + (byte b1 - 0x80) * 64 + (byte b2 - 0x80), 3)
           else (rune_error, 1)
         | _ \<Rightarrow> (rune_error, 1))
      else if 0xF0 \<le> n0 \<and> n0 \<le> 0xF4 then
        (case bs of b1 # b2 # b3 # _ \<Rightarrow>
           if in_range (if n0 = 0xF0 then 0x90 else 0x80) (if n0 = 0xF4 then 0x8F else 0xBF) b1
              \<and> in_range 0x80 0xBF b2 \<and> in_range 0x80 0xBF b3
           then ((n0 - 0xF0) * 262144 + (byte b1 - 0x80) * 4096 + (byte b2 - 0x80) * 64
                 + (byte b3 - 0x80), 4)
           else (rune_error, 1)
         | _ \<Rightarrow> (rune_error, 1))
      else (rune_error, 1))"

text \<open>\<open>[]rune(s)\<close> and \<open>string(runes)\<close>.\<close>

lemma decode_rune_width_pos: "s \<noteq> [] \<Longrightarrow> 0 < snd (decode_rune s)"
  by (cases s) (auto simp: Let_def split: list.splits)

function runes_of :: "string \<Rightarrow> rune list" where
  "runes_of s = (if s = [] then [] else fst (decode_rune s) # runes_of (drop (snd (decode_rune s)) s))"
  by pat_completeness auto
termination
  by (relation "measure length") (auto simp: decode_rune_width_pos)

declare runes_of.simps [simp del]

definition string_of_runes :: "rune list \<Rightarrow> string" where
  "string_of_runes rs = concat (map utf8_encode rs)"

definition valid_rune :: "rune \<Rightarrow> bool" where
  "valid_rune r \<longleftrightarrow> r \<le> 0x10FFFF \<and> \<not> (0xD800 \<le> r \<and> r \<le> 0xDFFF)"

subsection \<open>UTF-8 round trip\<close>

lemma byte_char_of: "n < 256 \<Longrightarrow> byte (char_of n) = n"
  by (simp add: of_char_of)

lemma decode_two: "2 \<le> a \<Longrightarrow> a < 32 \<Longrightarrow> b < 64 \<Longrightarrow>
  decode_rune (char_of (0xC0 + a) # char_of (0x80 + b) # s) = (a * 64 + b, 2)" for a b :: nat
  by (auto simp: byte_char_of in_range_def)

lemma decode_three: "a < 16 \<Longrightarrow> b < 64 \<Longrightarrow> c < 64 \<Longrightarrow> a = 0 \<longrightarrow> 32 \<le> b \<Longrightarrow> a = 13 \<longrightarrow> b < 32 \<Longrightarrow>
  decode_rune (char_of (0xE0 + a) # char_of (0x80 + b) # char_of (0x80 + c) # s) = (a * 4096 + b * 64 + c, 3)"
  for a b c :: nat
  by (auto simp: byte_char_of in_range_def)

lemma decode_four: "a \<le> 4 \<Longrightarrow> b < 64 \<Longrightarrow> c < 64 \<Longrightarrow> d < 64 \<Longrightarrow> a = 0 \<longrightarrow> 16 \<le> b \<Longrightarrow> a = 4 \<longrightarrow> b < 16 \<Longrightarrow>
  decode_rune (char_of (0xF0 + a) # char_of (0x80 + b) # char_of (0x80 + c) # char_of (0x80 + d) # s)
   = (a * 262144 + b * 4096 + c * 64 + d, 4)"
  for a b c d :: nat
  by (auto simp: byte_char_of in_range_def)

lemma dm64: "x div 64 * 64 + x mod 64 = (x::nat)"
  by simp

lemma sum3: "r div 4096 * 4096 + r div 64 mod 64 * 64 + r mod 64 = (r::nat)"
proof -
  have "r div 4096 * 64 + r div 64 mod 64 = r div 64"
    using dm64 [of "r div 64"] by (simp add: div_mult2_eq [symmetric])
  then show ?thesis using dm64 [of r] by linarith
qed

lemma sum4: "r div 262144 * 262144 + r div 4096 mod 64 * 4096 + r div 64 mod 64 * 64 + r mod 64 = (r::nat)"
proof -
  have "r div 262144 * 64 + r div 4096 mod 64 = r div 4096"
    using dm64 [of "r div 4096"] by (simp add: div_mult2_eq [symmetric])
  then show ?thesis using sum3 [of r] by linarith
qed

lemma decode_encode:
  assumes "valid_rune r"
  shows "decode_rune (utf8_encode r @ s) = (r, length (utf8_encode r))"
proof -
  have top: "r \<le> 0x10FFFF" and sur: "r < 0xD800 \<or> 0xDFFF < r"
    using assms by (auto simp: valid_rune_def)
  consider "r < 0x80" | "0x80 \<le> r" "r < 0x800" | "0x800 \<le> r" "r < 0x10000" | "0x10000 \<le> r"
    by linarith
  then show ?thesis
  proof cases
    case 1
    then show ?thesis by (simp add: utf8_encode_def byte_char_of)
  next
    case 2
    then have "utf8_encode r = [char_of (0xC0 + r div 64), char_of (0x80 + r mod 64)]"
      by (simp add: utf8_encode_def)
    moreover have "2 \<le> r div 64" "r div 64 < 32" "r mod 64 < 64" using 2 by auto
    ultimately show ?thesis by (simp only: append.simps decode_two dm64 list.size) simp
  next
    case 3
    then have enc: "utf8_encode r =
        [char_of (0xE0 + r div 4096), char_of (0x80 + r div 64 mod 64), char_of (0x80 + r mod 64)]"
      using sur by (auto simp: utf8_encode_def)
    have small: "r div 64 mod 64 < 64" "r mod 64 < 64" by simp_all
    have "r div 4096 < 16" using 3 by auto
    moreover have "r div 4096 = 0 \<longrightarrow> 32 \<le> r div 64 mod 64"
      using 3 small sum3 [of r] by linarith
    moreover have "r div 4096 = 13 \<longrightarrow> r div 64 mod 64 < 32"
      using sur small sum3 [of r] by linarith
    ultimately
    show ?thesis unfolding enc using small by (simp only: append.simps decode_three sum3 list.size) simp
  next
    case 4
    then have enc: "utf8_encode r =
        [char_of (0xF0 + r div 262144), char_of (0x80 + r div 4096 mod 64),
         char_of (0x80 + r div 64 mod 64), char_of (0x80 + r mod 64)]"
      using top by (simp add: utf8_encode_def)
    have small: "r div 4096 mod 64 < 64" "r div 64 mod 64 < 64" "r mod 64 < 64" by simp_all
    have "r div 262144 \<le> 4" using top by auto
    moreover have "r div 262144 = 0 \<longrightarrow> 16 \<le> r div 4096 mod 64"
      using 4 small sum4 [of r] by linarith
    moreover have "r div 262144 = 4 \<longrightarrow> r div 4096 mod 64 < 16"
      using top small sum4 [of r] by linarith
    ultimately
    show ?thesis unfolding enc using small by (simp only: append.simps decode_four sum4 list.size) simp
  qed
qed

lemma utf8_encode_nonempty [simp]: "utf8_encode r \<noteq> []"
  by (simp add: utf8_encode_def Let_def)

text \<open>Writing runes and reading them back gives the runes.\<close>

lemma runes_of_string_of_runes:
  "\<forall>r \<in> set rs. valid_rune r \<Longrightarrow> runes_of (string_of_runes rs) = rs"
proof (induction rs)
  case Nil
  then show ?case by (simp add: string_of_runes_def runes_of.simps)
next
  case (Cons r rs)
  then show ?case
    by (subst runes_of.simps) (simp add: string_of_runes_def decode_encode)
qed

lemma runes_of_Nil [simp]: "runes_of [] = []"
  by (simp add: runes_of.simps)

lemma runes_of_ascii: "byte c < 0x80 \<Longrightarrow> runes_of (c # s) = byte c # runes_of s"
  by (subst runes_of.simps) simp

lemma utf8_encode_ascii: "byte c < 0x80 \<Longrightarrow> utf8_encode (byte c) = [c]"
  by (simp add: utf8_encode_def)

subsection \<open>White space\<close>

text \<open>\<open>unicode.IsSpace\<close>.\<close>

definition space_runes :: "rune list" where
  "space_runes = [0x09, 0x0A, 0x0B, 0x0C, 0x0D, 0x20, 0x85, 0xA0, 0x1680,
     0x2000, 0x2001, 0x2002, 0x2003, 0x2004, 0x2005, 0x2006, 0x2007, 0x2008, 0x2009, 0x200A,
     0x2028, 0x2029, 0x202F, 0x205F, 0x3000]"

definition is_space :: "rune \<Rightarrow> bool" where
  "is_space r \<longleftrightarrow> r \<in> set space_runes"

text \<open>\<open>strings.TrimSpace\<close>: a well-formed space at either end is removed until there is none. Both
  the decoder that reads from the left and the one that reads from the right see a space
  exactly where the bytes of its encoding stand.\<close>

definition space_encodings :: "string list" where
  "space_encodings = map utf8_encode space_runes"

lemma space_encodings_nonempty: "e \<in> set space_encodings \<Longrightarrow> e \<noteq> []"
  by (auto simp: space_encodings_def)

function trim_left :: "string \<Rightarrow> string" where
  "trim_left s = (case find (\<lambda>e. prefix e s) space_encodings of
      None \<Rightarrow> s | Some e \<Rightarrow> trim_left (drop (length e) s))"
  by pat_completeness auto
termination
proof (relation "measure length", simp)
  fix s e
  assume "find (\<lambda>e. prefix e s) space_encodings = Some e"
  then have "e \<in> set space_encodings" "prefix e s"
    by (auto simp: find_Some_iff)
  then show "(drop (length e) s, s) \<in> measure length"
    using space_encodings_nonempty [of e] by (cases e; cases s) auto
qed

function trim_right :: "string \<Rightarrow> string" where
  "trim_right s = (case find (\<lambda>e. suffix e s) space_encodings of
      None \<Rightarrow> s | Some e \<Rightarrow> trim_right (take (length s - length e) s))"
  by pat_completeness auto
termination
proof (relation "measure length", simp)
  fix s e
  assume "find (\<lambda>e. suffix e s) space_encodings = Some e"
  then have "e \<in> set space_encodings" "suffix e s"
    by (auto simp: find_Some_iff)
  then show "(take (length s - length e) s, s) \<in> measure length"
    using space_encodings_nonempty [of e] suffix_length_le [of e s] by (cases e; cases s) auto
qed

declare trim_left.simps [simp del] trim_right.simps [simp del]

definition trim_space :: "string \<Rightarrow> string" where
  "trim_space s = trim_right (trim_left s)"

lemma space_bytes:
  "char_of (9::nat) = CHR 0x09"
  "char_of (10::nat) = CHR 0x0A"
  "char_of (11::nat) = CHR 0x0B"
  "char_of (12::nat) = CHR 0x0C"
  "char_of (13::nat) = CHR 0x0D"
  "char_of (32::nat) = CHR 0x20"
  "char_of (128::nat) = CHR 0x80"
  "char_of (129::nat) = CHR 0x81"
  "char_of (130::nat) = CHR 0x82"
  "char_of (131::nat) = CHR 0x83"
  "char_of (132::nat) = CHR 0x84"
  "char_of (133::nat) = CHR 0x85"
  "char_of (134::nat) = CHR 0x86"
  "char_of (135::nat) = CHR 0x87"
  "char_of (136::nat) = CHR 0x88"
  "char_of (137::nat) = CHR 0x89"
  "char_of (138::nat) = CHR 0x8A"
  "char_of (154::nat) = CHR 0x9A"
  "char_of (159::nat) = CHR 0x9F"
  "char_of (160::nat) = CHR 0xA0"
  "char_of (168::nat) = CHR 0xA8"
  "char_of (169::nat) = CHR 0xA9"
  "char_of (175::nat) = CHR 0xAF"
  "char_of (194::nat) = CHR 0xC2"
  "char_of (225::nat) = CHR 0xE1"
  "char_of (226::nat) = CHR 0xE2"
  "char_of (227::nat) = CHR 0xE3"
  by code_simp+

lemma space_encodings_eval:
  "space_encodings =
    [[CHR 0x09], [CHR 0x0A], [CHR 0x0B], [CHR 0x0C], [CHR 0x0D], [CHR 0x20],
     [CHR 0xC2, CHR 0x85], [CHR 0xC2, CHR 0xA0], [CHR 0xE1, CHR 0x9A, CHR 0x80],
     [CHR 0xE2, CHR 0x80, CHR 0x80], [CHR 0xE2, CHR 0x80, CHR 0x81], [CHR 0xE2, CHR 0x80, CHR 0x82],
     [CHR 0xE2, CHR 0x80, CHR 0x83], [CHR 0xE2, CHR 0x80, CHR 0x84], [CHR 0xE2, CHR 0x80, CHR 0x85],
     [CHR 0xE2, CHR 0x80, CHR 0x86], [CHR 0xE2, CHR 0x80, CHR 0x87], [CHR 0xE2, CHR 0x80, CHR 0x88],
     [CHR 0xE2, CHR 0x80, CHR 0x89], [CHR 0xE2, CHR 0x80, CHR 0x8A], [CHR 0xE2, CHR 0x80, CHR 0xA8],
     [CHR 0xE2, CHR 0x80, CHR 0xA9], [CHR 0xE2, CHR 0x80, CHR 0xAF], [CHR 0xE2, CHR 0x81, CHR 0x9F],
     [CHR 0xE3, CHR 0x80, CHR 0x80]]"
  by (simp add: space_encodings_def space_runes_def utf8_encode_def space_bytes)

text \<open>A printable ASCII byte at an end stops the trimming there.\<close>

definition graphic :: "char \<Rightarrow> bool" where
  "graphic c \<longleftrightarrow> 0x21 \<le> byte c \<and> byte c < 0x80"

lemma space_ends: "e \<in> set space_encodings \<Longrightarrow> \<not> graphic (hd e) \<and> \<not> graphic (last e)"
  by (auto simp: space_encodings_eval graphic_def)

lemma no_space_prefix: "graphic c \<Longrightarrow> find (\<lambda>e. prefix e (c # s)) space_encodings = None"
  using space_ends space_encodings_nonempty by (fastforce simp: find_None_iff prefix_Cons)

lemma trim_left_graphic: "graphic c \<Longrightarrow> trim_left (c # s) = c # s"
  by (subst trim_left.simps) (simp add: no_space_prefix)

lemma no_space_suffix: "graphic c \<Longrightarrow> find (\<lambda>e. suffix e (s @ [c])) space_encodings = None"
  using space_ends space_encodings_nonempty by (fastforce simp: find_None_iff suffix_snoc)

lemma trim_right_graphic: "graphic c \<Longrightarrow> trim_right (s @ [c]) = s @ [c]"
  by (subst trim_right.simps) (simp only: no_space_suffix option.case)

lemma trim_space_Nil [simp]: "trim_space [] = []"
  by (simp add: trim_space_def trim_left.simps trim_right.simps space_encodings_eval)

lemma trim_space_graphic:
  assumes "s \<noteq> []" "graphic (hd s)" "graphic (last s)"
  shows "trim_space s = s"
proof -
  have "trim_left s = s" using assms(1,2) by (cases s) (auto simp: trim_left_graphic)
  moreover have "trim_right s = s"
    using trim_right_graphic [OF assms(3), of "butlast s"] assms(1) by simp
  ultimately show ?thesis by (simp add: trim_space_def)
qed

subsection \<open>Integers\<close>

definition is_digit_byte :: "char \<Rightarrow> bool" where
  "is_digit_byte c \<longleftrightarrow> in_range 0x30 0x39 c"

definition digits_value :: "string \<Rightarrow> nat" where
  "digits_value s = foldl (\<lambda>n c. 10 * n + (byte c - 0x30)) 0 s"

text \<open>\<open>strconv.ParseInt(s, 10, 64)\<close>: an optional sign and at least one digit; \<open>None\<close> is a syntax
  or a range error.\<close>

definition parse_int64 :: "string \<Rightarrow> int option" where
  "parse_int64 s =
     (let neg = (case s of c # _ \<Rightarrow> c = CHR ''-'' | [] \<Rightarrow> False);
          ds = (case s of c # cs \<Rightarrow> if c = CHR ''-'' \<or> c = CHR ''+'' then cs else s | [] \<Rightarrow> [])
      in if ds = [] \<or> \<not> list_all is_digit_byte ds then None
         else let n = int (digits_value ds) in
           if neg then (if n \<le> 2 ^ 63 then Some (- n) else None)
           else (if n < 2 ^ 63 then Some n else None))"

text \<open>The decimal digits of a number, as \<open>itoa\<close> in control.go and \<open>%d\<close> write them.\<close>

fun nat_digits :: "nat \<Rightarrow> string" where
  "nat_digits n = (if n < 10 then [char_of (0x30 + n)] else nat_digits (n div 10) @ [char_of (0x30 + n mod 10)])"

declare nat_digits.simps [simp del]

definition itoa :: "int \<Rightarrow> string" where
  "itoa n = (if n < 0 then CHR ''-'' # nat_digits (nat (- n)) else nat_digits (nat n))"

lemma digits_value_snoc: "digits_value (s @ [c]) = 10 * digits_value s + (byte c - 0x30)"
  by (simp add: digits_value_def)

lemma digit_char:
  "d \<le> 9 \<Longrightarrow> is_digit_byte (char_of (0x30 + d)) \<and> byte (char_of (0x30 + d)) = 0x30 + d" for d :: nat
  by (simp add: is_digit_byte_def in_range_def byte_char_of)

lemma nat_digits_props:
  "nat_digits n \<noteq> [] \<and> list_all is_digit_byte (nat_digits n) \<and> digits_value (nat_digits n) = n"
proof (induction n rule: nat_digits.induct)
  case (1 n)
  show ?case
  proof (cases "n < 10")
    case True
    then show ?thesis
      using digit_char [of n] by (subst (1 2 3) nat_digits.simps) (simp add: digits_value_def)
  next
    case False
    have "n mod 10 \<le> 9" by (simp flip: less_Suc_eq_le)
    with False 1 show ?thesis
      using digit_char [of "n mod 10"]
      by (subst (1 2 3) nat_digits.simps) (simp add: digits_value_snoc)
  qed
qed

lemma is_digit_not_sign: "is_digit_byte c \<Longrightarrow> c \<noteq> CHR ''-'' \<and> c \<noteq> CHR ''+''"
  by (auto simp: is_digit_byte_def in_range_def)

lemma parse_int64_itoa: "- (2 ^ 63) \<le> n \<Longrightarrow> n < 2 ^ 63 \<Longrightarrow> parse_int64 (itoa n) = Some n"
  using nat_digits_props [of "nat n"] nat_digits_props [of "nat (- n)"]
    is_digit_not_sign [of "hd (nat_digits (nat n))"]
  by (cases "nat_digits (nat n)") (auto simp: parse_int64_def itoa_def Let_def)

lemma itoa_inject: "itoa m = itoa n \<Longrightarrow> m = n"
proof (cases "m < 0"; cases "n < 0")
  fix m n :: int
  have dash: "nat_digits k \<noteq> CHR ''-'' # nat_digits j" for k j
    using nat_digits_props [of k] is_digit_not_sign [of "CHR ''-''"] by auto
  have inj: "nat_digits k = nat_digits j \<Longrightarrow> k = j" for k j
    using nat_digits_props [of k] nat_digits_props [of j] by metis
  assume eq: "itoa m = itoa n"
  { assume "m < 0" "n < 0" with eq show "m = n" by (auto simp: itoa_def dest: inj) }
  { assume "m < 0" "\<not> n < 0" with eq show "m = n" using dash by (metis itoa_def) }
  { assume "\<not> m < 0" "n < 0" with eq show "m = n" using dash by (metis itoa_def) }
  { assume "\<not> m < 0" "\<not> n < 0" with eq show "m = n" by (auto simp: itoa_def dest: inj) }
qed

end
