(* ===== verification/GraphModel.thy ===== *)
theory GraphModel
  imports GoText
begin

section \<open>The data of a graph workflow run\<close>

text \<open>
  The types of \<open>types/model/graph.go\<close> the engine reads and writes, and the instance keys of
  \<open>services/graph/runtime.go\<close>. A string-valued Go enum is a \<open>datatype\<close> with one constructor per
  declared constant and one for any other text (the empty string included), because the code
  meets undeclared values and has a branch for them. Fields that only the canvas shows (layout,
  metadata, viewport) and the frozen agent definitions are left out.
\<close>

subsection \<open>Enums\<close>

datatype node_type = NStart | NEnd | NShell | NPrompt | NClarify | NIfElse | NLoop | NOther string

datatype edge_port = PortDefault | PortYes | PortNo | PortOther string

datatype loop_mode = LoopFixed | LoopUntil | LoopOther string

datatype session_strategy = StrategyNew | StrategyInherit | StrategyOther string

datatype end_hook_mode = HookDefault | HookCustom | HookOff | HookOther string

datatype job_status = JobPending | JobRunning | JobCompleted | JobFailed | JobStopped

datatype run_status = RunPending | RunRunning | RunCompleted | RunFailed | RunStepStopping
  | RunStepStopped | RunSessionStopping | RunSessionStopped | RunStopped | RunTimedOut
  | RunRecovering | RunAwaitingInput

datatype instance_status = InstPending | InstRunning | InstSucceeded | InstFailed | InstSkipped
  | InstInterrupted | InstAwaitingInput

datatype edge_status = EdgePending | EdgeActive | EdgePruned

subsection \<open>Configuration\<close>

type_synonym vars = "(string \<times> string) list"

record node_config =
  nc_script :: string
  nc_prompt :: string
  nc_agent_type :: string
  nc_model_id :: string
  nc_acp_mode :: string
  nc_acp_thought_level :: string
  nc_session_strategy :: session_strategy
  nc_output_variables :: "string list"
  nc_last_assistant_alias :: string
  nc_timeout_seconds :: "int option"
  nc_condition :: string
  nc_loop_mode :: loop_mode
  nc_fixed_count :: int
  nc_until_condition :: string
  nc_max_iterations :: int
  nc_hook_script :: string
  nc_end_hook_mode :: end_hook_mode

record graph_node =
  n_id :: string
  n_type :: node_type
  n_title :: string
  n_parent :: string
  n_config :: node_config

record graph_edge =
  e_id :: string
  e_source :: string
  e_target :: string
  e_source_port :: edge_port

record graph_run_config =
  rc_concurrency_limit :: int
  rc_default_node_timeout_sec :: int
  rc_job_timeout_sec :: int
  rc_default_loop_max_iters :: int
  rc_instance_limit :: int
  rc_snapshot_byte_limit :: int

record graph_config =
  gc_nodes :: "graph_node list"
  gc_edges :: "graph_edge list"
  gc_variables :: vars
  gc_disabled_vars :: "string list"
  gc_run_config :: graph_run_config
  gc_workspace_id :: string
  gc_workdir :: string

text \<open>Go's zero values, from which the examples below build their nodes.\<close>

definition empty_node_config :: node_config where
  "empty_node_config = \<lparr> nc_script = [], nc_prompt = [], nc_agent_type = [], nc_model_id = [],
     nc_acp_mode = [], nc_acp_thought_level = [], nc_session_strategy = StrategyOther [],
     nc_output_variables = [], nc_last_assistant_alias = [], nc_timeout_seconds = None,
     nc_condition = [], nc_loop_mode = LoopOther [], nc_fixed_count = 0, nc_until_condition = [],
     nc_max_iterations = 0, nc_hook_script = [], nc_end_hook_mode = HookOther [] \<rparr>"

definition empty_run_config :: graph_run_config where
  "empty_run_config = \<lparr> rc_concurrency_limit = 0, rc_default_node_timeout_sec = 0,
     rc_job_timeout_sec = 0, rc_default_loop_max_iters = 0, rc_instance_limit = 0,
     rc_snapshot_byte_limit = 0 \<rparr>"

subsection \<open>Run state\<close>

record loop_iteration =
  li_loop_node :: string
  li_index :: int

record instance_key =
  ik_node :: string
  ik_iterations :: "loop_iteration list"

record runtime_error =
  re_run_id :: string
  re_key :: "instance_key option"
  re_node_id :: string
  re_message :: string
  re_can_resume :: bool

record instance_state =
  is_key :: instance_key
  is_node_id :: string
  is_node_title :: string
  is_node_type :: node_type
  is_status :: instance_status
  is_version :: int
  is_session :: string
  is_display_session :: string
  is_visible :: vars
  is_outputs :: vars
  is_writers :: vars
  is_started_at :: int
  is_finished_at :: int
  is_duration_ms :: int
  is_error :: "runtime_error option"
  is_blocked_reason :: string

record edge_state =
  es_edge_id :: string
  es_source :: instance_key
  es_target :: instance_key
  es_status :: edge_status
  es_resolved_at :: int
  es_reason :: string

record graph_progress =
  gp_total :: int
  gp_completed :: int
  gp_failed :: int
  gp_skipped :: int
  gp_interrupted :: int
  gp_running :: int
  gp_current_keys :: "instance_key list"
  gp_last_error :: string

record graph_loop_state =
  gl_loop_node :: string
  gl_key :: instance_key
  gl_iteration :: int
  gl_completed :: bool
  gl_variables :: vars
  gl_writers :: vars
  gl_entry_session :: string

record session_lineage =
  sl_strategy :: session_strategy
  sl_session :: string
  sl_parent_session :: string

record ready_batch =
  rb_id :: string
  rb_version :: int
  rb_members :: "(string \<times> instance_key \<times> instance_status) list"
  rb_created_at :: int

record resume_state =
  rs_loop_state :: "(string \<times> graph_loop_state) list"
  rs_lineage :: "(string \<times> session_lineage) list"
  rs_frozen_batch :: "ready_batch option"

record run_version =
  rv_version :: int
  rv_config :: graph_config

record graph_run =
  gr_id :: string
  gr_job_id :: string
  gr_status :: run_status
  gr_base_config :: graph_config
  gr_versions :: "run_version list"
  gr_progress :: "graph_progress option"
  gr_resume :: "resume_state option"
  gr_current_version :: int
  gr_started_at :: int
  gr_finished_at :: int
  gr_updated_at :: int
  gr_last_error :: "runtime_error option"
  gr_archived :: "(string \<times> instance_state) list"
  gr_retry_versions :: "(string \<times> int) list"

subsection \<open>Classifying nodes\<close>

definition is_agent :: "node_type \<Rightarrow> bool" where
  "is_agent t \<longleftrightarrow> t = NPrompt \<or> t = NClarify"

fun is_business :: "node_type \<Rightarrow> bool" where
  "is_business NShell = True"
| "is_business NPrompt = True"
| "is_business NClarify = True"
| "is_business NIfElse = True"
| "is_business NLoop = True"
| "is_business _ = False"

lemma agent_is_business: "is_agent t \<Longrightarrow> is_business t"
  by (cases t) (auto simp: is_agent_def)

text \<open>\<open>nodesByID\<close>: the last node with an identifier wins, as in the map the code fills.\<close>

definition nodes_by_id :: "graph_config \<Rightarrow> (string \<times> graph_node) list" where
  "nodes_by_id cfg = fold (\<lambda>n m. aput (n_id n) n m) (gc_nodes cfg) []"

lemma aget_nodes_by_id:
  "aget (nodes_by_id cfg) i = find (\<lambda>n. n_id n = i) (rev (gc_nodes cfg))"
proof -
  have "aget (fold (\<lambda>n m. aput (n_id n) n m) ns []) i = find (\<lambda>n. n_id n = i) (rev ns)" for ns
    by (induction ns rule: rev_induct) auto
  then show ?thesis by (simp add: nodes_by_id_def)
qed

lemma nodes_by_id_id: "aget (nodes_by_id cfg) i = Some n \<Longrightarrow> n_id n = i \<and> n \<in> set (gc_nodes cfg)"
  by (auto simp: aget_nodes_by_id find_Some_iff) (metis length_rev nth_mem set_rev)

lemma distinct_nodes_by_id: "distinct (akeys (nodes_by_id cfg))"
proof -
  have "distinct (akeys (fold (\<lambda>n m. aput (n_id n) n m) ns []))" for ns
    by (induction ns rule: rev_induct) (auto simp: akeys_def intro: distinct_update)
  then show ?thesis by (simp add: nodes_by_id_def)
qed

subsection \<open>Instance keys\<close>

text \<open>
  \<open>instanceKeyString\<close> writes \<open>loop#round/loop#round/node\<close>; every run-time map of the scheduler
  is keyed by that text.
\<close>

definition iteration_string :: "loop_iteration \<Rightarrow> string" where
  "iteration_string it = li_loop_node it @ ''#'' @ itoa (li_index it)"

definition instance_key_string :: "instance_key \<Rightarrow> string" where
  "instance_key_string k =
     (if ik_iterations k = [] then ik_node k
      else join ''/'' (map iteration_string (ik_iterations k) @ [ik_node k]))"

definition edge_state_key :: "string \<Rightarrow> instance_key \<Rightarrow> string" where
  "edge_state_key eid target = eid @ ''@'' @ instance_key_string target"

definition scope_key :: "loop_iteration list \<Rightarrow> string \<Rightarrow> instance_key" where
  "scope_key prefix_its node_id = \<lparr> ik_node = node_id, ik_iterations = prefix_its \<rparr>"

text \<open>The identifiers a key mentions are free of the separator.\<close>

definition slash_free :: "instance_key \<Rightarrow> bool" where
  "slash_free k \<longleftrightarrow> CHR ''/'' \<notin> set (ik_node k) \<and>
     (\<forall>it \<in> set (ik_iterations k). CHR ''/'' \<notin> set (li_loop_node it))"

lemma itoa_chars: "c \<in> set (itoa n) \<Longrightarrow> is_digit_byte c \<or> c = CHR ''-''"
  using nat_digits_props [of "nat n"] nat_digits_props [of "nat (- n)"]
  by (auto simp: itoa_def list_all_iff split: if_splits)

lemma itoa_no_sep: "CHR ''/'' \<notin> set (itoa n)" "CHR ''#'' \<notin> set (itoa n)"
  using itoa_chars [of "CHR ''/''" n] itoa_chars [of "CHR ''#''" n]
  by (auto simp: is_digit_byte_def in_range_def)

lemma snoc_sep_unique:
  "a @ c # b = a' @ c # b' \<Longrightarrow> c \<notin> set b \<Longrightarrow> c \<notin> set b' \<Longrightarrow> a = a' \<and> b = b'"
  by (auto simp: append_eq_append_conv2 append_eq_Cons_conv Cons_eq_append_conv)

lemma iteration_string_inject: "iteration_string i = iteration_string j \<Longrightarrow> i = j"
proof -
  assume "iteration_string i = iteration_string j"
  then have "li_loop_node i = li_loop_node j \<and> itoa (li_index i) = itoa (li_index j)"
    by (intro snoc_sep_unique [where c = "CHR ''#''"]) (auto simp: iteration_string_def itoa_no_sep)
  then show "i = j" by (auto dest: itoa_inject intro: loop_iteration.equality)
qed

lemma key_parts:
  "slash_free k \<Longrightarrow> split_char (CHR ''/'') (instance_key_string k)
     = map iteration_string (ik_iterations k) @ [ik_node k]"
  by (auto simp: instance_key_string_def slash_free_def iteration_string_def itoa_no_sep
      split_char_no_sep intro!: split_join)

lemma instance_key_string_inject:
  assumes "slash_free k" "slash_free k'" "instance_key_string k = instance_key_string k'"
  shows "k = k'"
proof -
  have "map iteration_string (ik_iterations k) @ [ik_node k]
      = map iteration_string (ik_iterations k') @ [ik_node k']"
    using key_parts [OF assms(1)] key_parts [OF assms(2)] assms(3) by simp
  then have "ik_node k = ik_node k'"
    and "map iteration_string (ik_iterations k) = map iteration_string (ik_iterations k')"
    by auto
  then have "ik_iterations k = ik_iterations k'"
    by (metis (no_types) inj_on_def inj_map_eq_map iteration_string_inject)
  with \<open>ik_node k = ik_node k'\<close> show "k = k'" by simp
qed

lemma instance_key_string_main [simp]: "instance_key_string (scope_key [] n) = n"
  by (simp add: instance_key_string_def scope_key_def)

end
