(* ===== verification/GraphSnapshot.thy ===== *)
theory GraphSnapshot
  imports GraphModel "HOL-Library.Multiset"
begin

section \<open>Visible-variable snapshots at joins\<close>

text \<open>
  \<open>services/graph/snapshot.go\<close> and the snapshot helpers of \<open>scheduler.go\<close>: the merge of the
  activated upstreams' snapshots, the session an inheriting agent continues, the overlay of the
  run's current initial variables and the reconstruction of variable writers. The lemmas give the
  merged value of every variable and show that neither result depends on the order in which the
  upstreams arrived.
\<close>

record upstream =
  us_node :: string
  us_variables :: vars
  us_writers :: vars
  us_last_msg :: string
  us_session :: string

definition last_assistant_key :: string where
  "last_assistant_key = ''_last_assistant_msg''"

subsection \<open>MergeVisibleSnapshotsWithWriters\<close>

text \<open>One variable of one upstream: the value overwrites, and the writer is recorded or cleared.\<close>

definition merge_entry :: "vars \<Rightarrow> string \<times> string \<Rightarrow> vars \<times> vars \<Rightarrow> vars \<times> vars" where
  "merge_entry writers kv acc =
     (case kv of (k, v) \<Rightarrow> case acc of (merged, ws) \<Rightarrow>
        if k = last_assistant_key then (merged, ws)
        else (aput k v merged,
              (case aget writers k of
                 Some w \<Rightarrow> if w \<noteq> [] then aput k w ws else adel k ws
               | None \<Rightarrow> adel k ws)))"

definition merge_upstream :: "upstream \<Rightarrow> vars \<times> vars \<Rightarrow> vars \<times> vars" where
  "merge_upstream up acc = fold (merge_entry (us_writers up)) (us_variables up) acc"

text \<open>
  \<open>sort.Slice\<close> by node ID is \<open>sort_key\<close>; the order of equal keys does not matter, because two
  contributions from one node to one instance are the same snapshot.
\<close>

definition merge_visible_snapshots :: "upstream list \<Rightarrow> vars \<times> vars" where
  "merge_visible_snapshots ups =
     (if ups = [] then ([], [])
      else let srt = sort_key us_node ups;
               (merged, ws) = fold merge_upstream srt ([], []);
               top = last srt
           in (aput last_assistant_key (us_last_msg top) merged,
               aput last_assistant_key (us_node top) ws))"

subsection \<open>pickInflowSession\<close>

definition pick_step :: "upstream \<Rightarrow> string \<times> string \<Rightarrow> string \<times> string" where
  "pick_step up acc =
     (case acc of (chosen, node) \<Rightarrow>
        if us_session up = [] then (chosen, node)
        else if chosen = [] \<or> node < us_node up then (us_session up, us_node up)
        else (chosen, node))"

definition pick_inflow_session :: "upstream list \<Rightarrow> string" where
  "pick_inflow_session ups = fst (fold pick_step ups ([], []))"

subsection \<open>Overlay of the current initial variables\<close>

text \<open>
  Variables that no node wrote are dropped (the last assistant message excepted) and the current
  configuration's values take their place, so that an edited initial value reaches instances
  decided later.
\<close>

definition no_writer :: "vars \<Rightarrow> string \<Rightarrow> bool" where
  "no_writer ws k \<longleftrightarrow> (case aget ws k of Some w \<Rightarrow> w = [] | None \<Rightarrow> True)"

definition overlay_current_initial_variables :: "vars \<Rightarrow> vars \<Rightarrow> vars \<Rightarrow> vars" where
  "overlay_current_initial_variables initial visible ws =
     fold (\<lambda>(k, v) m. if no_writer ws k then aput k v m else m) initial
       (filter (\<lambda>(k, v). k = last_assistant_key \<or> \<not> no_writer ws k) visible)"

definition initial_variable_writers :: "vars \<Rightarrow> vars" where
  "initial_variable_writers variables = map (\<lambda>(k, v). (k, [])) variables"

definition infer_writers_from_state :: "instance_state \<Rightarrow> vars \<Rightarrow> vars" where
  "infer_writers_from_state st fallback =
     (if is_writers st \<noteq> [] then is_writers st
      else fold (\<lambda>(k, v) ws. aput k (is_node_id st) ws) (is_outputs st) fallback)"

definition first_non_empty :: "string list \<Rightarrow> string" where
  "first_non_empty vs = (case find (\<lambda>v. trim_space v \<noteq> []) vs of Some v \<Rightarrow> v | None \<Rightarrow> [])"

subsection \<open>What the merge contains\<close>

definition var_map :: "vars \<Rightarrow> bool" where
  "var_map m \<longleftrightarrow> distinct (akeys m)"

lemma var_map_Cons: "var_map ((k, v) # m) \<longleftrightarrow> aget m k = None \<and> var_map m"
  by (simp add: var_map_def akeys_def map_of_eq_None_iff)

definition writer_of :: "vars \<Rightarrow> string \<Rightarrow> string option" where
  "writer_of ws k = (case aget ws k of Some w \<Rightarrow> if w \<noteq> [] then Some w else None | None \<Rightarrow> None)"

lemma merge_entry_eq:
  "merge_entry writers (k, v) (m, ws) =
     (if k = last_assistant_key then (m, ws)
      else (aput k v m, case writer_of writers k of Some w \<Rightarrow> aput k w ws | None \<Rightarrow> adel k ws))"
  by (auto simp: merge_entry_def writer_of_def split: option.splits)

lemma merge_upstream_lookup:
  assumes "var_map (us_variables up)"
  shows "aget (fst (merge_upstream up (m, ws))) k =
      (if k = last_assistant_key then aget m k
       else case aget (us_variables up) k of Some v \<Rightarrow> Some v | None \<Rightarrow> aget m k)
    \<and> aget (snd (merge_upstream up (m, ws))) k =
      (if k = last_assistant_key then aget ws k
       else case aget (us_variables up) k of Some v \<Rightarrow> writer_of (us_writers up) k | None \<Rightarrow> aget ws k)"
proof -
  have "var_map xs \<Longrightarrow>
      aget (fst (fold (merge_entry w) xs (m, ws))) k =
        (if k = last_assistant_key then aget m k
         else case aget xs k of Some v \<Rightarrow> Some v | None \<Rightarrow> aget m k)
      \<and> aget (snd (fold (merge_entry w) xs (m, ws))) k =
        (if k = last_assistant_key then aget ws k
         else case aget xs k of Some v \<Rightarrow> writer_of w k | None \<Rightarrow> aget ws k)" for xs w
  proof (induction xs arbitrary: m ws)
    case (Cons e xs)
    obtain k' v' where e: "e = (k', v')" by fastforce
    with Cons.prems have fresh: "aget xs k' = None" and ok: "var_map xs"
      by (simp_all add: var_map_Cons)
    obtain m1 ws1 where step: "merge_entry w e (m, ws) = (m1, ws1)" by fastforce
    show ?case
      using step Cons.IH [OF ok, of m1 ws1] fresh
      by (cases "k = last_assistant_key"; cases "k' = last_assistant_key")
        (auto simp: e merge_entry_eq split: option.splits)
  qed simp
  with assms show ?thesis by (simp add: merge_upstream_def)
qed

text \<open>The last upstream, in the order given, whose snapshot holds a variable.\<close>

definition provider :: "upstream list \<Rightarrow> string \<Rightarrow> upstream option" where
  "provider ups k = find (\<lambda>u. aget (us_variables u) k \<noteq> None) (rev ups)"

lemma fold_merge_lookup:
  assumes "\<forall>u \<in> set ups. var_map (us_variables u)" "k \<noteq> last_assistant_key"
  shows "aget (fst (fold merge_upstream ups ([], []))) k =
      (case provider ups k of Some u \<Rightarrow> aget (us_variables u) k | None \<Rightarrow> None)
    \<and> aget (snd (fold merge_upstream ups ([], []))) k =
      (case provider ups k of Some u \<Rightarrow> writer_of (us_writers u) k | None \<Rightarrow> None)"
  using assms
proof (induction ups rule: rev_induct)
  case Nil
  then show ?case by (simp add: provider_def)
next
  case (snoc u ups)
  obtain m ws where acc: "fold merge_upstream ups ([], []) = (m, ws)" by fastforce
  show ?case
    using snoc merge_upstream_lookup [of u m ws k]
    by (auto simp: acc provider_def split: option.splits)
qed

lemma merge_lookup:
  assumes "\<forall>u \<in> set ups. var_map (us_variables u)" "k \<noteq> last_assistant_key"
  shows "aget (fst (merge_visible_snapshots ups)) k =
      (case provider (sort_key us_node ups) k of Some u \<Rightarrow> aget (us_variables u) k | None \<Rightarrow> None)"
    and "aget (snd (merge_visible_snapshots ups)) k =
      (case provider (sort_key us_node ups) k of Some u \<Rightarrow> writer_of (us_writers u) k | None \<Rightarrow> None)"
  using fold_merge_lookup [of "sort_key us_node ups" k] assms
  by (auto simp: merge_visible_snapshots_def Let_def provider_def split: prod.splits)

lemma find_last_sorted:
  assumes "sorted (map f xs)" "distinct (map f xs)" "u \<in> set xs" "P u"
    and "\<forall>w \<in> set xs. f u < f w \<longrightarrow> \<not> P w"
  shows "find P (rev xs) = Some u"
  using assms
proof (induction xs rule: rev_induct)
  case (snoc x xs)
  show ?case
  proof (cases "u = x")
    case True
    with snoc.prems show ?thesis by simp
  next
    case False
    then have u: "u \<in> set xs" using snoc.prems by simp
    then have "f u \<noteq> f x" using snoc.prems by (auto simp: image_iff)
    moreover have "f u \<le> f x" using u snoc.prems by (simp add: sorted_append)
    ultimately have "f u < f x" by simp
    with snoc u show ?thesis by (simp add: sorted_append)
  qed
qed simp

lemma provider_greatest:
  assumes "distinct (map us_node ups)" "u \<in> set ups" "aget (us_variables u) k \<noteq> None"
    and "\<forall>w \<in> set ups. us_node u < us_node w \<longrightarrow> aget (us_variables w) k = None"
  shows "provider (sort_key us_node ups) k = Some u"
proof -
  have "distinct (map us_node (sort_key us_node ups))"
    using assms(1) by (metis mset_map mset_sort mset_eq_imp_distinct_iff)
  with assms show ?thesis
    unfolding provider_def by (intro find_last_sorted [where f = us_node]) auto
qed

lemma merge_last_message:
  "ups \<noteq> [] \<Longrightarrow> aget (fst (merge_visible_snapshots ups)) last_assistant_key
     = Some (us_last_msg (last (sort_key us_node ups)))"
  by (auto simp: merge_visible_snapshots_def Let_def split: prod.splits)

subsection \<open>Independence of the order of arrival\<close>

lemma sort_key_arrival:
  assumes "mset xs = mset ys" "distinct (map us_node xs)"
  shows "sort_key us_node xs = sort_key us_node ys"
proof -
  have inj: "inj_on us_node (set xs)" using assms(2) by (simp add: distinct_map)
  have "set xs = set ys" using assms(1) by (metis set_mset_mset)
  then show ?thesis
    using inj assms(1) by (intro sort_key_inj_key_eq) auto
qed

lemma merge_arrival_order:
  "mset xs = mset ys \<Longrightarrow> distinct (map us_node xs) \<Longrightarrow>
   merge_visible_snapshots xs = merge_visible_snapshots ys"
  using sort_key_arrival [of xs ys] by (auto simp: merge_visible_snapshots_def)

text \<open>The chosen session belongs to the upstream with the greatest node ID that has one.\<close>

definition session_winner :: "upstream list \<Rightarrow> string \<times> string \<Rightarrow> bool" where
  "session_winner ups acc \<longleftrightarrow>
     (if \<forall>u \<in> set ups. us_session u = [] then fst acc = []
      else \<exists>u \<in> set ups. us_session u = fst acc \<and> fst acc \<noteq> [] \<and> us_node u = snd acc
             \<and> (\<forall>v \<in> set ups. us_session v \<noteq> [] \<longrightarrow> us_node v \<le> snd acc))"

lemma pick_step_winner:
  assumes "session_winner ups acc"
  shows "session_winner (ups @ [u]) (pick_step u acc)"
proof -
  obtain s n where acc: "acc = (s, n)" by fastforce
  consider (skip) "us_session u = []" | (first) "us_session u \<noteq> []" "s = []"
    | (take) "us_session u \<noteq> []" "s \<noteq> []" "n < us_node u"
    | (keep) "us_session u \<noteq> []" "s \<noteq> []" "us_node u \<le> n" by force
  then show ?thesis
  proof cases
    case skip
    then have "pick_step u acc = acc" by (simp add: pick_step_def acc)
    then show ?thesis using assms skip by (auto simp: session_winner_def)
  next
    case first
    then have "\<forall>u \<in> set ups. us_session u = []"
      using assms by (auto simp: session_winner_def acc split: if_splits)
    then show ?thesis using first by (auto simp: session_winner_def acc pick_step_def)
  next
    case take
    then show ?thesis using assms
      by (auto simp: session_winner_def acc pick_step_def split: if_splits)
  next
    case keep
    then have "pick_step u acc = acc" by (auto simp: pick_step_def acc)
    then show ?thesis using assms keep by (auto simp: session_winner_def acc split: if_splits)
  qed
qed

lemma fold_pick_winner: "session_winner ups (fold pick_step ups ([], []))"
proof (induction ups rule: rev_induct)
  case Nil
  show ?case by (simp add: session_winner_def)
next
  case (snoc u ups)
  from pick_step_winner [OF this] show ?case by simp
qed

lemma pick_session_max:
  assumes "u \<in> set ups" "us_session u \<noteq> []" "\<forall>v \<in> set ups. us_session v \<noteq> [] \<longrightarrow> us_node v \<le> us_node u"
    and "distinct (map us_node ups)"
  shows "pick_inflow_session ups = us_session u"
proof -
  obtain s n where acc: "fold pick_step ups ([], []) = (s, n)" by fastforce
  from fold_pick_winner [of ups] assms(1,2) obtain w where
    w: "w \<in> set ups" "us_session w = s" "s \<noteq> []" "us_node w = n"
    "\<forall>v \<in> set ups. us_session v \<noteq> [] \<longrightarrow> us_node v \<le> n"
    by (auto simp: acc session_winner_def split: if_splits)
  then have "us_node w = us_node u" using assms(1,2,3) by (metis order_antisym)
  then have "w = u" using assms(1,4) w(1) by (auto simp: distinct_map inj_on_def)
  with w(2) show ?thesis by (simp add: pick_inflow_session_def acc)
qed

lemma pick_arrival_order:
  assumes "mset xs = mset ys" "distinct (map us_node xs)"
  shows "pick_inflow_session xs = pick_inflow_session ys"
proof -
  have same: "set xs = set ys" using assms(1) by (metis set_mset_mset)
  have ys: "distinct (map us_node ys)"
    using assms by (metis mset_map mset_eq_imp_distinct_iff)
  show ?thesis
  proof (cases "\<forall>u \<in> set xs. us_session u = []")
    case True
    then show ?thesis
      using fold_pick_winner [of xs] fold_pick_winner [of ys] same
      by (auto simp: session_winner_def pick_inflow_session_def split: prod.splits)
  next
    case False
    then obtain u where u: "u \<in> set xs" "us_session u \<noteq> []"
      "\<forall>v \<in> set xs. us_session v \<noteq> [] \<longrightarrow> us_node v \<le> us_node u"
      using fold_pick_winner [of xs]
      by (auto simp: session_winner_def split: prod.splits if_splits)
    then show ?thesis
      using pick_session_max [OF u assms(2)] pick_session_max [of u ys] same ys by auto
  qed
qed

subsection \<open>The overlay\<close>

lemma overlay_lookup:
  assumes "var_map initial" "var_map visible"
  shows "aget (overlay_current_initial_variables initial visible ws) k =
    (if no_writer ws k then
       (case aget initial k of Some v \<Rightarrow> Some v
        | None \<Rightarrow> if k = last_assistant_key then aget visible k else None)
     else aget visible k)"
proof -
  have base: "aget (filter (\<lambda>(k, v). k = last_assistant_key \<or> \<not> no_writer ws k) visible) k =
      (if k = last_assistant_key \<or> \<not> no_writer ws k then aget visible k else None)"
    by (induction visible) auto
  have "var_map xs \<Longrightarrow> aget (fold (\<lambda>(k, v) m. if no_writer ws k then aput k v m else m) xs m) k =
      (if no_writer ws k then (case aget xs k of Some v \<Rightarrow> Some v | None \<Rightarrow> aget m k) else aget m k)"
    for xs m
    by (induction xs arbitrary: m) (auto simp: var_map_Cons split: option.splits)
  then show ?thesis
    using assms(1) base by (auto simp: overlay_current_initial_variables_def split: option.splits)
qed

subsection \<open>Properties\<close>

definition up_of :: "string \<Rightarrow> vars \<Rightarrow> string \<Rightarrow> string \<Rightarrow> upstream" where
  "up_of n vs msg sess = \<lparr> us_node = n, us_variables = vs,
     us_writers = map (\<lambda>(k, v). (k, n)) vs, us_last_msg = msg, us_session = sess \<rparr>"

text \<open>C33: at a join, every variable has the value, and the writer, of the activated upstream with
  the greatest node ID whose snapshot holds it, and the last assistant message is that of the
  greatest node ID.\<close>
theorem merge_greatest_node_wins:
  assumes "\<forall>u \<in> set ups. var_map (us_variables u)" "distinct (map us_node ups)"
    and "u \<in> set ups" "aget (us_variables u) k = Some v" "k \<noteq> last_assistant_key"
    and "\<forall>w \<in> set ups. us_node u < us_node w \<longrightarrow> aget (us_variables w) k = None"
  shows "aget (fst (merge_visible_snapshots ups)) k = Some v
    \<and> aget (snd (merge_visible_snapshots ups)) k = writer_of (us_writers u) k
    \<and> aget (fst (merge_visible_snapshots ups)) last_assistant_key
        = Some (us_last_msg (last (sort_key us_node ups)))"
proof -
  have "provider (sort_key us_node ups) k = Some u"
    using provider_greatest [OF assms(2,3) _ assms(6)] assms(4) by simp
  moreover have "ups \<noteq> []" using assms(3) by auto
  ultimately show ?thesis
    using assms(3,4) merge_lookup [OF assms(1,5)] merge_last_message [of ups] by auto
qed

theorem merge_greatest_node_wins_witness:
  "aget (fst (merge_visible_snapshots
      [up_of ''b'' [(''x'', ''2'')] ''mb'' [], up_of ''a'' [(''x'', ''1'')] ''ma'' []])) ''x'' = Some ''2''"
proof -
  let ?a = "up_of ''a'' [(''x'', ''1'')] ''ma'' []" and ?b = "up_of ''b'' [(''x'', ''2'')] ''mb'' []"
  show ?thesis
    using merge_greatest_node_wins [of "[?b, ?a]" ?b "''x''" "''2''"]
    by (simp add: up_of_def var_map_def akeys_def last_assistant_key_def)
qed

text \<open>C29: neither the merged variables and writers nor the session an inheriting agent continues
  depend on the order in which the upstreams resolved their edges.\<close>
theorem join_arrival_order_irrelevant:
  assumes "mset xs = mset ys" "distinct (map us_node xs)"
  shows "merge_visible_snapshots xs = merge_visible_snapshots ys
    \<and> pick_inflow_session xs = pick_inflow_session ys"
  using merge_arrival_order [OF assms] pick_arrival_order [OF assms] by blast

theorem join_arrival_order_irrelevant_witness:
  "pick_inflow_session [up_of ''b'' [] [] ''s2'', up_of ''a'' [] [] ''s1'']
     = pick_inflow_session [up_of ''a'' [] [] ''s1'', up_of ''b'' [] [] ''s2'']"
  using join_arrival_order_irrelevant
    [of "[up_of ''b'' [] [] ''s2'', up_of ''a'' [] [] ''s1'']" "[up_of ''a'' [] [] ''s1'', up_of ''b'' [] [] ''s2'']"]
  by (simp add: up_of_def)

text \<open>the overlay of an edited configuration's initial variables: a variable some node wrote
  keeps the value seen upstream, an unwritten one has the current initial value and disappears when
  the configuration no longer declares it, the last assistant message excepted.\<close>
theorem overlay_keeps_written_values:
  assumes "var_map initial" "var_map visible"
  shows "aget (overlay_current_initial_variables initial visible ws) k =
    (if no_writer ws k then
       (case aget initial k of Some v \<Rightarrow> Some v
        | None \<Rightarrow> if k = last_assistant_key then aget visible k else None)
     else aget visible k)"
  using overlay_lookup [OF assms] .

theorem overlay_keeps_written_values_witness:
  "aget (overlay_current_initial_variables [(''x'', ''new''), (''y'', ''init'')]
      [(''x'', ''old''), (''y'', ''written'')] [(''y'', ''n1'')]) ''y'' = Some ''written''"
  using overlay_keeps_written_values [of "[(''x'', ''new''), (''y'', ''init'')]"
      "[(''x'', ''old''), (''y'', ''written'')]" "[(''y'', ''n1'')]" "''y''"]
  by (simp add: var_map_def akeys_def no_writer_def)

end
