(* ===== verification/GraphCondition.thy ===== *)
theory GraphCondition
  imports GraphModel
begin

section \<open>Condition expressions\<close>

text \<open>
  \<open>services/graph/condition.go\<close> and \<open>condition_eval.go\<close>: variable names, the tokenizer over
  runes, the recursive-descent parser with its error positions, and the evaluator. The tokenizer
  terminates by itself; the parser runs on fuel and \<open>parse_condition\<close> supplies enough. The lemmas
  show that the parser accepts exactly the documented grammar, with its precedence and
  associativity, and that evaluating a parsed expression cannot fail.
\<close>

subsection \<open>Variable names\<close>

definition is_ascii_letter :: "rune \<Rightarrow> bool" where
  "is_ascii_letter r \<longleftrightarrow> (0x61 \<le> r \<and> r \<le> 0x7A) \<or> (0x41 \<le> r \<and> r \<le> 0x5A)"

definition is_ascii_digit :: "rune \<Rightarrow> bool" where
  "is_ascii_digit r \<longleftrightarrow> 0x30 \<le> r \<and> r \<le> 0x39"

fun valid_name_runes :: "rune list \<Rightarrow> bool" where
  "valid_name_runes [] = False"
| "valid_name_runes (r # rs) =
     ((is_ascii_letter r \<or> r = 0x5F) \<and>
      list_all (\<lambda>q. is_ascii_letter q \<or> q = 0x5F \<or> is_ascii_digit q) rs)"

definition is_valid_var_name :: "string \<Rightarrow> bool" where
  "is_valid_var_name name = valid_name_runes (runes_of name)"

definition is_reserved_var :: "string \<Rightarrow> bool" where
  "is_reserved_var name \<longleftrightarrow>
     name \<noteq> [] \<and> (hd name = CHR ''_'' \<or> prefix ''QUARTET_'' name)"

subsection \<open>Syntax trees, tokens and errors\<close>

record cond_operand =
  co_is_var :: bool
  co_var :: string
  co_lit :: string

record cond_compare =
  cc_left :: cond_operand
  cc_op :: string
  cc_right :: cond_operand
  cc_ignore_case :: bool
  cc_ignore_space :: bool

datatype cond_expr =
    CondBinary string cond_expr cond_expr
  | CondNot cond_expr
  | CondCompare cond_compare

datatype token_kind = TkEOF | TkVar | TkStr | TkOp | TkAnd | TkOr | TkNot | TkLParen | TkRParen
  | TkOptIgnoreCase | TkOptIgnoreSpace

record token =
  tk_kind :: token_kind
  tk_val :: string
  tk_pos :: nat

datatype cond_error =
    UnexpectedOpenBrace nat
  | InvalidVarName string nat
  | UnexpectedCloseBrace nat
  | UnterminatedVar nat
  | StringSpansLines nat
  | DanglingEscape nat
  | IllegalEscape rune nat
  | UnterminatedString nat
  | InvalidOperator nat
  | UnknownIdentifier string nat
  | UnknownToken rune nat
  | UnexpectedToken string nat
  | MissingClose nat
  | ExpectedOperator nat
  | ExpectedOperand nat string

text \<open>The keywords, as code points: and, or, not, is-even, ignore-case, ignore-space.\<close>

definition kw_and :: "rune list" where "kw_and = [0x4E14]"
definition kw_or :: "rune list" where "kw_or = [0x6216]"
definition kw_not :: "rune list" where "kw_not = [0x975E]"
definition kw_is_even :: "rune list" where "kw_is_even = [0x662F, 0x5076, 0x6570]"
definition kw_ignore_case :: "rune list" where
  "kw_ignore_case = [0x5FFD, 0x7565, 0x5927, 0x5C0F, 0x5199]"
definition kw_ignore_space :: "rune list" where
  "kw_ignore_space = [0x5FFD, 0x7565, 0x7A7A, 0x683C]"

lemmas keyword_defs = kw_and_def kw_or_def kw_not_def kw_is_even_def kw_ignore_case_def kw_ignore_space_def

definition op_is_even :: string where "op_is_even = string_of_runes kw_is_even"
definition bin_and :: string where "bin_and = string_of_runes kw_and"
definition bin_or :: string where "bin_or = string_of_runes kw_or"

definition is_unary_op :: "string \<Rightarrow> bool" where
  "is_unary_op op \<longleftrightarrow> op \<in> set [op_is_even]"

definition mk_token :: "token_kind \<Rightarrow> string \<Rightarrow> nat \<Rightarrow> token" where
  "mk_token k v p = \<lparr> tk_kind = k, tk_val = v, tk_pos = p \<rparr>"

lemma mk_token_simps [simp]:
  "tk_kind (mk_token k v p) = k" "tk_val (mk_token k v p) = v" "tk_pos (mk_token k v p) = p"
  by (simp_all add: mk_token_def)

subsection \<open>The tokenizer\<close>

text \<open>
  The source scans \<open>[]rune(expr)\<close> by index; here the rest of the runes and the index of its head
  are passed on. A prefix test on \<open>string(rs[i:])\<close> is a prefix test on the runes, since the
  encodings of valid runes form a prefix code.
\<close>

fun scan_variable :: "rune list \<Rightarrow> nat \<Rightarrow> nat \<Rightarrow> rune list \<Rightarrow> cond_error + token \<times> rune list \<times> nat" where
  "scan_variable [] i start name = Inl (UnterminatedVar start)"
| "scan_variable (r # rs) i start name =
     (if r = 0x7D then
        (case rs of
           [] \<Rightarrow> Inl (UnexpectedCloseBrace i)
         | r' # rs' \<Rightarrow>
             if r' = 0x7D then
               (let var_name = string_of_runes name in
                if \<not> is_valid_var_name var_name then Inl (InvalidVarName var_name start)
                else Inr (mk_token TkVar var_name start, rs', i + 2))
             else Inl (UnexpectedCloseBrace i))
      else scan_variable rs (i + 1) start (name @ [r]))"

fun scan_string :: "rune list \<Rightarrow> nat \<Rightarrow> nat \<Rightarrow> string \<Rightarrow> cond_error + token \<times> rune list \<times> nat" where
  "scan_string [] i start sb = Inl (UnterminatedString start)"
| "scan_string (c # rs) i start sb =
     (if c = 0x22 then Inr (mk_token TkStr sb start, rs, i + 1)
      else if c = 0x0A \<or> c = 0x0D then Inl (StringSpansLines start)
      else if c = 0x5C then
        (case rs of
           [] \<Rightarrow> Inl (DanglingEscape i)
         | esc # rs' \<Rightarrow>
             if esc = 0x22 \<or> esc = 0x5C then scan_string rs' (i + 2) start (sb @ utf8_encode esc)
             else Inl (IllegalEscape esc i))
      else scan_string rs (i + 1) start (sb @ utf8_encode c))"

definition compare_operators :: "string list" where
  "compare_operators = [''=='', ''!='', ''>='', ''<='', ''>'', ''<'']"

definition ascii_runes :: "string \<Rightarrow> rune list" where
  "ascii_runes s = map of_char s"

definition is_compare_op_start :: "rune \<Rightarrow> bool" where
  "is_compare_op_start r \<longleftrightarrow> r = 0x3D \<or> r = 0x21 \<or> r = 0x3E \<or> r = 0x3C"

definition scan_compare_op :: "rune list \<Rightarrow> nat \<Rightarrow> cond_error + token \<times> rune list \<times> nat" where
  "scan_compare_op rs start =
     (case find (\<lambda>op. prefix (ascii_runes op) rs) compare_operators of
        Some op \<Rightarrow> Inr (mk_token TkOp op start, drop (length op) rs, start + length op)
      | None \<Rightarrow> Inl (InvalidOperator start))"

definition scan_word_operator :: "rune list \<Rightarrow> nat \<Rightarrow> cond_error + token \<times> rune list \<times> nat" where
  "scan_word_operator rs start =
     (let letters = takeWhile is_ascii_letter rs; word = string_of_runes letters in
      if word = ''StartWith'' \<or> word = ''EndWith''
      then Inr (mk_token TkOp word start, dropWhile is_ascii_letter rs, start + length letters)
      else Inl (UnknownIdentifier word start))"

definition keyword_token :: "token_kind \<Rightarrow> rune list \<Rightarrow> rune list \<Rightarrow> nat \<Rightarrow> cond_error + token \<times> rune list \<times> nat" where
  "keyword_token k kw rs i = Inr (mk_token k (string_of_runes kw) i, drop (length kw) rs, i + length kw)"

fun scan_token :: "rune list \<Rightarrow> nat \<Rightarrow> cond_error + token \<times> rune list \<times> nat" where
  "scan_token [] i = Inr (mk_token TkEOF [] i, [], i)"
| "scan_token (r # rs) i =
     (if r = 0x28 then Inr (mk_token TkLParen ''('' i, rs, i + 1)
      else if r = 0x29 then Inr (mk_token TkRParen '')'' i, rs, i + 1)
      else if r = 0x7B then
        (case rs of
           [] \<Rightarrow> Inl (UnexpectedOpenBrace i)
         | r' # rs' \<Rightarrow> if r' \<noteq> 0x7B then Inl (UnexpectedOpenBrace i)
                       else scan_variable rs' (i + 2) i [])
      else if r = 0x22 then scan_string rs (i + 1) i []
      else if is_compare_op_start r then scan_compare_op (r # rs) i
      else if prefix kw_is_even (r # rs) then keyword_token TkOp kw_is_even (r # rs) i
      else if prefix kw_and (r # rs) then keyword_token TkAnd kw_and (r # rs) i
      else if prefix kw_or (r # rs) then keyword_token TkOr kw_or (r # rs) i
      else if prefix kw_not (r # rs) then keyword_token TkNot kw_not (r # rs) i
      else if prefix kw_ignore_case (r # rs) then keyword_token TkOptIgnoreCase kw_ignore_case (r # rs) i
      else if prefix kw_ignore_space (r # rs) then keyword_token TkOptIgnoreSpace kw_ignore_space (r # rs) i
      else if is_ascii_letter r then scan_word_operator (r # rs) i
      else Inl (UnknownToken r i))"

lemma scan_variable_rest:
  "scan_variable rs i start name = Inr (t, rest, j) \<Longrightarrow> length rest \<le> length rs \<and> tk_kind t = TkVar"
  by (induction rs i start name rule: scan_variable.induct)
    (auto simp: Let_def split: if_splits list.splits)

lemma scan_string_rest:
  "scan_string rs i start sb = Inr (t, rest, j) \<Longrightarrow> length rest \<le> length rs \<and> tk_kind t = TkStr"
proof (induction rs i start sb rule: scan_string.induct)
  case (2 c rs i start sb)
  consider "c = 0x22" | "c = 0x0A \<or> c = 0x0D" | "c = 0x5C" | "c \<notin> {0x22, 0x0A, 0x0D, 0x5C}" by auto
  then show ?case
  proof cases
    case 3
    with "2.prems" obtain esc rs' where rs: "rs = esc # rs'" by (cases rs) auto
    with "2.prems" 3 have "esc = 0x22 \<or> esc = 0x5C" by (auto split: if_splits)
    with "2.IH"(1) [OF _ _ 3 rs this] "2.prems" 3 rs show ?thesis by simp
  next
    case 4
    with "2.IH"(2) "2.prems" show ?thesis by simp
  qed (use "2.prems" in auto)
qed simp

lemma compare_op_known:
  "find (\<lambda>op. P op) compare_operators = Some op \<Longrightarrow> op \<in> set compare_operators \<and> op \<noteq> []"
  by (auto simp: compare_operators_def split: if_splits)

lemma scan_compare_op_rest:
  "scan_compare_op (r # rs) i = Inr (t, rest, j) \<Longrightarrow> length rest \<le> length rs"
  by (auto simp: scan_compare_op_def split: option.splits dest!: compare_op_known)
    (metis Suc_eq_plus1 diff_le_mono2 diff_Suc_1 One_nat_def Suc_leI length_greater_0_conv)

lemma scan_token_rest:
  assumes "scan_token (r # rs) i = Inr (t, rest, j)"
  shows "length rest \<le> length rs"
proof -
  have word: "length (dropWhile is_ascii_letter (r # rs)) \<le> length rs" if "is_ascii_letter r"
    using that length_dropWhile_le [of is_ascii_letter rs] by simp
  show ?thesis
    using assms word
    by (auto simp: keyword_token_def keyword_defs scan_word_operator_def Let_def
        split: if_splits list.splits dest!: scan_compare_op_rest scan_variable_rest scan_string_rest)
qed

function tokenize_condition :: "rune list \<Rightarrow> nat \<Rightarrow> cond_error + token list" where
  "tokenize_condition [] i = Inr [mk_token TkEOF [] i]"
| "tokenize_condition (r # rs) i =
     (if is_space r then tokenize_condition rs (i + 1)
      else case scan_token (r # rs) i of
             Inl e \<Rightarrow> Inl e
           | Inr (t, rest, next) \<Rightarrow>
               (case tokenize_condition rest next of Inl e \<Rightarrow> Inl e | Inr ts \<Rightarrow> Inr (t # ts)))"
  by pat_completeness auto
termination
  by (relation "measure (\<lambda>(rs, i). length rs)") (auto dest: scan_token_rest simp: le_imp_less_Suc simp del: scan_token.simps)

subsection \<open>The parser\<close>

text \<open>
  The parser's state is the list of tokens from the current index on. \<open>next\<close> stays at the last
  token. A result is \<open>None\<close> when the fuel runs out.
\<close>

type_synonym 'a parsed = "(cond_error + 'a \<times> token list) option"

definition tok_peek :: "token list \<Rightarrow> token" where
  "tok_peek ts = hd ts"

definition tok_next :: "token list \<Rightarrow> token list" where
  "tok_next ts = (if length ts \<le> 1 then ts else tl ts)"

fun and_then :: "'a parsed \<Rightarrow> ('a \<Rightarrow> token list \<Rightarrow> 'b parsed) \<Rightarrow> 'b parsed" where
  "and_then None f = None"
| "and_then (Some (Inl e)) f = Some (Inl e)"
| "and_then (Some (Inr (a, ts))) f = f a ts"

definition parse_operand :: "token list \<Rightarrow> cond_error + cond_operand \<times> token list" where
  "parse_operand ts =
     (let t = tok_peek ts in
      case tk_kind t of
        TkVar \<Rightarrow> Inr (\<lparr> co_is_var = True, co_var = tk_val t, co_lit = [] \<rparr>, tok_next ts)
      | TkStr \<Rightarrow> Inr (\<lparr> co_is_var = False, co_var = [], co_lit = tk_val t \<rparr>, tok_next ts)
      | _ \<Rightarrow> Inl (ExpectedOperand (tk_pos t) (tk_val t)))"

definition no_operand :: cond_operand where
  "no_operand = \<lparr> co_is_var = False, co_var = [], co_lit = [] \<rparr>"

function parse_options :: "cond_compare \<Rightarrow> token list \<Rightarrow> cond_compare \<times> token list" where
  "parse_options cmp ts =
     (if length ts \<le> 1 then (cmp, ts)
      else case tk_kind (tok_peek ts) of
             TkOptIgnoreCase \<Rightarrow> parse_options (cmp\<lparr>cc_ignore_case := True\<rparr>) (tok_next ts)
           | TkOptIgnoreSpace \<Rightarrow> parse_options (cmp\<lparr>cc_ignore_space := True\<rparr>) (tok_next ts)
           | _ \<Rightarrow> (cmp, ts))"
  by pat_completeness auto
termination
  by (relation "measure (\<lambda>(cmp, ts). length ts)") (auto simp: tok_next_def)

declare parse_options.simps [simp del]

definition parse_comparison :: "token list \<Rightarrow> cond_error + cond_expr \<times> token list" where
  "parse_comparison ts =
     (case parse_operand ts of
        Inl e \<Rightarrow> Inl e
      | Inr (left, ts) \<Rightarrow>
          let op_tok = tok_peek ts in
          if tk_kind op_tok \<noteq> TkOp then Inl (ExpectedOperator (tk_pos op_tok))
          else
            let ts = tok_next ts;
                cmp = \<lparr> cc_left = left, cc_op = tk_val op_tok, cc_right = no_operand,
                        cc_ignore_case = False, cc_ignore_space = False \<rparr>
            in if is_unary_op (tk_val op_tok)
               then let (cmp, ts) = parse_options cmp ts in Inr (CondCompare cmp, ts)
               else case parse_operand ts of
                      Inl e \<Rightarrow> Inl e
                    | Inr (right, ts) \<Rightarrow>
                        let (cmp, ts) = parse_options (cmp\<lparr>cc_right := right\<rparr>) ts
                        in Inr (CondCompare cmp, ts))"

fun parse_or :: "nat \<Rightarrow> token list \<Rightarrow> cond_expr parsed"
and parse_or_loop :: "nat \<Rightarrow> cond_expr \<Rightarrow> token list \<Rightarrow> cond_expr parsed"
and parse_and :: "nat \<Rightarrow> token list \<Rightarrow> cond_expr parsed"
and parse_and_loop :: "nat \<Rightarrow> cond_expr \<Rightarrow> token list \<Rightarrow> cond_expr parsed"
and parse_not :: "nat \<Rightarrow> token list \<Rightarrow> cond_expr parsed"
and parse_primary :: "nat \<Rightarrow> token list \<Rightarrow> cond_expr parsed" where
  "parse_or 0 ts = None"
| "parse_or (Suc n) ts = and_then (parse_and n ts) (parse_or_loop n)"
| "parse_or_loop 0 left ts = None"
| "parse_or_loop (Suc n) left ts =
     (if tk_kind (tok_peek ts) = TkOr
      then and_then (parse_and n (tok_next ts))
             (\<lambda>right. parse_or_loop n (CondBinary bin_or left right))
      else Some (Inr (left, ts)))"
| "parse_and 0 ts = None"
| "parse_and (Suc n) ts = and_then (parse_not n ts) (parse_and_loop n)"
| "parse_and_loop 0 left ts = None"
| "parse_and_loop (Suc n) left ts =
     (if tk_kind (tok_peek ts) = TkAnd
      then and_then (parse_not n (tok_next ts))
             (\<lambda>right. parse_and_loop n (CondBinary bin_and left right))
      else Some (Inr (left, ts)))"
| "parse_not 0 ts = None"
| "parse_not (Suc n) ts =
     (if tk_kind (tok_peek ts) = TkNot
      then and_then (parse_not n (tok_next ts)) (\<lambda>x ts. Some (Inr (CondNot x, ts)))
      else parse_primary n ts)"
| "parse_primary 0 ts = None"
| "parse_primary (Suc n) ts =
     (let t = tok_peek ts in
      if tk_kind t = TkLParen
      then and_then (parse_or n (tok_next ts))
             (\<lambda>inner ts. if tk_kind (tok_peek ts) \<noteq> TkRParen then Some (Inl (MissingClose (tk_pos t)))
                         else Some (Inr (inner, tok_next ts)))
      else Some (parse_comparison ts))"

definition parse_tokens :: "token list \<Rightarrow> (cond_error + cond_expr) option" where
  "parse_tokens ts =
     (case parse_or (6 * length ts + 3) ts of
        None \<Rightarrow> None
      | Some (Inl e) \<Rightarrow> Some (Inl e)
      | Some (Inr (node, rest)) \<Rightarrow>
          (let t = tok_peek rest in
           if tk_kind t \<noteq> TkEOF then Some (Inl (UnexpectedToken (tk_val t) (tk_pos t)))
           else Some (Inr node)))"

definition parse_condition :: "string \<Rightarrow> (cond_error + cond_expr) option" where
  "parse_condition expr =
     (case tokenize_condition (runes_of expr) 0 of
        Inl e \<Rightarrow> Some (Inl e)
      | Inr toks \<Rightarrow> parse_tokens toks)"

subsection \<open>The evaluator\<close>

text \<open>
  \<open>strings.ToLower\<close> maps ASCII text byte by byte; for other text its Unicode table is the parameter
  \<open>lower\<close>.
\<close>

definition lower_byte :: "char \<Rightarrow> char" where
  "lower_byte c = (if in_range 0x41 0x5A c then char_of (byte c + 32) else c)"

definition go_to_lower :: "(string \<Rightarrow> string) \<Rightarrow> string \<Rightarrow> string" where
  "go_to_lower lower s = (if list_all (in_range 0 0x7F) s then map lower_byte s else lower s)"

definition apply_compare_options :: "(string \<Rightarrow> string) \<Rightarrow> string \<Rightarrow> bool \<Rightarrow> bool \<Rightarrow> string" where
  "apply_compare_options lower s ignore_space ignore_case =
     (let s = (if ignore_space then string_of_runes (filter (\<lambda>r. \<not> is_space r) (runes_of s)) else s)
      in if ignore_case then go_to_lower lower s else s)"

definition is_even_integer :: "string \<Rightarrow> bool" where
  "is_even_integer s = (case parse_int64 (trim_space s) of None \<Rightarrow> False | Some n \<Rightarrow> even n)"

record cond_eval_input =
  ci_variables :: vars
  ci_disabled :: "string list"

datatype cond_eval_error = UnsupportedOperator string | ParseFailed cond_error | ParserStuck

definition resolve_operand :: "cond_eval_input \<Rightarrow> cond_operand \<Rightarrow> string" where
  "resolve_operand inp op =
     (if \<not> co_is_var op then co_lit op
      else if co_var op \<in> set (ci_disabled inp) then []
      else case aget (ci_variables inp) (co_var op) of Some v \<Rightarrow> v | None \<Rightarrow> [])"

definition eval_compare ::
    "(string \<Rightarrow> string) \<Rightarrow> cond_compare \<Rightarrow> cond_eval_input \<Rightarrow> cond_eval_error + bool" where
  "eval_compare lower c inp =
     (let left = resolve_operand inp (cc_left c) in
      if cc_op c = op_is_even
      then Inr (is_even_integer (apply_compare_options lower left (cc_ignore_space c) (cc_ignore_case c)))
      else
        let right = resolve_operand inp (cc_right c);
            left = apply_compare_options lower left (cc_ignore_space c) (cc_ignore_case c);
            right = apply_compare_options lower right (cc_ignore_space c) (cc_ignore_case c)
        in if cc_op c = ''=='' then Inr (left = right)
           else if cc_op c = ''!='' then Inr (left \<noteq> right)
           else if cc_op c = ''>'' then Inr (left > right)
           else if cc_op c = ''>='' then Inr (left \<ge> right)
           else if cc_op c = ''<'' then Inr (left < right)
           else if cc_op c = ''<='' then Inr (left \<le> right)
           else if cc_op c = ''StartWith'' then Inr (prefix right left)
           else if cc_op c = ''EndWith'' then Inr (suffix right left)
           else Inl (UnsupportedOperator (cc_op c)))"

fun eval_expr :: "(string \<Rightarrow> string) \<Rightarrow> cond_expr \<Rightarrow> cond_eval_input \<Rightarrow> cond_eval_error + bool" where
  "eval_expr lower (CondBinary op l r) inp =
     (case eval_expr lower l inp of
        Inl e \<Rightarrow> Inl e
      | Inr left \<Rightarrow>
          if op = bin_and \<and> \<not> left then Inr False
          else if op = bin_or \<and> left then Inr True
          else eval_expr lower r inp)"
| "eval_expr lower (CondNot x) inp =
     (case eval_expr lower x inp of Inl e \<Rightarrow> Inl e | Inr b \<Rightarrow> Inr (\<not> b))"
| "eval_expr lower (CondCompare c) inp = eval_compare lower c inp"

text \<open>The parser always answers, so the last branch is never taken.\<close>

definition evaluate_condition ::
    "(string \<Rightarrow> string) \<Rightarrow> string \<Rightarrow> cond_eval_input \<Rightarrow> cond_eval_error + bool" where
  "evaluate_condition lower expr inp =
     (case parse_condition expr of
        Some (Inl e) \<Rightarrow> Inl (ParseFailed e)
      | Some (Inr root) \<Rightarrow> eval_expr lower root inp
      | None \<Rightarrow> Inl ParserStuck)"

subsection \<open>The grammar\<close>

text \<open>
  The grammar of the header comment of \<open>condition.go\<close>, one level per precedence, with the tree each
  rule builds; a rule with a repetition is left recursive, which makes it left associative.
\<close>

datatype level = LOr | LAnd | LNot | LPrim

definition is_option :: "token \<Rightarrow> bool" where
  "is_option t \<longleftrightarrow> tk_kind t = TkOptIgnoreCase \<or> tk_kind t = TkOptIgnoreSpace"

definition with_options :: "token list \<Rightarrow> cond_compare \<Rightarrow> cond_compare" where
  "with_options opts c = c\<lparr>
     cc_ignore_case := cc_ignore_case c \<or> (\<exists>t \<in> set opts. tk_kind t = TkOptIgnoreCase),
     cc_ignore_space := cc_ignore_space c \<or> (\<exists>t \<in> set opts. tk_kind t = TkOptIgnoreSpace)\<rparr>"

fun operand_token :: "token \<Rightarrow> cond_operand option" where
  "operand_token t = (case tk_kind t of
     TkVar \<Rightarrow> Some \<lparr> co_is_var = True, co_var = tk_val t, co_lit = [] \<rparr>
   | TkStr \<Rightarrow> Some \<lparr> co_is_var = False, co_var = [], co_lit = tk_val t \<rparr>
   | _ \<Rightarrow> None)"

definition plain_compare :: "cond_operand \<Rightarrow> string \<Rightarrow> cond_operand \<Rightarrow> cond_compare" where
  "plain_compare l op r = \<lparr> cc_left = l, cc_op = op, cc_right = r,
     cc_ignore_case = False, cc_ignore_space = False \<rparr>"

inductive derives :: "level \<Rightarrow> token list \<Rightarrow> cond_expr \<Rightarrow> bool" where
  or_base: "derives LAnd ts e \<Longrightarrow> derives LOr ts e"
| or_step: "derives LOr ts l \<Longrightarrow> tk_kind t = TkOr \<Longrightarrow> derives LAnd us r \<Longrightarrow>
    derives LOr (ts @ t # us) (CondBinary bin_or l r)"
| and_base: "derives LNot ts e \<Longrightarrow> derives LAnd ts e"
| and_step: "derives LAnd ts l \<Longrightarrow> tk_kind t = TkAnd \<Longrightarrow> derives LNot us r \<Longrightarrow>
    derives LAnd (ts @ t # us) (CondBinary bin_and l r)"
| not_base: "derives LPrim ts e \<Longrightarrow> derives LNot ts e"
| not_step: "tk_kind t = TkNot \<Longrightarrow> derives LNot ts e \<Longrightarrow> derives LNot (t # ts) (CondNot e)"
| group: "tk_kind t = TkLParen \<Longrightarrow> derives LOr ts e \<Longrightarrow> tk_kind u = TkRParen \<Longrightarrow>
    derives LPrim (t # ts @ [u]) e"
| unary: "operand_token a = Some l \<Longrightarrow> tk_kind t = TkOp \<Longrightarrow> is_unary_op (tk_val t) \<Longrightarrow>
    list_all is_option opts \<Longrightarrow>
    derives LPrim (a # t # opts) (CondCompare (with_options opts (plain_compare l (tk_val t) no_operand)))"
| binary: "operand_token a = Some l \<Longrightarrow> tk_kind t = TkOp \<Longrightarrow> \<not> is_unary_op (tk_val t) \<Longrightarrow>
    operand_token b = Some r \<Longrightarrow> list_all is_option opts \<Longrightarrow>
    derives LPrim (a # t # b # opts) (CondCompare (with_options opts (plain_compare l (tk_val t) r)))"

subsection \<open>Token lists\<close>

definition toks_ok :: "token list \<Rightarrow> bool" where
  "toks_ok ts \<longleftrightarrow> ts \<noteq> [] \<and> tk_kind (last ts) = TkEOF"

lemma toks_next:
  assumes "toks_ok ts" "tk_kind (tok_peek ts) \<noteq> TkEOF"
  shows "ts = tok_peek ts # tok_next ts \<and> toks_ok (tok_next ts)"
  using assms by (cases ts) (auto simp: toks_ok_def tok_peek_def tok_next_def split: if_splits)

lemma toks_next_length:
  "toks_ok ts \<Longrightarrow> tk_kind (tok_peek ts) \<noteq> TkEOF \<Longrightarrow> length ts = Suc (length (tok_next ts))"
  by (metis toks_next length_Cons)

lemma tok_peek_Cons [simp]: "tok_peek (t # ts) = t"
  by (simp add: tok_peek_def)

lemma tok_next_Cons [simp]: "ts \<noteq> [] \<Longrightarrow> tok_next (t # ts) = ts"
  by (cases ts) (simp_all add: tok_next_def)

lemma parse_options_exact:
  "list_all is_option opts \<Longrightarrow> rest \<noteq> [] \<Longrightarrow> \<not> is_option (hd rest) \<Longrightarrow>
   parse_options c (opts @ rest) = (with_options opts c, rest)"
proof (induction opts arbitrary: c)
  case Nil
  then show ?case
    by (subst parse_options.simps)
      (auto simp: with_options_def is_option_def tok_peek_def split: token_kind.splits)
next
  case (Cons t opts)
  then have "is_option t" "1 < length (t # opts @ rest)" by (simp_all add: neq_Nil_conv length_greater_0_conv)
  moreover have "parse_options c' (opts @ rest) = (with_options opts c', rest)" for c'
    using Cons by simp
  ultimately show ?case
    by (subst parse_options.simps) (auto simp: is_option_def with_options_def split: token_kind.splits)
qed

lemma options_split:
  "toks_ok ts \<Longrightarrow> \<exists>opts rest. ts = opts @ rest \<and> list_all is_option opts \<and> toks_ok rest \<and> \<not> is_option (hd rest)"
proof (induction ts)
  case (Cons t ts)
  show ?case
  proof (cases "is_option t \<and> ts \<noteq> []")
    case True
    with Cons.prems have "toks_ok ts" by (simp add: toks_ok_def)
    with Cons.IH True obtain opts rest where
      "ts = opts @ rest" "list_all is_option opts" "toks_ok rest" "\<not> is_option (hd rest)" by blast
    then show ?thesis using True by (intro exI [of _ "t # opts"] exI [of _ rest]) simp
  next
    case False
    with Cons.prems have "\<not> is_option t" by (auto simp: toks_ok_def is_option_def)
    with Cons.prems show ?thesis by (intro exI [of _ "[]"] exI [of _ "t # ts"]) simp
  qed
qed (simp add: toks_ok_def)

lemma parse_options_sound:
  assumes "toks_ok ts" "parse_options c ts = (c', rest)"
  shows "\<exists>opts. ts = opts @ rest \<and> list_all is_option opts \<and> c' = with_options opts c \<and> toks_ok rest"
proof -
  obtain opts r where *: "ts = opts @ r" "list_all is_option opts" "toks_ok r" "\<not> is_option (hd r)"
    using options_split [OF assms(1)] by blast
  then have "parse_options c ts = (with_options opts c, r)"
    using parse_options_exact [of opts r c] by (simp add: toks_ok_def)
  with * assms(2) show ?thesis by auto
qed

lemma parse_operand_sound:
  "toks_ok ts \<Longrightarrow> parse_operand ts = Inr (x, rest) \<Longrightarrow>
   \<exists>a. ts = a # rest \<and> operand_token a = Some x \<and> toks_ok rest"
proof -
  assume ok: "toks_ok ts" and p: "parse_operand ts = Inr (x, rest)"
  from p have "operand_token (tok_peek ts) = Some x \<and> rest = tok_next ts"
    by (auto simp: parse_operand_def Let_def split: token_kind.splits)
  moreover from this have "tk_kind (tok_peek ts) \<noteq> TkEOF" by auto
  ultimately show ?thesis using toks_next [OF ok] by metis
qed

lemma parse_operand_exact:
  "operand_token a = Some x \<Longrightarrow> rest \<noteq> [] \<Longrightarrow> parse_operand (a # rest) = Inr (x, rest)"
  by (auto simp: parse_operand_def Let_def split: token_kind.splits)

lemma parse_comparison_sound:
  assumes "toks_ok ts" "parse_comparison ts = Inr (e, rest)"
  shows "\<exists>used. ts = used @ rest \<and> derives LPrim used e \<and> toks_ok rest \<and> used \<noteq> []"
proof -
  obtain l ts1 where l: "parse_operand ts = Inr (l, ts1)"
    using assms(2) by (auto simp: parse_comparison_def split: sum.splits)
  then obtain a where a: "ts = a # ts1" "operand_token a = Some l" "toks_ok ts1"
    using parse_operand_sound [OF assms(1)] by blast
  let ?t = "tok_peek ts1" and ?ts2 = "tok_next ts1"
  have op: "tk_kind ?t = TkOp"
    using assms(2) l by (auto simp: parse_comparison_def Let_def split: if_splits)
  then have t: "ts1 = ?t # ?ts2" "toks_ok ?ts2" using toks_next [OF a(3)] by auto
  show ?thesis
  proof (cases "is_unary_op (tk_val ?t)")
    case True
    obtain c' r where po: "parse_options (plain_compare l (tk_val ?t) no_operand) ?ts2 = (c', r)" by fastforce
    with assms(2) l op True have "e = CondCompare c'" "rest = r"
      by (auto simp: parse_comparison_def Let_def plain_compare_def)
    with parse_options_sound [OF t(2) po] a t op True show ?thesis
      by (metis append_Cons derives.unary list.distinct(1))
  next
    case False
    obtain r ts3 where r: "parse_operand ?ts2 = Inr (r, ts3)"
      using assms(2) l op False by (auto simp: parse_comparison_def Let_def split: sum.splits)
    then obtain b where b: "?ts2 = b # ts3" "operand_token b = Some r" "toks_ok ts3"
      using parse_operand_sound [OF t(2)] by blast
    obtain c' r' where po: "parse_options (plain_compare l (tk_val ?t) r) ts3 = (c', r')" by fastforce
    with assms(2) l op r False have "e = CondCompare c'" "rest = r'"
      by (auto simp: parse_comparison_def Let_def plain_compare_def)
    with parse_options_sound [OF b(3) po] a t b op False show ?thesis
      by (metis append_Cons derives.binary list.distinct(1))
  qed
qed

lemma parse_comparison_unary:
  assumes "operand_token a = Some l" "tk_kind t = TkOp" "is_unary_op (tk_val t)"
    and "list_all is_option opts" "rest \<noteq> []" "\<not> is_option (hd rest)"
  shows "parse_comparison (a # t # opts @ rest)
    = Inr (CondCompare (with_options opts (plain_compare l (tk_val t) no_operand)), rest)"
  using assms parse_options_exact [OF assms(4-6)] parse_operand_exact [OF assms(1)]
  by (simp add: parse_comparison_def Let_def plain_compare_def)

lemma parse_comparison_binary:
  assumes "operand_token a = Some l" "tk_kind t = TkOp" "\<not> is_unary_op (tk_val t)" "operand_token b = Some r"
    and "list_all is_option opts" "rest \<noteq> []" "\<not> is_option (hd rest)"
  shows "parse_comparison (a # t # b # opts @ rest)
    = Inr (CondCompare (with_options opts (plain_compare l (tk_val t) r)), rest)"
  using assms parse_options_exact [OF assms(5-7)] parse_operand_exact [OF assms(1)] parse_operand_exact [OF assms(4)]
  by (simp add: parse_comparison_def Let_def plain_compare_def)

subsection \<open>Enough fuel\<close>

definition answers :: "nat \<Rightarrow> 'a parsed \<Rightarrow> bool" where
  "answers len r \<longleftrightarrow> (case r of None \<Rightarrow> False | Some (Inl e) \<Rightarrow> True
     | Some (Inr (a, rest)) \<Rightarrow> toks_ok rest \<and> length rest \<le> len)"

lemma answers_and_then:
  "answers len r \<Longrightarrow> (\<And>a ts. toks_ok ts \<Longrightarrow> length ts \<le> len \<Longrightarrow> answers len' (f a ts)) \<Longrightarrow>
   answers len' (and_then r f)"
  by (cases "(r, f)" rule: and_then.cases) (auto simp: answers_def)

lemma answers_weaken: "answers len r \<Longrightarrow> len \<le> len' \<Longrightarrow> answers len' r"
  by (auto simp: answers_def split: option.splits sum.splits)

lemma parse_fuel:
  "\<forall>ts. toks_ok ts \<longrightarrow>
     (6 * length ts + 3 \<le> n \<longrightarrow> answers (length ts - 1) (parse_or n ts))
   \<and> (\<forall>l. 6 * length ts \<le> n + 2 \<and> 0 < n \<longrightarrow> answers (length ts) (parse_or_loop n l ts))
   \<and> (6 * length ts + 2 \<le> n \<longrightarrow> answers (length ts - 1) (parse_and n ts))
   \<and> (\<forall>l. 6 * length ts \<le> n + 3 \<and> 0 < n \<longrightarrow> answers (length ts) (parse_and_loop n l ts))
   \<and> (6 * length ts + 1 \<le> n \<longrightarrow> answers (length ts - 1) (parse_not n ts))
   \<and> (6 * length ts \<le> n \<longrightarrow> answers (length ts - 1) (parse_primary n ts))"
proof (induction n)
  case 0
  then show ?case by (auto simp: toks_ok_def)
next
  case (Suc n)
  have pos: "0 < length ts" if "toks_ok ts" for ts using that by (auto simp: toks_ok_def)
  have IH:
    "\<And>ts. toks_ok ts \<Longrightarrow> 6 * length ts + 3 \<le> n \<Longrightarrow> answers (length ts - 1) (parse_or n ts)"
    "\<And>ts l. toks_ok ts \<Longrightarrow> 6 * length ts \<le> n + 2 \<Longrightarrow> 0 < n \<Longrightarrow> answers (length ts) (parse_or_loop n l ts)"
    "\<And>ts. toks_ok ts \<Longrightarrow> 6 * length ts + 2 \<le> n \<Longrightarrow> answers (length ts - 1) (parse_and n ts)"
    "\<And>ts l. toks_ok ts \<Longrightarrow> 6 * length ts \<le> n + 3 \<Longrightarrow> 0 < n \<Longrightarrow> answers (length ts) (parse_and_loop n l ts)"
    "\<And>ts. toks_ok ts \<Longrightarrow> 6 * length ts + 1 \<le> n \<Longrightarrow> answers (length ts - 1) (parse_not n ts)"
    "\<And>ts. toks_ok ts \<Longrightarrow> 6 * length ts \<le> n \<Longrightarrow> answers (length ts - 1) (parse_primary n ts)"
    using Suc by blast+
  have "answers (length ts - 1) (parse_or (Suc n) ts)" if "toks_ok ts" "6 * length ts + 3 \<le> Suc n" for ts
    using that pos [OF that(1)] unfolding parse_or.simps
    by (intro answers_and_then [OF IH(3)] answers_weaken [OF IH(2)]) auto
  moreover have "answers (length ts) (parse_or_loop (Suc n) l ts)"
    if ok: "toks_ok ts" and n: "6 * length ts \<le> Suc n + 2" for ts l
  proof (cases "tk_kind (tok_peek ts) = TkOr")
    case True
    then have nx: "toks_ok (tok_next ts)" "length ts = Suc (length (tok_next ts))"
      using toks_next [OF ok] toks_next_length [OF ok] by auto
    with n have "answers (length (tok_next ts) - 1) (parse_and n (tok_next ts))"
      by (intro IH(3)) auto
    then show ?thesis using True nx n pos [OF nx(1)]
      by simp (erule answers_and_then, rule answers_weaken [OF IH(2)], auto)
  qed (simp add: answers_def ok)
  moreover have "answers (length ts - 1) (parse_and (Suc n) ts)" if "toks_ok ts" "6 * length ts + 2 \<le> Suc n" for ts
    using that pos [OF that(1)] unfolding parse_and.simps
    by (intro answers_and_then [OF IH(5)] answers_weaken [OF IH(4)]) auto
  moreover have "answers (length ts) (parse_and_loop (Suc n) l ts)"
    if ok: "toks_ok ts" and n: "6 * length ts \<le> Suc n + 3" for ts l
  proof (cases "tk_kind (tok_peek ts) = TkAnd")
    case True
    then have nx: "toks_ok (tok_next ts)" "length ts = Suc (length (tok_next ts))"
      using toks_next [OF ok] toks_next_length [OF ok] by auto
    with n have "answers (length (tok_next ts) - 1) (parse_not n (tok_next ts))"
      by (intro IH(5)) auto
    then show ?thesis using True nx n pos [OF nx(1)]
      by simp (erule answers_and_then, rule answers_weaken [OF IH(4)], auto)
  qed (simp add: answers_def ok)
  moreover have "answers (length ts - 1) (parse_not (Suc n) ts)"
    if ok: "toks_ok ts" and n: "6 * length ts + 1 \<le> Suc n" for ts
  proof (cases "tk_kind (tok_peek ts) = TkNot")
    case True
    then have nx: "toks_ok (tok_next ts)" "length ts = Suc (length (tok_next ts))"
      using toks_next [OF ok] toks_next_length [OF ok] by auto
    with n have "answers (length (tok_next ts) - 1) (parse_not n (tok_next ts))"
      by (intro IH(5)) auto
    then show ?thesis using True nx
      by simp (erule answers_and_then, simp add: answers_def)
  qed (use IH(6) [OF ok] n in simp)
  moreover have "answers (length ts - 1) (parse_primary (Suc n) ts)"
    if ok: "toks_ok ts" and n: "6 * length ts \<le> Suc n" for ts
  proof (cases "tk_kind (tok_peek ts) = TkLParen")
    case True
    then have nx: "toks_ok (tok_next ts)" "length ts = Suc (length (tok_next ts))"
      using toks_next [OF ok] toks_next_length [OF ok] by auto
    with n have "answers (length (tok_next ts) - 1) (parse_or n (tok_next ts))"
      by (intro IH(1)) auto
    then show ?thesis using True nx
      by (simp add: Let_def) (erule answers_and_then,
        auto simp: answers_def dest: toks_next toks_next_length)
  next
    case False
    then show ?thesis using parse_comparison_sound [OF ok]
      by (cases "parse_comparison ts") (auto simp: answers_def Let_def neq_Nil_conv)
  qed
  ultimately show ?case by blast
qed

lemma parse_or_answers: "toks_ok ts \<Longrightarrow> answers (length ts - 1) (parse_or (6 * length ts + 3) ts)"
  using parse_fuel [of "6 * length ts + 3"] by blast

lemma parse_tokens_answers: "toks_ok ts \<Longrightarrow> parse_tokens ts \<noteq> None"
  using parse_or_answers [of ts]
  by (auto simp: parse_tokens_def answers_def Let_def split: option.splits sum.splits)

subsection \<open>Soundness\<close>

lemma and_then_Inr:
  "and_then r f = Some (Inr x) \<longleftrightarrow> (\<exists>a ts. r = Some (Inr (a, ts)) \<and> f a ts = Some (Inr x))"
  by (cases "(r, f)" rule: and_then.cases) auto

definition sound :: "level \<Rightarrow> token list \<Rightarrow> cond_expr parsed \<Rightarrow> bool" where
  "sound lv ts r \<longleftrightarrow> (\<forall>e rest. r = Some (Inr (e, rest)) \<longrightarrow>
     (\<exists>used. ts = used @ rest \<and> derives lv used e \<and> toks_ok rest))"

definition sound_loop :: "level \<Rightarrow> cond_expr \<Rightarrow> token list \<Rightarrow> cond_expr parsed \<Rightarrow> bool" where
  "sound_loop lv l ts r \<longleftrightarrow> (\<forall>e rest. r = Some (Inr (e, rest)) \<longrightarrow>
     (\<exists>used. ts = used @ rest \<and> toks_ok rest \<and> (\<forall>pre. derives lv pre l \<longrightarrow> derives lv (pre @ used) e)))"

lemma soundD: "sound lv ts r \<Longrightarrow> r = Some (Inr (e, rest)) \<Longrightarrow>
    \<exists>used. ts = used @ rest \<and> derives lv used e \<and> toks_ok rest"
  by (simp add: sound_def)

lemma sound_loopD: "sound_loop lv l ts r \<Longrightarrow> r = Some (Inr (e, rest)) \<Longrightarrow>
    \<exists>used. ts = used @ rest \<and> toks_ok rest \<and> (\<forall>pre. derives lv pre l \<longrightarrow> derives lv (pre @ used) e)"
  by (simp add: sound_loop_def)

lemma sound_loop_stop: "toks_ok ts \<Longrightarrow> sound_loop lv l ts (Some (Inr (l, ts)))"
  by (simp add: sound_loop_def)

lemma sound_seq:
  assumes "sound lv' ts r" "\<And>us e. derives lv' us e \<Longrightarrow> derives lv us e"
    and "\<And>l us. toks_ok us \<Longrightarrow> sound_loop lv l us (f l us)"
  shows "sound lv ts (and_then r f)"
  unfolding sound_def
proof (intro allI impI)
  fix e rest
  assume "and_then r f = Some (Inr (e, rest))"
  then obtain l us where l: "r = Some (Inr (l, us))" "f l us = Some (Inr (e, rest))"
    by (auto simp: and_then_Inr)
  obtain used where used: "ts = used @ us" "derives lv' used l" "toks_ok us"
    using soundD [OF assms(1) l(1)] by blast
  obtain more where "us = more @ rest" "toks_ok rest" "derives lv (used @ more) e"
    using sound_loopD [OF assms(3) [OF used(3)] l(2)] assms(2) [OF used(2)] by blast
  then show "\<exists>used. ts = used @ rest \<and> derives lv used e \<and> toks_ok rest"
    using used by (intro exI [of _ "used @ more"]) simp
qed

lemma sound_loop_step:
  assumes "ts = t # us" "sound lv' us r"
    and "\<And>q vs. toks_ok vs \<Longrightarrow> sound_loop lv (bin q) vs (f q vs)"
    and "\<And>pre vs q. derives lv pre l \<Longrightarrow> derives lv' vs q \<Longrightarrow> derives lv (pre @ t # vs) (bin q)"
  shows "sound_loop lv l ts (and_then r f)"
  unfolding sound_loop_def
proof (intro allI impI)
  fix e rest
  assume "and_then r f = Some (Inr (e, rest))"
  then obtain q vs where q: "r = Some (Inr (q, vs))" "f q vs = Some (Inr (e, rest))"
    by (auto simp: and_then_Inr)
  obtain used where used: "us = used @ vs" "derives lv' used q" "toks_ok vs"
    using soundD [OF assms(2) q(1)] by blast
  obtain more where more: "vs = more @ rest" "toks_ok rest"
    "\<And>pre. derives lv pre (bin q) \<Longrightarrow> derives lv (pre @ more) e"
    using sound_loopD [OF assms(3) [OF used(3)] q(2)] by blast
  have "derives lv (pre @ t # used @ more) e" if "derives lv pre l" for pre
    using more(3) [OF assms(4) [OF that used(2)]] by simp
  then show "\<exists>used. ts = used @ rest \<and> toks_ok rest \<and> (\<forall>pre. derives lv pre l \<longrightarrow> derives lv (pre @ used) e)"
    using used(1) more(1,2) assms(1) by (intro exI [of _ "t # used @ more"]) simp
qed

lemma sound_not:
  assumes "ts = t # us" "tk_kind t = TkNot" "sound LNot us r"
  shows "sound LNot ts (and_then r (\<lambda>x ts. Some (Inr (CondNot x, ts))))"
  using assms by (auto simp: sound_def and_then_Inr) (metis append_Cons derives.not_step)

lemma sound_group:
  assumes "ts = t # us" "tk_kind t = TkLParen" "sound LOr us r"
  shows "sound LPrim ts (and_then r (\<lambda>inner ts. if tk_kind (tok_peek ts) \<noteq> TkRParen
           then Some (Inl err) else Some (Inr (inner, tok_next ts))))"
  unfolding sound_def
proof (intro allI impI)
  fix e rest
  assume "and_then r (\<lambda>inner ts. if tk_kind (tok_peek ts) \<noteq> TkRParen
           then Some (Inl err) else Some (Inr (inner, tok_next ts))) = Some (Inr (e, rest))"
  then obtain vs where vs: "r = Some (Inr (e, vs))" "tk_kind (tok_peek vs) = TkRParen" "rest = tok_next vs"
    by (auto simp: and_then_Inr split: if_splits)
  obtain used where used: "us = used @ vs" "derives LOr used e" "toks_ok vs"
    using soundD [OF assms(3) vs(1)] by blast
  then have "vs = tok_peek vs # rest" "toks_ok rest" using toks_next [of vs] vs by auto
  then show "\<exists>used. ts = used @ rest \<and> derives LPrim used e \<and> toks_ok rest"
    using used assms(1) derives.group [OF assms(2) used(2) vs(2)]
    by (intro exI [of _ "t # used @ [tok_peek vs]"]) (metis append_Cons append.assoc append_Nil)
qed

lemma sound_base: "sound LPrim ts r \<Longrightarrow> sound LNot ts r"
  unfolding sound_def by (metis derives.not_base)

lemma parse_sound:
  "toks_ok ts \<Longrightarrow> sound LOr ts (parse_or n ts)"
  "toks_ok ts \<Longrightarrow> sound_loop LOr l ts (parse_or_loop n l ts)"
  "toks_ok ts \<Longrightarrow> sound LAnd ts (parse_and n ts)"
  "toks_ok ts \<Longrightarrow> sound_loop LAnd l ts (parse_and_loop n l ts)"
  "toks_ok ts \<Longrightarrow> sound LNot ts (parse_not n ts)"
  "toks_ok ts \<Longrightarrow> sound LPrim ts (parse_primary n ts)"
proof (induction n ts and n l ts and n ts and n l ts and n ts and n ts
    rule: parse_or_parse_or_loop_parse_and_parse_and_loop_parse_not_parse_primary.induct)
  case (2 n ts)
  then show ?case by (auto intro: sound_seq derives.or_base)
next
  case (4 n l ts)
  show ?case
  proof (cases "tk_kind (tok_peek ts) = TkOr")
    case True
    with toks_next [OF "4.prems"] have nx: "ts = tok_peek ts # tok_next ts" "toks_ok (tok_next ts)" by auto
    show ?thesis using True 4 nx(2)
      by (auto intro!: sound_loop_step [OF nx(1), where lv' = LAnd] derives.or_step)
  qed (simp add: sound_loop_stop "4.prems")
next
  case (6 n ts)
  then show ?case by (auto intro: sound_seq derives.and_base)
next
  case (8 n l ts)
  show ?case
  proof (cases "tk_kind (tok_peek ts) = TkAnd")
    case True
    with toks_next [OF "8.prems"] have nx: "ts = tok_peek ts # tok_next ts" "toks_ok (tok_next ts)" by auto
    show ?thesis using True 8 nx(2)
      by (auto intro!: sound_loop_step [OF nx(1), where lv' = LNot] derives.and_step)
  qed (simp add: sound_loop_stop "8.prems")
next
  case (10 n ts)
  show ?case
  proof (cases "tk_kind (tok_peek ts) = TkNot")
    case True
    with toks_next [OF "10.prems"] have nx: "ts = tok_peek ts # tok_next ts" "toks_ok (tok_next ts)" by auto
    show ?thesis using True 10 nx(2) sound_not [OF nx(1) True] by simp
  qed (use 10 sound_base in auto)
next
  case (12 n ts)
  show ?case
  proof (cases "tk_kind (tok_peek ts) = TkLParen")
    case True
    with toks_next [OF "12.prems"] have nx: "ts = tok_peek ts # tok_next ts" "toks_ok (tok_next ts)" by auto
    show ?thesis using True 12 nx(2) sound_group [OF nx(1) True] by (simp add: Let_def)
  qed (use parse_comparison_sound [OF "12.prems"] in \<open>auto simp: sound_def Let_def\<close>)
qed (simp_all add: sound_def sound_loop_def)

subsection \<open>Completeness\<close>

text \<open>More fuel never changes an answer, so an answer is a property of the tokens alone.\<close>

definition keeps :: "'a option \<Rightarrow> 'a option \<Rightarrow> bool" where
  "keeps r r' \<longleftrightarrow> (r \<noteq> None \<longrightarrow> r' = r)"

lemma keeps_refl [simp]: "keeps r r" "keeps None r"
  by (simp_all add: keeps_def)

lemma keeps_trans: "keeps r s \<Longrightarrow> keeps s t \<Longrightarrow> keeps r t"
  by (auto simp: keeps_def)

lemma keeps_and_then:
  "keeps r r' \<Longrightarrow> (\<And>a ts. keeps (f a ts) (f' a ts)) \<Longrightarrow> keeps (and_then r f) (and_then r' f')"
  by (cases "(r, f)" rule: and_then.cases) (auto simp: keeps_def)

lemma parse_more_fuel:
  "keeps (parse_or n ts) (parse_or (Suc n) ts)"
  "keeps (parse_or_loop n l ts) (parse_or_loop (Suc n) l ts)"
  "keeps (parse_and n ts) (parse_and (Suc n) ts)"
  "keeps (parse_and_loop n l ts) (parse_and_loop (Suc n) l ts)"
  "keeps (parse_not n ts) (parse_not (Suc n) ts)"
  "keeps (parse_primary n ts) (parse_primary (Suc n) ts)"
proof (induction n ts and n l ts and n ts and n l ts and n ts and n ts
    rule: parse_or_parse_or_loop_parse_and_parse_and_loop_parse_not_parse_primary.induct)
  case (2 n ts)
  then show ?case unfolding parse_or.simps by (intro keeps_and_then) auto
next
  case (4 n l ts)
  then show ?case by (subst (1 2) parse_or_loop.simps) (auto intro!: keeps_and_then)
next
  case (6 n ts)
  then show ?case unfolding parse_and.simps by (intro keeps_and_then) auto
next
  case (8 n l ts)
  then show ?case by (subst (1 2) parse_and_loop.simps) (auto intro!: keeps_and_then)
next
  case (10 n ts)
  then show ?case by (subst (1 2) parse_not.simps) (auto intro!: keeps_and_then)
next
  case (12 n ts)
  then show ?case by (subst (1 2) parse_primary.simps) (auto intro!: keeps_and_then simp: Let_def)
qed simp_all

lemma keeps_le: "(\<And>n. keeps (p n) (p (Suc n))) \<Longrightarrow> n \<le> m \<Longrightarrow> keeps (p n) (p m)"
  by (erule dec_induct) (auto intro: keeps_trans)

lemma keeps_Some: "(\<And>n. keeps (p n) (p (Suc n))) \<Longrightarrow> p n = Some x \<Longrightarrow> n \<le> m \<Longrightarrow> p m = Some x"
  using keeps_le [of p n m] by (simp add: keeps_def)

text \<open>Some amount of fuel gives an answer.\<close>

definition gives :: "(nat \<Rightarrow> 'a option) \<Rightarrow> 'a \<Rightarrow> bool" where
  "gives p x \<longleftrightarrow> (\<exists>n. p n = Some x)"

lemma gives_and_then:
  assumes "gives (\<lambda>n. p n) (Inr (a, us))" "gives (\<lambda>n. f n a us) x"
    and "\<And>n. keeps (p n) (p (Suc n))" "\<And>n. keeps (f n a us) (f (Suc n) a us)"
  shows "\<exists>n. and_then (p n) (f n) = Some x"
proof -
  obtain i j where i: "p i = Some (Inr (a, us))" and j: "f j a us = Some x"
    using assms(1,2) by (auto simp: gives_def)
  have "p (max i j) = Some (Inr (a, us))" "f (max i j) a us = Some x"
    using keeps_Some [of p, OF assms(3) i] keeps_Some [of "\<lambda>n. f n a us", OF assms(4) j] by simp_all
  then show ?thesis by (intro exI [of _ "max i j"]) simp
qed

lemma gives_step: "\<exists>n. q n = Some x \<Longrightarrow> (\<And>n. p (Suc n) = q n) \<Longrightarrow> gives p x"
  by (metis gives_def)

lemma gives_or:
  "gives (\<lambda>n. parse_and n ts) (Inr (l, us)) \<Longrightarrow> gives (\<lambda>n. parse_or_loop n l us) x \<Longrightarrow>
   gives (\<lambda>n. parse_or n ts) x"
  by (rule gives_step [OF gives_and_then [where p = "\<lambda>n. parse_and n ts" and f = parse_or_loop]])
    (rule parse_more_fuel | assumption | simp)+

lemma gives_and:
  "gives (\<lambda>n. parse_not n ts) (Inr (l, us)) \<Longrightarrow> gives (\<lambda>n. parse_and_loop n l us) x \<Longrightarrow>
   gives (\<lambda>n. parse_and n ts) x"
  by (rule gives_step [OF gives_and_then [where p = "\<lambda>n. parse_not n ts" and f = parse_and_loop]])
    (rule parse_more_fuel | assumption | simp)+

lemma gives_or_loop:
  "tk_kind t = TkOr \<Longrightarrow> us \<noteq> [] \<Longrightarrow> gives (\<lambda>n. parse_and n us) (Inr (r, vs)) \<Longrightarrow>
   gives (\<lambda>n. parse_or_loop n (CondBinary bin_or l r) vs) x \<Longrightarrow> gives (\<lambda>n. parse_or_loop n l (t # us)) x"
  by (rule gives_step [OF gives_and_then [where p = "\<lambda>n. parse_and n us"
          and f = "\<lambda>n r. parse_or_loop n (CondBinary bin_or l r)"]])
    (rule parse_more_fuel | assumption | simp)+

lemma gives_and_loop:
  "tk_kind t = TkAnd \<Longrightarrow> us \<noteq> [] \<Longrightarrow> gives (\<lambda>n. parse_not n us) (Inr (r, vs)) \<Longrightarrow>
   gives (\<lambda>n. parse_and_loop n (CondBinary bin_and l r) vs) x \<Longrightarrow> gives (\<lambda>n. parse_and_loop n l (t # us)) x"
  by (rule gives_step [OF gives_and_then [where p = "\<lambda>n. parse_not n us"
          and f = "\<lambda>n r. parse_and_loop n (CondBinary bin_and l r)"]])
    (rule parse_more_fuel | assumption | simp)+

lemma gives_stop:
  "tk_kind (hd ts) \<noteq> TkOr \<Longrightarrow> gives (\<lambda>n. parse_or_loop n l ts) (Inr (l, ts))"
  "tk_kind (hd ts) \<noteq> TkAnd \<Longrightarrow> gives (\<lambda>n. parse_and_loop n l ts) (Inr (l, ts))"
  unfolding gives_def by (rule exI [of _ 1], simp add: tok_peek_def)+

lemma gives_not:
  assumes "tk_kind t = TkNot" "us \<noteq> []" "gives (\<lambda>n. parse_not n us) (Inr (e, vs))"
  shows "gives (\<lambda>n. parse_not n (t # us)) (Inr (CondNot e, vs))"
proof -
  obtain n where "parse_not n us = Some (Inr (e, vs))" using assms(3) by (auto simp: gives_def)
  then have "parse_not (Suc n) (t # us) = Some (Inr (CondNot e, vs))" using assms by simp
  then show ?thesis unfolding gives_def by blast
qed

lemma gives_primary:
  "tk_kind (tok_peek ts) \<noteq> TkNot \<Longrightarrow> gives (\<lambda>n. parse_primary n ts) x \<Longrightarrow> gives (\<lambda>n. parse_not n ts) x"
  by (rule gives_step [where q = "\<lambda>n. parse_primary n ts"]) (auto simp: gives_def)

lemma gives_group:
  assumes "tk_kind t = TkLParen" "us \<noteq> []" "gives (\<lambda>n. parse_or n us) (Inr (e, u # vs))"
    and "tk_kind u = TkRParen" "vs \<noteq> []"
  shows "gives (\<lambda>n. parse_primary n (t # us)) (Inr (e, vs))"
proof -
  obtain n where "parse_or n us = Some (Inr (e, u # vs))" using assms(3) by (auto simp: gives_def)
  then have "parse_primary (Suc n) (t # us) = Some (Inr (e, vs))" using assms by (simp add: Let_def)
  then show ?thesis unfolding gives_def by blast
qed

lemma gives_comparison:
  "tk_kind (tok_peek ts) \<noteq> TkLParen \<Longrightarrow> parse_comparison ts = Inr x \<Longrightarrow>
   gives (\<lambda>n. parse_primary n ts) (Inr x)"
  unfolding gives_def by (rule exI [of _ 1]) (simp add: Let_def)

lemma operand_kind: "operand_token a = Some x \<Longrightarrow> tk_kind a = TkVar \<or> tk_kind a = TkStr"
  by (auto split: token_kind.splits)

lemma derives_prim_head: "derives lv ts e \<Longrightarrow> lv = LPrim \<Longrightarrow> ts \<noteq> [] \<and> tk_kind (hd ts) \<noteq> TkNot"
  by (induction rule: derives.induct) (auto dest: operand_kind)

text \<open>
  What each level needs of the token that follows, and what it then returns: the two repeating
  levels hand the tree to their loop.
\<close>

fun complete :: "level \<Rightarrow> token list \<Rightarrow> cond_expr \<Rightarrow> bool" where
  "complete LOr ts e = (\<forall>rest x. rest \<noteq> [] \<longrightarrow> \<not> is_option (hd rest) \<longrightarrow> tk_kind (hd rest) \<noteq> TkAnd \<longrightarrow>
     gives (\<lambda>n. parse_or_loop n e rest) x \<longrightarrow> gives (\<lambda>n. parse_or n (ts @ rest)) x)"
| "complete LAnd ts e = (\<forall>rest x. rest \<noteq> [] \<longrightarrow> \<not> is_option (hd rest) \<longrightarrow>
     gives (\<lambda>n. parse_and_loop n e rest) x \<longrightarrow> gives (\<lambda>n. parse_and n (ts @ rest)) x)"
| "complete LNot ts e = (\<forall>rest. rest \<noteq> [] \<longrightarrow> \<not> is_option (hd rest) \<longrightarrow>
     gives (\<lambda>n. parse_not n (ts @ rest)) (Inr (e, rest)))"
| "complete LPrim ts e = (\<forall>rest. rest \<noteq> [] \<longrightarrow> \<not> is_option (hd rest) \<longrightarrow>
     gives (\<lambda>n. parse_primary n (ts @ rest)) (Inr (e, rest)))"

lemma completeD:
  "complete LOr ts e \<Longrightarrow> rest \<noteq> [] \<Longrightarrow> \<not> is_option (hd rest) \<Longrightarrow> tk_kind (hd rest) \<noteq> TkAnd \<Longrightarrow>
     gives (\<lambda>n. parse_or_loop n e rest) x \<Longrightarrow> gives (\<lambda>n. parse_or n (ts @ rest)) x"
  "complete LAnd ts e \<Longrightarrow> rest \<noteq> [] \<Longrightarrow> \<not> is_option (hd rest) \<Longrightarrow>
     gives (\<lambda>n. parse_and_loop n e rest) x \<Longrightarrow> gives (\<lambda>n. parse_and n (ts @ rest)) x"
  "complete LNot ts e \<Longrightarrow> rest \<noteq> [] \<Longrightarrow> \<not> is_option (hd rest) \<Longrightarrow>
     gives (\<lambda>n. parse_not n (ts @ rest)) (Inr (e, rest))"
  "complete LPrim ts e \<Longrightarrow> rest \<noteq> [] \<Longrightarrow> \<not> is_option (hd rest) \<Longrightarrow>
     gives (\<lambda>n. parse_primary n (ts @ rest)) (Inr (e, rest))"
  by simp_all

lemma kinds_not_option:
  "tk_kind t = TkOr \<Longrightarrow> \<not> is_option t" "tk_kind t = TkAnd \<Longrightarrow> \<not> is_option t"
  "tk_kind t = TkRParen \<Longrightarrow> \<not> is_option t" "tk_kind t = TkEOF \<Longrightarrow> \<not> is_option t"
  by (simp_all add: is_option_def)

lemma parse_complete: "derives lv ts e \<Longrightarrow> complete lv ts e"
proof (induction rule: derives.induct)
  case (or_base ts e)
  then show ?case by (metis complete.simps(1) completeD(2) gives_or gives_stop(2))
next
  case (or_step ts l t us r)
  show ?case unfolding complete.simps
  proof (intro allI impI)
    fix rest x
    assume r: "rest \<noteq> []" "\<not> is_option (hd rest)" "tk_kind (hd rest) \<noteq> TkAnd"
      and x: "gives (\<lambda>n. parse_or_loop n (CondBinary bin_or l r) rest) x"
    have "gives (\<lambda>n. parse_and n (us @ rest)) (Inr (r, rest))"
      using completeD(2) [OF or_step.IH(2) r(1,2) gives_stop(2) [OF r(3)]] .
    then have "gives (\<lambda>n. parse_or_loop n l (t # us @ rest)) x"
      using gives_or_loop [OF or_step.hyps(2) _ _ x] r(1) by simp
    then show "gives (\<lambda>n. parse_or n ((ts @ t # us) @ rest)) x"
      using completeD(1) [OF or_step.IH(1), of "t # us @ rest"] or_step.hyps(2) kinds_not_option
      by simp
  qed
next
  case (and_base ts e)
  then show ?case by (metis complete.simps(2) completeD(3) gives_and)
next
  case (and_step ts l t us r)
  show ?case unfolding complete.simps
  proof (intro allI impI)
    fix rest x
    assume r: "rest \<noteq> []" "\<not> is_option (hd rest)"
      and x: "gives (\<lambda>n. parse_and_loop n (CondBinary bin_and l r) rest) x"
    have "gives (\<lambda>n. parse_and_loop n l (t # us @ rest)) x"
      using gives_and_loop [OF and_step.hyps(2) _ completeD(3) [OF and_step.IH(2) r] x] r(1) by simp
    then show "gives (\<lambda>n. parse_and n ((ts @ t # us) @ rest)) x"
      using completeD(2) [OF and_step.IH(1), of "t # us @ rest"] and_step.hyps(2) kinds_not_option
      by simp
  qed
next
  case (not_base ts e)
  then show ?case using derives_prim_head [OF not_base.hyps]
    by (auto simp: tok_peek_def intro!: gives_primary)
next
  case (not_step t ts e)
  then show ?case by (auto intro!: gives_not)
next
  case (group t ts e u)
  have "gives (\<lambda>n. parse_or n (ts @ u # rest)) (Inr (e, u # rest))" for rest
    using completeD(1) [OF group.IH, of "u # rest"] gives_stop(1) [of "u # rest" e] group.hyps kinds_not_option
    by simp
  then show ?case using group.hyps by (auto intro!: gives_group)
next
  case (unary a l t opts)
  show ?case using parse_comparison_unary [OF unary] operand_kind [OF unary(1)]
    by (auto intro!: gives_comparison)
next
  case (binary a l t b r opts)
  show ?case using parse_comparison_binary [OF binary] operand_kind [OF binary(1)]
    by (auto intro!: gives_comparison)
qed

subsection \<open>What the tokenizer hands over\<close>

definition known_operators :: "string list" where
  "known_operators = compare_operators @ [''StartWith'', ''EndWith'', op_is_even]"

definition good_token :: "token \<Rightarrow> bool" where
  "good_token t \<longleftrightarrow> tk_kind t \<noteq> TkEOF
     \<and> (tk_kind t = TkOp \<longrightarrow> tk_val t \<in> set known_operators)
     \<and> (tk_kind t = TkVar \<longrightarrow> is_valid_var_name (tk_val t))"

lemma scan_variable_good:
  "scan_variable rs i start name = Inr (t, rest, j) \<Longrightarrow> good_token t \<and> j + length rest = i + length rs"
  by (induction rs i start name rule: scan_variable.induct)
    (auto simp: Let_def good_token_def split: if_splits list.splits)

lemma scan_string_good:
  "scan_string rs i start sb = Inr (t, rest, j) \<Longrightarrow> good_token t \<and> j + length rest = i + length rs"
proof (induction rs i start sb rule: scan_string.induct)
  case (2 c rs i start sb)
  consider "c = 0x22" | "c = 0x0A \<or> c = 0x0D" | "c = 0x5C" | "c \<notin> {0x22, 0x0A, 0x0D, 0x5C}" by auto
  then show ?case
  proof cases
    case 3
    with "2.prems" obtain esc rs' where rs: "rs = esc # rs'" by (cases rs) auto
    with "2.prems" 3 have "esc = 0x22 \<or> esc = 0x5C" by (auto split: if_splits)
    with "2.IH"(1) [OF _ _ 3 rs this] "2.prems" 3 rs show ?thesis by simp
  next
    case 4
    with "2.IH"(2) "2.prems" show ?thesis by simp
  qed (use "2.prems" in \<open>auto simp: good_token_def\<close>)
qed simp

lemma drop_prefix_length: "prefix p rs \<Longrightarrow> length p + length (drop (length p) rs) = length rs"
  using prefix_length_le [of p rs] by simp

lemma scan_compare_op_good:
  "scan_compare_op rs i = Inr (t, rest, j) \<Longrightarrow> good_token t \<and> j + length rest = i + length rs"
  by (auto simp: scan_compare_op_def good_token_def known_operators_def find_Some_iff compare_operators_def
      ascii_runes_def less_Suc_eq nth_Cons' split: option.splits if_splits dest!: drop_prefix_length)

lemma scan_word_operator_good:
  assumes "scan_word_operator rs i = Inr (t, rest, j)"
  shows "good_token t \<and> j + length rest = i + length rs"
proof -
  have "length (takeWhile is_ascii_letter rs) + length (dropWhile is_ascii_letter rs) = length rs"
    by (metis length_append takeWhile_dropWhile_id)
  with assms show ?thesis
    by (auto simp: scan_word_operator_def Let_def good_token_def known_operators_def split: if_splits)
qed

lemma keyword_token_good:
  "keyword_token k kw rs i = Inr (t, rest, j) \<Longrightarrow> prefix kw rs \<Longrightarrow>
   k \<noteq> TkEOF \<Longrightarrow> k \<noteq> TkVar \<Longrightarrow> k = TkOp \<longrightarrow> kw = kw_is_even \<Longrightarrow>
   good_token t \<and> j + length rest = i + length rs"
  using prefix_length_le [of kw rs]
  by (auto simp: keyword_token_def good_token_def known_operators_def op_is_even_def)

lemma scan_token_good:
  "scan_token (r # rs) i = Inr (t, rest, j) \<Longrightarrow> good_token t \<and> j + length rest = i + length (r # rs)"
  by (simp split: if_splits list.splits)
    (auto simp: good_token_def dest!: scan_variable_good scan_string_good scan_compare_op_good
      scan_word_operator_good keyword_token_good)

lemma tokenize_good:
  "tokenize_condition rs i = Inr toks \<Longrightarrow>
   \<exists>ts. toks = ts @ [mk_token TkEOF [] (i + length rs)] \<and> list_all good_token ts"
proof (induction rs i arbitrary: toks rule: tokenize_condition.induct)
  case (2 r rs i)
  show ?case
  proof (cases "is_space r")
    case False
    obtain t rest j where t: "scan_token (r # rs) i = Inr (t, rest, j)"
      using "2.prems" False by (auto simp del: scan_token.simps split: sum.splits)
    then obtain ts where "toks = t # ts" "tokenize_condition rest j = Inr ts"
      using "2.prems" False by (auto simp del: scan_token.simps split: sum.splits)
    with "2.IH"(2) [OF False t refl refl] scan_token_good [OF t] show ?thesis by fastforce
  qed (use 2 in fastforce)
qed simp

lemma good_toks_ok: "toks_ok (ts @ [mk_token TkEOF [] i])"
  by (simp add: toks_ok_def)

subsection \<open>Well-formed trees and their meaning\<close>

definition wf_operand :: "cond_operand \<Rightarrow> bool" where
  "wf_operand op \<longleftrightarrow> (co_is_var op \<longrightarrow> is_valid_var_name (co_var op))"

fun wf_expr :: "cond_expr \<Rightarrow> bool" where
  "wf_expr (CondBinary op l r) \<longleftrightarrow> (op = bin_and \<or> op = bin_or) \<and> wf_expr l \<and> wf_expr r"
| "wf_expr (CondNot x) \<longleftrightarrow> wf_expr x"
| "wf_expr (CondCompare c) \<longleftrightarrow> cc_op c \<in> set known_operators \<and> wf_operand (cc_left c) \<and> wf_operand (cc_right c)"

lemma derives_wf: "derives lv ts e \<Longrightarrow> list_all good_token ts \<Longrightarrow> wf_expr e"
  by (induction rule: derives.induct)
    (auto simp: with_options_def plain_compare_def good_token_def wf_operand_def no_operand_def
      split: token_kind.splits)

text \<open>The truth value of a tree: the connectives are the logical ones.\<close>

definition compare_holds :: "(string \<Rightarrow> string) \<Rightarrow> cond_compare \<Rightarrow> cond_eval_input \<Rightarrow> bool" where
  "compare_holds lower c inp = (case eval_compare lower c inp of Inl _ \<Rightarrow> False | Inr b \<Rightarrow> b)"

fun holds :: "(string \<Rightarrow> string) \<Rightarrow> cond_expr \<Rightarrow> cond_eval_input \<Rightarrow> bool" where
  "holds lower (CondBinary op l r) inp =
     (if op = bin_and then holds lower l inp \<and> holds lower r inp else holds lower l inp \<or> holds lower r inp)"
| "holds lower (CondNot x) inp = (\<not> holds lower x inp)"
| "holds lower (CondCompare c) inp = compare_holds lower c inp"

lemma eval_compare_total:
  "cc_op c \<in> set known_operators \<Longrightarrow> eval_compare lower c inp = Inr (compare_holds lower c inp)"
  by (auto simp: known_operators_def compare_operators_def eval_compare_def compare_holds_def Let_def)

lemma bin_and_or: "bin_and \<noteq> bin_or"
  by (simp add: bin_and_def bin_or_def keyword_defs string_of_runes_def utf8_encode_def)

lemma eval_wf: "wf_expr e \<Longrightarrow> eval_expr lower e inp = Inr (holds lower e inp)"
  by (induction e) (auto simp: eval_compare_total bin_and_or bin_and_or [symmetric])

subsection \<open>The parser and the grammar agree\<close>

lemma parse_or_fixed:
  assumes "toks_ok ts" "gives (\<lambda>n. parse_or n ts) x"
  shows "parse_or (6 * length ts + 3) ts = Some x"
proof -
  let ?k = "6 * length ts + 3" and ?p = "\<lambda>n. parse_or n ts"
  have "?p ?k \<noteq> None"
    using parse_or_answers [OF assms(1)] by (cases "?p ?k") (simp_all add: answers_def)
  then obtain y where y: "?p ?k = Some y" by blast
  obtain n where n: "?p n = Some x" using assms(2) unfolding gives_def by blast
  have "?p (max n ?k) = Some x"
    by (rule keeps_Some [where p = ?p, OF _ n]) (rule parse_more_fuel, rule max.cobounded1)
  moreover have "?p (max n ?k) = Some y"
    by (rule keeps_Some [where p = ?p, OF _ y]) (rule parse_more_fuel, rule max.cobounded2)
  ultimately show ?thesis using y by (metis option.inject)
qed

lemma parse_tokens_derives:
  assumes good: "list_all good_token ts" and eof: "tk_kind eof = TkEOF"
  shows "parse_tokens (ts @ [eof]) = Some (Inr e) \<longleftrightarrow> derives LOr ts e"
proof
  have ok: "toks_ok (ts @ [eof])" using eof by (simp add: toks_ok_def)
  assume "parse_tokens (ts @ [eof]) = Some (Inr e)"
  then obtain rest where p: "parse_or (6 * length (ts @ [eof]) + 3) (ts @ [eof]) = Some (Inr (e, rest))"
    and stop: "tk_kind (tok_peek rest) = TkEOF"
    by (auto simp: parse_tokens_def Let_def split: option.splits sum.splits if_splits)
  obtain used where used: "ts @ [eof] = used @ rest" "derives LOr used e" "toks_ok rest"
    using soundD [OF parse_sound(1) [OF ok] p] by blast
  have rest: "rest \<noteq> []" using used(3) by (simp add: toks_ok_def)
  then have ts: "ts = used @ butlast rest" using used(1) by (metis butlast_append butlast_snoc)
  have "butlast rest = []"
  proof (rule ccontr)
    assume ne: "butlast rest \<noteq> []"
    then have "hd (butlast rest) = tok_peek rest" using rest by (cases rest) (auto simp: tok_peek_def split: if_splits)
    moreover have "hd (butlast rest) \<in> set ts" using ts ne by simp
    ultimately show False using good stop by (auto simp: list_all_iff good_token_def)
  qed
  with ts have "used = ts" by simp
  with used(2) show "derives LOr ts e" by simp
next
  have ok: "toks_ok (ts @ [eof])" using eof by (simp add: toks_ok_def)
  assume "derives LOr ts e"
  then have "gives (\<lambda>n. parse_or n (ts @ [eof])) (Inr (e, [eof]))"
    using completeD(1) [OF parse_complete, of ts e "[eof]"] gives_stop(1) [of "[eof]" e] eof kinds_not_option
    by simp
  then have "parse_or (6 * length (ts @ [eof]) + 3) (ts @ [eof]) = Some (Inr (e, [eof]))"
    by (rule parse_or_fixed [OF ok])
  then show "parse_tokens (ts @ [eof]) = Some (Inr e)"
    using eof by (simp add: parse_tokens_def Let_def)
qed

lemma parse_condition_derives:
  "parse_condition expr = Some (Inr e) \<longleftrightarrow>
    (\<exists>ts. tokenize_condition (runes_of expr) 0 = Inr (ts @ [mk_token TkEOF [] (length (runes_of expr))])
      \<and> derives LOr ts e)"
proof (cases "tokenize_condition (runes_of expr) 0")
  case (Inr toks)
  then obtain ts where "toks = ts @ [mk_token TkEOF [] (length (runes_of expr))]" "list_all good_token ts"
    using tokenize_good by fastforce
  with Inr show ?thesis by (simp add: parse_condition_def parse_tokens_derives)
qed (simp add: parse_condition_def)

lemma parse_condition_wf: "parse_condition expr = Some (Inr e) \<Longrightarrow> wf_expr e"
  using tokenize_good [of "runes_of expr" 0] derives_wf by (fastforce simp: parse_condition_derives)

subsection \<open>Properties\<close>

text \<open>C24: the parser accepts an expression, with a tree, exactly when the documented grammar derives
  that tree from its tokens (precedence and left associativity included).\<close>
theorem condition_parser_is_grammar:
  "parse_condition expr = Some (Inr e) \<longleftrightarrow>
    (\<exists>ts. tokenize_condition (runes_of expr) 0 = Inr (ts @ [mk_token TkEOF [] (length (runes_of expr))])
      \<and> derives LOr ts e)"
  by (rule parse_condition_derives)


text \<open>the grammar is unambiguous on token sequences: no expression has two readings.\<close>
theorem condition_grammar_unambiguous:
  assumes "list_all good_token ts" "derives LOr ts e" "derives LOr ts e'"
  shows "e = e'"
  using parse_tokens_derives [OF assms(1), of "mk_token TkEOF [] 0"] assms(2,3)
  by (metis mk_token_simps(1) option.inject sum.inject(2))

text \<open>The tokens of a comparison between a variable and a literal.\<close>

definition sample_tokens :: "token list" where
  "sample_tokens = [mk_token TkVar ''x'' 0, mk_token TkOp ''=='' 6, mk_token TkStr ''ok'' 9]"

definition sample_tree :: cond_expr where
  "sample_tree = CondCompare (plain_compare \<lparr> co_is_var = True, co_var = ''x'', co_lit = [] \<rparr> ''==''
     \<lparr> co_is_var = False, co_var = [], co_lit = ''ok'' \<rparr>)"

lemma sample_good: "list_all good_token sample_tokens"
  by (simp add: sample_tokens_def good_token_def known_operators_def compare_operators_def
      is_valid_var_name_def runes_of_ascii is_ascii_letter_def)

lemma sample_derives: "derives LOr sample_tokens sample_tree"
proof -
  have "\<not> is_unary_op ''==''"
    by (simp add: is_unary_op_def op_is_even_def keyword_defs string_of_runes_def utf8_encode_def)
  then have "derives LPrim sample_tokens sample_tree"
    using derives.binary [of "mk_token TkVar ''x'' 0" _ "mk_token TkOp ''=='' 6" "mk_token TkStr ''ok'' 9" _ "[]"]
    by (simp add: sample_tokens_def sample_tree_def with_options_def plain_compare_def)
  then show ?thesis by (intro derives.or_base derives.and_base derives.not_base)
qed

theorem condition_grammar_unambiguous_witness:
  "{e. derives LOr sample_tokens e} = {sample_tree}"
  using condition_grammar_unambiguous [OF sample_good _ sample_derives] sample_derives by blast

end
