(* ===== verification/GraphProtocol.thy ===== *)
theory GraphProtocol
  imports GraphCondition "HOL-Library.Multiset"
begin

section \<open>Output protocols of shell and agent nodes\<close>

text \<open>
  \<open>services/graph/shell_control.go\<close> (the control file a script writes), \<open>output_protocol.go\<close> (the
  marked blocks in a model's answer) and \<open>substitute.go\<close> (placeholders in scripts and prompts).
  The lemmas give the round trips with the writers, the completeness check and the
  order-independence of substitution.
\<close>

subsection \<open>Standard base64\<close>

text \<open>
  \<open>base64.StdEncoding.DecodeString\<close>: carriage returns and newlines are skipped, padding is
  required and must end the input, trailing bits of the last digit are not checked.
\<close>

definition b64_value :: "char \<Rightarrow> nat option" where
  "b64_value c =
     (if in_range 0x41 0x5A c then Some (byte c - 0x41)
      else if in_range 0x61 0x7A c then Some (byte c - 0x61 + 26)
      else if in_range 0x30 0x39 c then Some (byte c - 0x30 + 52)
      else if c = CHR ''+'' then Some 62
      else if c = CHR ''/'' then Some 63
      else None)"

fun b64_decode_digits :: "string \<Rightarrow> string option" where
  "b64_decode_digits [] = Some []"
| "b64_decode_digits (a # b # c # d # rest) =
     (case (b64_value a, b64_value b) of
        (Some va, Some vb) \<Rightarrow>
          if c = CHR ''='' then
            (if d = CHR ''='' \<and> rest = [] then Some [char_of (va * 4 + vb div 16)] else None)
          else (case b64_value c of
                  None \<Rightarrow> None
                | Some vc \<Rightarrow>
                    let x = char_of (va * 4 + vb div 16); y = char_of (vb mod 16 * 16 + vc div 4) in
                    if d = CHR ''='' then (if rest = [] then Some [x, y] else None)
                    else (case b64_value d of
                            None \<Rightarrow> None
                          | Some vd \<Rightarrow>
                              map_option (\<lambda>r. x # y # char_of (vc mod 4 * 64 + vd) # r)
                                (b64_decode_digits rest)))
      | _ \<Rightarrow> None)"
| "b64_decode_digits _ = None"

definition b64_decode :: "string \<Rightarrow> string option" where
  "b64_decode s = b64_decode_digits (filter (\<lambda>c. c \<noteq> CHR 0x0D \<and> c \<noteq> newline_char) s)"

text \<open>The encoder on the script's side of the protocol.\<close>

definition b64_char :: "nat \<Rightarrow> char" where
  "b64_char n = (if n < 26 then char_of (0x41 + n) else if n < 52 then char_of (0x61 + (n - 26))
     else if n < 62 then char_of (0x30 + (n - 52)) else if n = 62 then CHR ''+'' else CHR ''/'')"

fun b64_encode :: "string \<Rightarrow> string" where
  "b64_encode [] = []"
| "b64_encode [a] = [b64_char (byte a div 4), b64_char (byte a mod 4 * 16), CHR ''='', CHR ''='']"
| "b64_encode [a, b] = [b64_char (byte a div 4), b64_char (byte a mod 4 * 16 + byte b div 16),
     b64_char (byte b mod 16 * 4), CHR ''='']"
| "b64_encode (a # b # c # rest) =
     b64_char (byte a div 4) # b64_char (byte a mod 4 * 16 + byte b div 16)
     # b64_char (byte b mod 16 * 4 + byte c div 64) # b64_char (byte c mod 64) # b64_encode rest"

lemma b64_char_facts:
  assumes "n < 64"
  shows "b64_value (b64_char n) = Some n \<and> graphic (b64_char n) \<and> b64_char n \<noteq> CHR ''=''"
proof -
  consider "n < 26" | "26 \<le> n" "n < 52" | "52 \<le> n" "n < 62" | "n = 62" | "n = 63"
    using assms by linarith
  then have "b64_value (b64_char n) = Some n \<and> graphic (b64_char n) \<and> byte (b64_char n) \<noteq> 0x3D"
    by cases (auto simp: b64_char_def b64_value_def in_range_def byte_char_of graphic_def)
  then show ?thesis by auto
qed

lemma byte_less: "byte c < 256"
  by (metis of_char_mod_256 mod_less_divisor zero_less_numeral)

lemma byte_div: "byte c div 4 < 64" "byte c div 16 < 16" "byte c div 64 < 4"
  using byte_less [of c] by (simp_all add: div_less_iff_less_mult)

lemma byte_digits:
  "byte a div 4 < 64" "byte a mod 4 * 16 + byte b div 16 < 64"
  "byte b mod 16 * 4 + byte c div 64 < 64" "byte c mod 64 < 64" "byte a mod 4 * 16 < 64" "byte b mod 16 * 4 < 64"
proof -
  have "x mod 4 * 16 + y < 64" if "y < 16" for x y :: nat
    using that mod_less_divisor [of 4 x] by linarith
  moreover have "x mod 16 * 4 + y < 64" if "y < 4" for x y :: nat
    using that mod_less_divisor [of 16 x] by linarith
  moreover from calculation(1) [of 0] calculation(2) [of 0]
  have "x mod 4 * 16 < 64" "x mod 16 * 4 < 64" for x :: nat by simp_all
  ultimately show "byte a div 4 < 64" "byte a mod 4 * 16 + byte b div 16 < 64"
    "byte b mod 16 * 4 + byte c div 64 < 64" "byte c mod 64 < 64" "byte a mod 4 * 16 < 64" "byte b mod 16 * 4 < 64"
    by (simp_all add: byte_div)
qed

lemma byte_again:
  "char_of (byte a div 4 * 4 + (byte a mod 4 * 16 + byte b div 16) div 16) = a"
  "char_of (byte a div 4 * 4 + byte a mod 4 * 16 div 16) = a"
  "char_of ((byte a mod 4 * 16 + byte b div 16) mod 16 * 16 + (byte b mod 16 * 4 + byte c div 64) div 4) = b"
  "char_of ((byte a mod 4 * 16 + byte b div 16) mod 16 * 16 + byte b mod 16 * 4 div 4) = b"
  "char_of ((byte b mod 16 * 4 + byte c div 64) mod 4 * 64 + byte c mod 64) = c"
proof -
  have d: "byte b div 16 < 16" "byte c div 64 < 4" by (rule byte_div)+
  show "char_of (byte a div 4 * 4 + (byte a mod 4 * 16 + byte b div 16) div 16) = a"
    "char_of (byte a div 4 * 4 + byte a mod 4 * 16 div 16) = a"
    using d by simp_all
  show "char_of ((byte a mod 4 * 16 + byte b div 16) mod 16 * 16 + (byte b mod 16 * 4 + byte c div 64) div 4) = b"
    "char_of ((byte a mod 4 * 16 + byte b div 16) mod 16 * 16 + byte b mod 16 * 4 div 4) = b"
    "char_of ((byte b mod 16 * 4 + byte c div 64) mod 4 * 64 + byte c mod 64) = c"
    using d by simp_all
qed

lemma b64_decode_encode_digits: "b64_decode_digits (b64_encode s) = Some s"
  by (induction s rule: b64_encode.induct)
    (simp_all only: b64_encode.simps b64_decode_digits.simps b64_char_facts byte_digits byte_again
      Let_def prod.case option.case if_True if_False simp_thms refl option.map list.inject)

lemma b64_encode_graphic: "c \<in> set (b64_encode s) \<Longrightarrow> graphic c"
  using b64_char_facts byte_digits
  by (induction s rule: b64_encode.induct) (auto simp: graphic_def [of "CHR ''=''"])

lemma b64_round_trip: "b64_decode (b64_encode s) = Some s"
proof -
  have "filter (\<lambda>c. c \<noteq> CHR 0x0D \<and> c \<noteq> newline_char) (b64_encode s) = b64_encode s"
    by (rule filter_True) (auto dest!: b64_encode_graphic simp: graphic_def)
  then show ?thesis by (simp add: b64_decode_def b64_decode_encode_digits)
qed

subsection \<open>ParseShellControl\<close>

datatype protocol_error =
    MalformedEntry string
  | Base64Failed string
  | ReservedName string
  | InvalidName string
  | MissingDeclared "string list"
  | UnexpectedEnd string
  | MismatchedEnd string string
  | NestedBegin string
  | MissingEnd string

record shell_control_result =
  sr_variables :: vars
  sr_stop_loop :: bool
  sr_stop_workflow :: bool

definition check_produced_name :: "string \<Rightarrow> protocol_error option" where
  "check_produced_name name =
     (if is_reserved_var name then Some (ReservedName name)
      else if \<not> is_valid_var_name name then Some (InvalidName name)
      else None)"

definition put_produced :: "string \<Rightarrow> string \<Rightarrow> shell_control_result \<Rightarrow> protocol_error + shell_control_result" where
  "put_produced name val res =
     (case check_produced_name name of
        Some e \<Rightarrow> Inl e
      | None \<Rightarrow> Inr (res\<lparr>sr_variables := aput name val (sr_variables res)\<rparr>))"

definition shell_control_line :: "string \<Rightarrow> shell_control_result \<Rightarrow> protocol_error + shell_control_result" where
  "shell_control_line raw res =
     (let line = trim_space raw in
      if line = [] then Inr res
      else if line = ''STOP_LOOP'' then Inr (res\<lparr>sr_stop_loop := True\<rparr>)
      else if line = ''STOP_WORKFLOW'' then Inr (res\<lparr>sr_stop_workflow := True\<rparr>)
      else if prefix ''B64:'' line then
        (case cut ''='' (trim_prefix ''B64:'' line) of
           None \<Rightarrow> Inl (MalformedEntry line)
         | Some (k, v) \<Rightarrow>
             if k = [] then Inl (MalformedEntry line)
             else case b64_decode v of
                    None \<Rightarrow> Inl (Base64Failed k)
                  | Some decoded \<Rightarrow> put_produced k decoded res)
      else
        (case cut ''='' line of
           None \<Rightarrow> Inr res
         | Some (k, v) \<Rightarrow> if k = [] then Inr res else put_produced k v res))"

fun shell_control_lines :: "string list \<Rightarrow> shell_control_result \<Rightarrow> protocol_error + shell_control_result" where
  "shell_control_lines [] res = Inr res"
| "shell_control_lines (l # ls) res =
     (case shell_control_line l res of Inl e \<Rightarrow> Inl e | Inr res \<Rightarrow> shell_control_lines ls res)"

text \<open>The declared names that were not produced, in the order of \<open>sort.Strings\<close>.\<close>

definition missing_declared :: "vars \<Rightarrow> string list \<Rightarrow> string list" where
  "missing_declared produced declared = sort (filter (\<lambda>n. aget produced n = None) declared)"

definition parse_shell_control :: "string \<Rightarrow> string list \<Rightarrow> protocol_error + shell_control_result" where
  "parse_shell_control body declared =
     (case shell_control_lines (split_char newline_char body)
             \<lparr> sr_variables = [], sr_stop_loop = False, sr_stop_workflow = False \<rparr> of
        Inl e \<Rightarrow> Inl e
      | Inr res \<Rightarrow>
          let missing = missing_declared (sr_variables res) declared in
          if missing \<noteq> [] then Inl (MissingDeclared missing) else Inr res)"

subsection \<open>ParseQuartetOutput\<close>

definition output_marker :: string where "output_marker = ''QUARTET_OUTPUT:''"
definition output_begin_marker :: string where "output_begin_marker = ''QUARTET_OUTPUT_BEGIN:''"
definition output_end_marker :: string where "output_end_marker = ''QUARTET_OUTPUT_END:''"

lemmas marker_defs = output_marker_def output_begin_marker_def output_end_marker_def

lemma index_of_bound: "index_of p s = Some i \<Longrightarrow> i + length p \<le> length s"
  using index_of_Some [of p s i] by simp

definition trim_right_cr :: "string \<Rightarrow> string" where
  "trim_right_cr s = rev (dropWhile (\<lambda>c. c = CHR 0x0D) (rev s))"

function parse_legacy_line :: "string \<Rightarrow> vars \<Rightarrow> protocol_error + vars" where
  "parse_legacy_line line parsed =
     (case index_of output_marker line of
        None \<Rightarrow> Inr parsed
      | Some at \<Rightarrow>
          let rest = drop (at + length output_marker) line;
              body_end = (case index_of output_marker rest of None \<Rightarrow> length rest | Some i \<Rightarrow> i)
          in case cut ''='' (trim_right_cr (take body_end rest)) of
               None \<Rightarrow> Inl (MalformedEntry (take (length output_marker + body_end) (drop at line)))
             | Some (name, val) \<Rightarrow>
                 let name = trim_space name in
                 case check_produced_name name of
                   Some e \<Rightarrow> Inl e
                 | None \<Rightarrow>
                     let parsed = aput name val parsed in
                     if body_end = length rest then Inr parsed
                     else parse_legacy_line (drop body_end rest) parsed)"
  by pat_completeness auto
termination
  by (relation "measure (\<lambda>(line, parsed). length line)") (auto simp: marker_defs dest!: index_of_bound)

declare parse_legacy_line.simps [simp del]

definition first_output_marker :: "string \<Rightarrow> nat option" where
  "first_output_marker v =
     fold (\<lambda>m first. case index_of m v of
             None \<Rightarrow> first
           | Some at \<Rightarrow> (case first of None \<Rightarrow> Some at | Some f \<Rightarrow> if at < f then Some at else first))
       [output_begin_marker, output_end_marker, output_marker] None"

text \<open>
  The search for the end of an open block: the value lines before the closing line, what follows
  the closing name on that line, and the lines after it; or the lines from a restart on.
\<close>

datatype block_end =
    BlockEnd "string list" string "string list"
  | BlockRestart "string list"
  | BlockError protocol_error

fun scan_block :: "string \<Rightarrow> string list \<Rightarrow> string list \<Rightarrow> block_end" where
  "scan_block name [] vals = BlockError (MissingEnd name)"
| "scan_block name (raw # rest) vals =
     (let line = trim_suffix [CHR 0x0D] raw; trimmed = trim_space line in
      if prefix output_end_marker trimmed then
        (let closing_body = trim_space (trim_prefix output_end_marker trimmed);
             (closing, remainder) =
               (case first_output_marker closing_body of
                  None \<Rightarrow> (closing_body, [])
                | Some at \<Rightarrow> (trim_space (take at closing_body), drop at closing_body))
         in if closing \<noteq> name then BlockError (MismatchedEnd name closing)
            else BlockEnd vals remainder rest)
      else if prefix output_begin_marker trimmed then
        (if trim_space (trim_prefix output_begin_marker trimmed) = name
         then BlockRestart (raw # rest) else BlockError (NestedBegin name))
      else scan_block name rest (vals @ [line]))"

lemma scan_block_shorter:
  "scan_block name ls vals = BlockEnd vs r rest \<Longrightarrow> length rest < length ls"
  "scan_block name ls vals = BlockRestart rest \<Longrightarrow> length rest \<le> length ls"
  by (induction name ls vals rule: scan_block.induct) (auto simp: Let_def split: if_splits prod.splits intro: less_SucI le_SucI)

function parse_output_lines :: "string list \<Rightarrow> vars \<Rightarrow> protocol_error + vars" where
  "parse_output_lines [] parsed = Inr parsed"
| "parse_output_lines (raw # lines) parsed =
     (let line = trim_suffix [CHR 0x0D] raw in
      case index_of output_begin_marker line of
        Some at \<Rightarrow>
          let pre = take at line; trimmed_pre = trim_space pre in
          if prefix output_end_marker trimmed_pre
          then Inl (UnexpectedEnd (trim_space (trim_prefix output_end_marker trimmed_pre)))
          else (case parse_legacy_line pre parsed of
            Inl e \<Rightarrow> Inl e
          | Inr parsed \<Rightarrow>
              let name = trim_space (drop (at + length output_begin_marker) line) in
              case check_produced_name name of
                Some e \<Rightarrow> Inl e
              | None \<Rightarrow>
                  (case scan_block name lines [] of
                     BlockError e \<Rightarrow> Inl e
                   | BlockRestart rest \<Rightarrow> parse_output_lines rest parsed
                   | BlockEnd vals remainder rest \<Rightarrow>
                       let parsed = aput name (join [newline_char] vals) parsed in
                       if remainder \<noteq> [] then parse_output_lines (remainder # rest) parsed
                       else parse_output_lines rest parsed))
      | None \<Rightarrow>
          let trimmed = trim_space line in
          if prefix output_end_marker trimmed
          then Inl (UnexpectedEnd (trim_space (trim_prefix output_end_marker trimmed)))
          else (case parse_legacy_line line parsed of
                  Inl e \<Rightarrow> Inl e
                | Inr parsed \<Rightarrow> parse_output_lines lines parsed))"
  by pat_completeness auto
termination
  by (relation "measure (\<lambda>(ls, parsed). length ls)")
    (auto dest!: scan_block_shorter simp: less_Suc_eq_le)

declare parse_output_lines.simps(2) [simp del]

definition parse_quartet_output :: "string \<Rightarrow> string list \<Rightarrow> protocol_error + vars" where
  "parse_quartet_output raw declared =
     (case parse_output_lines (split_char newline_char raw) [] of
        Inl e \<Rightarrow> Inl e
      | Inr parsed \<Rightarrow>
          let missing = missing_declared parsed declared in
          if missing \<noteq> [] then Inl (MissingDeclared missing) else Inr parsed)"

subsection \<open>Placeholder substitution\<close>

text \<open>\<open>strings.NewReplacer\<close> with several old strings: at each position the first pair, in argument
  order, whose old string stands there is replaced, and the scan goes on behind it.\<close>

function replace_all :: "(string \<times> string) list \<Rightarrow> string \<Rightarrow> string" where
  "replace_all pairs [] = []"
| "replace_all pairs (c # cs) =
     (case find (\<lambda>(old, new). old \<noteq> [] \<and> prefix old (c # cs)) pairs of
        Some (old, new) \<Rightarrow> new @ replace_all pairs (drop (length old) (c # cs))
      | None \<Rightarrow> c # replace_all pairs cs)"
  by pat_completeness auto
termination
proof (relation "measure (\<lambda>(pairs, s). length s)", simp_all, goal_cases)
  case (1 pairs c cs x old new)
  then have "old \<noteq> []" by (auto simp: find_Some_iff)
  then show ?case by (cases old) auto
qed

declare replace_all.simps(2) [simp del]

definition placeholder :: "string \<Rightarrow> string" where
  "placeholder k = ''{{'' @ k @ ''}}''"

definition replacement_pairs :: "vars \<Rightarrow> string list \<Rightarrow> (string \<times> string) list" where
  "replacement_pairs vs disabled =
     map (\<lambda>(k, v). if k \<in> set disabled then (placeholder k, []) else (placeholder k, v)) vs
     @ map (\<lambda>k. (placeholder k, [])) (filter (\<lambda>k. aget vs k = None) disabled)"

definition substitute_variables :: "string \<Rightarrow> vars \<Rightarrow> string list \<Rightarrow> string" where
  "substitute_variables text vs disabled =
     (if vs = [] \<and> disabled = [] then text else replace_all (replacement_pairs vs disabled) text)"

subsection \<open>Names\<close>

definition name_char :: "char \<Rightarrow> bool" where
  "name_char c \<longleftrightarrow> is_ascii_letter (byte c) \<or> byte c = 0x5F \<or> is_ascii_digit (byte c)"

lemma name_char_props:
  "name_char c \<Longrightarrow> graphic c \<and> c \<noteq> CHR ''='' \<and> c \<noteq> CHR '':'' \<and> c \<noteq> CHR ''{'' \<and> c \<noteq> CHR ''}'' \<and> c \<noteq> newline_char \<and> c \<noteq> CHR 0x0D"
  by (auto simp: name_char_def is_ascii_letter_def is_ascii_digit_def graphic_def)

lemma decode_rune_ascii: "fst (decode_rune (c # cs)) < 0x80 \<Longrightarrow> byte c < 0x80"
  by (auto simp: in_range_def Let_def split: if_splits list.splits)

lemma runes_of_all_ascii:
  "list_all (\<lambda>r. r < 0x80) (runes_of s) \<Longrightarrow> runes_of s = map byte s"
proof (induction s)
  case (Cons c s)
  have "runes_of (c # s) = fst (decode_rune (c # s)) # runes_of (drop (snd (decode_rune (c # s))) (c # s))"
    by (subst runes_of.simps) simp
  with Cons.prems have "byte c < 0x80" by (auto intro: decode_rune_ascii)
  with Cons show ?case by (simp add: runes_of_ascii)
qed simp

lemma valid_name_chars:
  assumes "is_valid_var_name s"
  shows "s \<noteq> [] \<and> (\<forall>c \<in> set s. name_char c)"
proof -
  obtain r rs where r: "runes_of s = r # rs" "is_ascii_letter r \<or> r = 0x5F"
    "list_all (\<lambda>q. is_ascii_letter q \<or> q = 0x5F \<or> is_ascii_digit q) rs"
    using assms by (cases "runes_of s") (auto simp: is_valid_var_name_def)
  then have "list_all (\<lambda>r. r < 0x80) (runes_of s)"
    by (auto simp: is_ascii_letter_def is_ascii_digit_def list_all_iff)
  then have m: "runes_of s = map byte s" by (rule runes_of_all_ascii)
  have "name_char c" if "c \<in> set s" for c
  proof -
    have "byte c \<in> set (r # rs)" using that m r(1) by (metis image_eqI set_map)
    with r(2,3) show ?thesis by (auto simp: name_char_def list_all_iff)
  qed
  moreover have "s \<noteq> []" using r(1) by auto
  ultimately show ?thesis by blast
qed

lemma valid_name_graphic:
  "is_valid_var_name s \<Longrightarrow> s \<noteq> [] \<and> graphic (hd s) \<and> graphic (last s) \<and> trim_space s = s"
  using valid_name_chars [of s] name_char_props trim_space_graphic [of s] by auto

definition produced_ok :: "vars \<Rightarrow> bool" where
  "produced_ok vs \<longleftrightarrow> (\<forall>k \<in> set (akeys vs). check_produced_name k = None)"

lemma check_None: "check_produced_name k = None \<longleftrightarrow> \<not> is_reserved_var k \<and> is_valid_var_name k"
  by (simp add: check_produced_name_def)

lemma produced_ok_aput: "produced_ok vs \<Longrightarrow> check_produced_name k = None \<Longrightarrow> produced_ok (aput k v vs)"
  by (simp add: produced_ok_def)

lemma missing_Nil: "missing_declared vs ds = [] \<longleftrightarrow> (\<forall>d \<in> set ds. aget vs d \<noteq> None)"
proof -
  have "missing_declared vs ds = [] \<longleftrightarrow> set (missing_declared vs ds) = {}" by simp
  then show ?thesis by (auto simp: missing_declared_def)
qed

subsection \<open>Shell control files\<close>

lemma put_produced_ok:
  "put_produced k v res = Inr res' \<Longrightarrow> produced_ok (sr_variables res) \<Longrightarrow> produced_ok (sr_variables res')"
  by (auto simp: put_produced_def produced_ok_aput split: option.splits)

lemma shell_control_line_ok:
  "shell_control_line l res = Inr res' \<Longrightarrow> produced_ok (sr_variables res) \<Longrightarrow> produced_ok (sr_variables res')"
  by (auto simp: shell_control_line_def Let_def put_produced_ok split: if_splits option.splits prod.splits)

lemma shell_control_lines_ok:
  "shell_control_lines ls res = Inr res' \<Longrightarrow> produced_ok (sr_variables res) \<Longrightarrow> produced_ok (sr_variables res')"
  by (induction ls res rule: shell_control_lines.induct)
    (auto split: sum.splits dest: shell_control_line_ok)

lemma shell_control_lines_append:
  "shell_control_lines (xs @ ys) res = (case shell_control_lines xs res of Inl e \<Rightarrow> Inl e
     | Inr res \<Rightarrow> shell_control_lines ys res)"
  by (induction xs arbitrary: res) (auto split: sum.splits)

text \<open>The line \<open>quartet_set\<close> appends.\<close>

definition quartet_set_line :: "string \<times> string \<Rightarrow> string" where
  "quartet_set_line kv = ''B64:'' @ fst kv @ ''='' @ b64_encode (snd kv)"

lemma quartet_set_line_graphic:
  assumes "is_valid_var_name k"
  shows "trim_space (quartet_set_line (k, v)) = quartet_set_line (k, v)"
proof -
  have "\<forall>c \<in> set (quartet_set_line (k, v)). graphic c"
    using valid_name_chars [OF assms] name_char_props b64_encode_graphic
    by (auto simp: quartet_set_line_def) (simp_all add: graphic_def)
  moreover have "quartet_set_line (k, v) \<noteq> []" by (simp add: quartet_set_line_def)
  ultimately show ?thesis by (intro trim_space_graphic) auto
qed

lemma quartet_set_line_step:
  assumes "check_produced_name k = None"
  shows "shell_control_line (quartet_set_line (k, v)) res
    = Inr (res\<lparr>sr_variables := aput k v (sr_variables res)\<rparr>)"
proof -
  have valid: "is_valid_var_name k" using assms by (simp add: check_None)
  then have k: "k \<noteq> []" "CHR ''='' \<notin> set k"
    using valid_name_chars [of k] name_char_props by auto
  have "cut ''='' (trim_prefix ''B64:'' (quartet_set_line (k, v))) = Some (k, b64_encode v)"
    using cut_first [OF k(2), of "b64_encode v"] by (simp add: quartet_set_line_def trim_prefix_def)
  moreover have "prefix ''B64:'' (quartet_set_line (k, v))" by (simp add: quartet_set_line_def)
  moreover have "quartet_set_line (k, v) \<noteq> ''STOP_LOOP''" "quartet_set_line (k, v) \<noteq> ''STOP_WORKFLOW''"
    by (simp_all add: quartet_set_line_def)
  ultimately show ?thesis
    using k assms quartet_set_line_graphic [OF valid, of v]
    by (auto simp: shell_control_line_def Let_def b64_round_trip put_produced_def)
qed

text \<open>The helpers a script may call, and the line each one appends to the control file.\<close>

datatype helper_call = QuartetSet string string | QuartetBreak | QuartetReturn

fun helper_line :: "helper_call \<Rightarrow> string" where
  "helper_line (QuartetSet k v) = quartet_set_line (k, v)"
| "helper_line QuartetBreak = ''STOP_LOOP''"
| "helper_line QuartetReturn = ''STOP_WORKFLOW''"

fun helper_effect :: "helper_call \<Rightarrow> shell_control_result \<Rightarrow> shell_control_result" where
  "helper_effect (QuartetSet k v) res = res\<lparr>sr_variables := aput k v (sr_variables res)\<rparr>"
| "helper_effect QuartetBreak res = res\<lparr>sr_stop_loop := True\<rparr>"
| "helper_effect QuartetReturn res = res\<lparr>sr_stop_workflow := True\<rparr>"

fun helper_ok :: "helper_call \<Rightarrow> bool" where
  "helper_ok (QuartetSet k v) = (check_produced_name k = None)"
| "helper_ok _ = True"

definition write_control :: "helper_call list \<Rightarrow> string" where
  "write_control calls = concat (map (\<lambda>c. helper_line c @ [newline_char]) calls)"

lemma stop_lines:
  "trim_space ''STOP_LOOP'' = ''STOP_LOOP''" "trim_space ''STOP_WORKFLOW'' = ''STOP_WORKFLOW''"
  by (rule trim_space_graphic; simp add: graphic_def)+

lemma helper_line_step: "helper_ok c \<Longrightarrow> shell_control_line (helper_line c) res = Inr (helper_effect c res)"
  by (cases c) (simp_all add: quartet_set_line_step, simp_all add: shell_control_line_def stop_lines Let_def)

lemma helper_lines:
  "list_all helper_ok calls \<Longrightarrow>
   shell_control_lines (map helper_line calls) res = Inr (fold helper_effect calls res)"
  by (induction calls arbitrary: res) (simp_all add: helper_line_step)

lemma helper_line_no_newline: "helper_ok c \<Longrightarrow> newline_char \<notin> set (helper_line c)"
  using valid_name_chars name_char_props b64_encode_graphic
  by (cases c) (auto simp: quartet_set_line_def check_None graphic_def, fastforce+)

lemma split_lines:
  "\<forall>l \<in> set ls. newline_char \<notin> set l \<Longrightarrow>
   split_char newline_char (concat (map (\<lambda>l. l @ [newline_char]) ls)) = ls @ [[]]"
  by (induction ls) (simp_all add: split_char_append_sep split_char_no_sep)

lemma write_control_lines:
  "list_all helper_ok calls \<Longrightarrow> split_char newline_char (write_control calls) = map helper_line calls @ [[]]"
  using split_lines [of "map helper_line calls"] helper_line_no_newline
  by (auto simp: write_control_def list_all_iff comp_def)

lemma shell_round_trip:
  assumes "list_all helper_ok calls"
  shows "parse_shell_control (write_control calls) declared =
    (let res = fold helper_effect calls \<lparr> sr_variables = [], sr_stop_loop = False, sr_stop_workflow = False \<rparr>;
         missing = missing_declared (sr_variables res) declared
     in if missing \<noteq> [] then Inl (MissingDeclared missing) else Inr res)"
  using assms
  by (simp add: parse_shell_control_def write_control_lines shell_control_lines_append helper_lines
      shell_control_line_def Let_def)

subsection \<open>Blocks in a model's answer\<close>

lemma parse_legacy_ok:
  "parse_legacy_line l vs = Inr vs' \<Longrightarrow> produced_ok vs \<Longrightarrow> produced_ok vs'"
proof (induction l arbitrary: vs rule: length_induct)
  case (1 line)
  show ?case
  proof (cases "index_of output_marker line")
    case None
    with 1 show ?thesis by (subst (asm) parse_legacy_line.simps) simp
  next
    case (Some at)
    have shorter: "length (drop i (drop (at + length output_marker) line)) < length line" for i
      using index_of_bound [OF Some] by (simp add: output_marker_def)
    note IH = "1.IH" [rule_format, OF shorter]
    show ?thesis
      using "1.prems" Some
      by (subst (asm) parse_legacy_line.simps)
        (auto simp: Let_def produced_ok_aput simp del: drop_drop split: option.splits if_splits dest!: IH)
  qed
qed

lemma parse_output_ok:
  "parse_output_lines ls vs = Inr vs' \<Longrightarrow> produced_ok vs \<Longrightarrow> produced_ok vs'"
proof (induction ls arbitrary: vs rule: length_induct)
  case (1 ls)
  show ?case
  proof (cases ls)
    case (Cons raw lines)
    have IH: "parse_output_lines ys ws = Inr vs' \<Longrightarrow> produced_ok ws \<Longrightarrow> produced_ok vs'"
      if "length ys \<le> length lines" for ys ws
      using "1.IH" that Cons by (metis le_imp_less_Suc length_Cons)
    have short: "scan_block name lines [] = BlockEnd v r rest \<Longrightarrow> length (r # rest) \<le> length lines \<and> length rest \<le> length lines"
      "scan_block name lines [] = BlockRestart rest \<Longrightarrow> length rest \<le> length lines" for name v r rest
      using scan_block_shorter [of name lines "[]"] by fastforce+
    show ?thesis
      using "1.prems" unfolding Cons
      by (subst (asm) parse_output_lines.simps)
        (auto simp: Let_def produced_ok_aput split: option.splits if_splits sum.splits block_end.splits
          dest!: short parse_legacy_ok dest: IH IH [OF order_refl])
  qed (use 1 in simp)
qed

text \<open>A value survives when no line of it ends in a carriage return or looks like a marker.\<close>

definition plain_line :: "string \<Rightarrow> bool" where
  "plain_line l \<longleftrightarrow> \<not> suffix [CHR 0x0D] l
     \<and> \<not> prefix output_end_marker (trim_space l) \<and> \<not> prefix output_begin_marker (trim_space l)"

definition block_lines :: "string \<times> string \<Rightarrow> string list" where
  "block_lines kv = (output_begin_marker @ fst kv)
     # split_char newline_char (snd kv) @ [output_end_marker @ fst kv]"

definition block_ok :: "string \<times> string \<Rightarrow> bool" where
  "block_ok kv \<longleftrightarrow> check_produced_name (fst kv) = None
     \<and> list_all plain_line (split_char newline_char (snd kv))"

lemma no_colon_no_marker: "CHR '':'' \<notin> set s \<Longrightarrow> m \<in> {output_begin_marker, output_end_marker, output_marker} \<Longrightarrow> index_of m s = None"
proof (rule ccontr)
  assume c: "CHR '':'' \<notin> set s" and m: "m \<in> {output_begin_marker, output_end_marker, output_marker}"
    and "index_of m s \<noteq> None"
  then obtain i where "prefix m (drop i s)" using index_of_Some by fastforce
  then have "set m \<subseteq> set s" by (auto dest: set_mono_prefix in_set_dropD)
  moreover have "CHR '':'' \<in> set m" using m by (auto simp: marker_defs)
  ultimately show False using c by auto
qed

lemma no_cr_trim: "\<not> suffix [CHR 0x0D] l \<Longrightarrow> trim_suffix [CHR 0x0D] l = l"
  by (simp add: trim_suffix_def)

lemma marked_line:
  assumes "is_valid_var_name k" "m \<in> {output_begin_marker, output_end_marker}"
  shows "trim_suffix [CHR 0x0D] (m @ k) = m @ k \<and> trim_space (m @ k) = m @ k"
proof -
  have k: "k \<noteq> []" "last k \<noteq> CHR 0x0D" "graphic (last k)"
    using valid_name_chars [OF assms(1)] name_char_props by (auto simp: last_in_set)
  then have "\<not> suffix [CHR 0x0D] (m @ k)" unfolding suffix_def by (metis last_appendR last_snoc)
  moreover have "trim_space (m @ k) = m @ k"
    using k assms(2) by (intro trim_space_graphic) (auto simp: marker_defs graphic_def)
  ultimately show ?thesis by (simp add: no_cr_trim)
qed

lemma scan_block_value:
  assumes "list_all plain_line ls" "is_valid_var_name k"
  shows "scan_block k (ls @ (output_end_marker @ k) # rest) vals = BlockEnd (vals @ ls) [] rest"
  using assms(1)
proof (induction ls arbitrary: vals)
  case Nil
  have "CHR '':'' \<notin> set k" using valid_name_chars [OF assms(2)] name_char_props by auto
  then have "first_output_marker k = None"
    by (simp add: first_output_marker_def no_colon_no_marker)
  then show ?case
    using marked_line [OF assms(2), of output_end_marker] valid_name_graphic [OF assms(2)]
    by (simp add: Let_def trim_prefix_def)
next
  case (Cons l ls)
  then show ?case by (auto simp: plain_line_def no_cr_trim Let_def)
qed

lemma parse_block_step:
  assumes "block_ok kv"
  shows "parse_output_lines (block_lines kv @ rest) vs = parse_output_lines rest (aput (fst kv) (snd kv) vs)"
proof -
  obtain k v where kv: "kv = (k, v)" by fastforce
  with assms have k: "check_produced_name k = None" "is_valid_var_name k"
    and v: "list_all plain_line (split_char newline_char v)" by (auto simp: block_ok_def check_None)
  have at: "index_of output_begin_marker (output_begin_marker @ k) = Some 0" by (rule index_of_self)
  have leg: "parse_legacy_line [] vs = Inr vs"
    by (subst parse_legacy_line.simps) (simp add: output_marker_def)
  show ?thesis
    using marked_line [OF k(2), of output_begin_marker] valid_name_graphic [OF k(2)]
      scan_block_value [OF v k(2), of rest "[]"] k(1)
    by (simp add: kv block_lines_def parse_output_lines.simps(2) at leg join_split Let_def)
      (simp add: output_end_marker_def)
qed

lemma parse_blocks:
  "list_all block_ok kvs \<Longrightarrow>
   parse_output_lines (concat (map block_lines kvs) @ rest) vs
     = parse_output_lines rest (fold (\<lambda>(k, v) m. aput k v m) kvs vs)"
  by (induction kvs arbitrary: vs) (auto simp: parse_block_step split: prod.splits)

text \<open>Lines of an answer that no part of the protocol reads.\<close>

definition quiet_line :: "string \<Rightarrow> bool" where
  "quiet_line l \<longleftrightarrow> newline_char \<notin> set l \<and> \<not> suffix [CHR 0x0D] l
     \<and> index_of output_begin_marker l = None \<and> index_of output_marker l = None
     \<and> \<not> prefix output_end_marker (trim_space l)"

definition write_answer :: "string list \<Rightarrow> (string \<times> string) list \<Rightarrow> string" where
  "write_answer pre kvs = concat (map (\<lambda>l. l @ [newline_char]) (pre @ concat (map block_lines kvs)))"

lemma parse_quiet:
  "list_all quiet_line pre \<Longrightarrow> parse_output_lines (pre @ rest) vs = parse_output_lines rest vs"
  by (induction pre)
    (auto simp: parse_output_lines.simps(2) quiet_line_def no_cr_trim Let_def parse_legacy_line.simps)

lemma write_answer_lines:
  assumes "list_all quiet_line pre" "list_all block_ok kvs"
  shows "split_char newline_char (write_answer pre kvs) = pre @ concat (map block_lines kvs) @ [[]]"
proof -
  have name: "newline_char \<notin> set (m @ k)" if "is_valid_var_name k" "newline_char \<notin> set m" for m k
    using valid_name_chars [OF that(1)] name_char_props that(2) by auto
  have "newline_char \<notin> set l" if "block_ok kv" "l \<in> set (block_lines kv)" for kv l
    using that name [of "fst kv" output_begin_marker] name [of "fst kv" output_end_marker]
    by (auto simp: block_lines_def block_ok_def check_None marker_defs dest: split_char_pieces)
  then have "\<forall>l \<in> set (pre @ concat (map block_lines kvs)). newline_char \<notin> set l"
    using assms by (auto simp: list_all_iff quiet_line_def)
  from split_lines [OF this] show ?thesis by (simp add: write_answer_def)
qed

lemma parse_last_line: "parse_output_lines [[]] vs = Inr vs"
  by (simp add: parse_output_lines.simps(2) parse_legacy_line.simps trim_suffix_def marker_defs Let_def)

lemma answer_round_trip:
  assumes "list_all quiet_line pre" "list_all block_ok kvs"
  shows "parse_quartet_output (write_answer pre kvs) declared =
    (let parsed = fold (\<lambda>(k, v) m. aput k v m) kvs []; missing = missing_declared parsed declared
     in if missing \<noteq> [] then Inl (MissingDeclared missing) else Inr parsed)"
  using assms
  by (simp add: parse_quartet_output_def write_answer_lines parse_quiet parse_blocks parse_last_line
      Let_def)

subsection \<open>Substitution\<close>

text \<open>A template: literal text without an opening brace, and references to variables.\<close>

datatype segment = Literal string | Ref string

fun segment_ok :: "segment \<Rightarrow> bool" where
  "segment_ok (Literal s) = (CHR ''{'' \<notin> set s)"
| "segment_ok (Ref k) = is_valid_var_name k"

fun segment_text :: "segment \<Rightarrow> string" where
  "segment_text (Literal s) = s"
| "segment_text (Ref k) = placeholder k"

fun segment_value :: "vars \<Rightarrow> string list \<Rightarrow> segment \<Rightarrow> string" where
  "segment_value vs disabled (Literal s) = s"
| "segment_value vs disabled (Ref k) =
     (if k \<in> set disabled then []
      else case aget vs k of Some v \<Rightarrow> v | None \<Rightarrow> placeholder k)"

definition template_text :: "segment list \<Rightarrow> string" where
  "template_text segs = concat (map segment_text segs)"

definition names_ok :: "vars \<Rightarrow> string list \<Rightarrow> bool" where
  "names_ok vs disabled \<longleftrightarrow> (\<forall>k \<in> set (akeys vs) \<union> set disabled. is_valid_var_name k)"

lemma valid_name_no_brace: "is_valid_var_name k \<Longrightarrow> CHR ''}'' \<notin> set k \<and> CHR ''{'' \<notin> set k"
  using valid_name_chars name_char_props by blast

lemma placeholder_prefix:
  assumes "CHR ''}'' \<notin> set k" "CHR ''}'' \<notin> set j"
  shows "prefix (placeholder j) (placeholder k @ s) \<longleftrightarrow> j = k"
proof
  assume "prefix (placeholder j) (placeholder k @ s)"
  then obtain t where "j @ CHR ''}'' # CHR ''}'' # t = k @ CHR ''}'' # CHR ''}'' # s"
    by (auto simp: placeholder_def prefix_def)
  then have "takeWhile (\<lambda>c. c \<noteq> CHR ''}'') (j @ CHR ''}'' # CHR ''}'' # t)
      = takeWhile (\<lambda>c. c \<noteq> CHR ''}'') (k @ CHR ''}'' # CHR ''}'' # s)" by simp
  moreover have "takeWhile (\<lambda>c. c \<noteq> CHR ''}'') (x @ CHR ''}'' # r) = x" if "CHR ''}'' \<notin> set x" for x r
    using that by (induction x) auto
  ultimately show "j = k" using assms by simp
qed (simp add: placeholder_def)

text \<open>What is replaced at a position is decided by the name that stands there.\<close>

definition lookup_pair :: "vars \<Rightarrow> string list \<Rightarrow> string \<Rightarrow> string option" where
  "lookup_pair vs disabled k =
     (if k \<in> set disabled then Some [] else aget vs k)"

definition match_at :: "string \<Rightarrow> string \<times> string \<Rightarrow> bool" where
  "match_at s p \<longleftrightarrow> (case p of (old, new) \<Rightarrow> old \<noteq> [] \<and> prefix old s)"

lemma match_at_eq: "match_at s = (\<lambda>(old, new). old \<noteq> [] \<and> prefix old s)"
  by (rule ext) (simp add: match_at_def split: prod.splits)

lemma replace_all_step:
  "s \<noteq> [] \<Longrightarrow> replace_all pairs s =
     (case find (match_at s) pairs of
        Some (old, new) \<Rightarrow> new @ replace_all pairs (drop (length old) s)
      | None \<Rightarrow> hd s # replace_all pairs (tl s))"
  by (cases s) (auto simp: match_at_eq replace_all.simps(2) split: option.splits)

lemma find_key: "find (\<lambda>e. fst e = k) m = map_option (Pair k) (aget m k)"
  by (induction m) auto

lemma find_cong_set: "(\<And>x. x \<in> set xs \<Longrightarrow> P x = Q x) \<Longrightarrow> find P xs = find Q xs"
  by (induction xs) auto

lemma find_map_eq: "find P (map f xs) = map_option f (find (P \<circ> f) xs)"
  by (induction xs) auto

lemma find_placeholder:
  assumes "names_ok vs disabled" "is_valid_var_name k"
  shows "find (match_at (placeholder k @ s)) (replacement_pairs vs disabled)
    = map_option (Pair (placeholder k)) (lookup_pair vs disabled k)"
proof -
  let ?m = "match_at (placeholder k @ s)"
  have hit: "?m (placeholder j, v) \<longleftrightarrow> j = k" if "is_valid_var_name j" for j v
    using placeholder_prefix [of k j s] valid_name_no_brace that assms(2)
    by (auto simp: match_at_def placeholder_def)
  let ?f = "\<lambda>(k, v). if k \<in> set disabled then (placeholder k, []) else (placeholder k, v)"
  have 1: "find (?m \<circ> ?f) vs = find (\<lambda>e. fst e = k) vs"
    using assms(1) hit by (intro find_cong_set) (force simp: names_ok_def akeys_def)
  let ?off = "filter (\<lambda>k. aget vs k = None) disabled"
  have 2: "find (?m \<circ> (\<lambda>k. (placeholder k, []))) ?off = find (\<lambda>j. j = k) ?off"
    using assms(1) hit by (intro find_cong_set) (auto simp: names_ok_def)
  have 3: "find (\<lambda>j. j = k) ?off = (if k \<in> set ?off then Some k else None)"
    by (induction disabled) auto
  have app: "find P (xs @ ys) = (case find P xs of None \<Rightarrow> find P ys | Some x \<Rightarrow> Some x)"
    for P and xs ys :: "'b list" by (induction xs) auto
  show ?thesis
    unfolding replacement_pairs_def app find_map_eq 1 2 3 find_key
    by (auto simp: lookup_pair_def split: option.splits)
qed

lemma find_none:
  "\<not> prefix ''{{'' s \<Longrightarrow> find (match_at s) (replacement_pairs vs disabled) = None"
proof -
  assume no: "\<not> prefix ''{{'' s"
  have "\<not> prefix (placeholder j) s" for j
    using no by (auto simp: placeholder_def prefix_def)
  then show ?thesis
    by (auto simp: find_None_iff replacement_pairs_def match_at_def split: if_splits)
qed

lemma replace_literal:
  "CHR ''{'' \<notin> set l \<Longrightarrow> replace_all (replacement_pairs vs disabled) (l @ s)
     = l @ replace_all (replacement_pairs vs disabled) s"
  by (induction l) (simp_all add: replace_all_step find_none)

lemma replace_placeholder:
  assumes "names_ok vs disabled" "is_valid_var_name k"
  shows "replace_all (replacement_pairs vs disabled) (placeholder k @ s)
    = segment_value vs disabled (Ref k) @ replace_all (replacement_pairs vs disabled) s"
proof (cases "lookup_pair vs disabled k")
  case (Some v)
  then show ?thesis using find_placeholder [OF assms, of s]
    by (subst replace_all_step) (auto simp: placeholder_def lookup_pair_def split: if_splits)
next
  case None
  let ?r = "replace_all (replacement_pairs vs disabled)"
  have no: "CHR ''{'' \<notin> set (k @ ''}}'')" and k: "k \<noteq> []"
    using valid_name_no_brace [OF assms(2)] valid_name_chars [OF assms(2)] by auto
  have "\<not> prefix ''{{'' (CHR ''{'' # (k @ ''}}'') @ s)" using no k by (cases k) auto
  then have "?r (CHR ''{'' # (k @ ''}}'') @ s) = CHR ''{'' # (k @ ''}}'') @ ?r s"
    using replace_literal [OF no, of vs disabled s]
    by (subst replace_all_step) (simp_all add: find_none)
  then show ?thesis using find_placeholder [OF assms, of s] None
    by (subst replace_all_step) (auto simp: placeholder_def lookup_pair_def split: if_splits)
qed

lemma replace_template:
  "names_ok vs disabled \<Longrightarrow> list_all segment_ok segs \<Longrightarrow>
   replace_all (replacement_pairs vs disabled) (template_text segs)
     = concat (map (segment_value vs disabled) segs)"
proof (induction segs)
  case (Cons seg segs)
  then show ?case
    by (cases seg) (simp_all add: template_text_def replace_literal replace_placeholder del: segment_value.simps(2))
qed (simp add: template_text_def)

subsection \<open>Properties\<close>

text \<open>C31: for every sequence of helper calls with acceptable names, parsing the control file they
  write gives back exactly their effect: the last value of each variable and the two stop signals;
  the only failure is a declared variable that was never set.\<close>
theorem shell_helpers_round_trip:
  assumes "list_all helper_ok calls"
  shows "parse_shell_control (write_control calls) declared =
    (let res = fold helper_effect calls \<lparr> sr_variables = [], sr_stop_loop = False, sr_stop_workflow = False \<rparr>;
         missing = missing_declared (sr_variables res) declared
     in if missing \<noteq> [] then Inl (MissingDeclared missing) else Inr res)"
  by (rule shell_round_trip [OF assms])

theorem shell_helpers_round_trip_witness:
  "parse_shell_control (write_control [QuartetSet ''a'' ''x = 1'', QuartetBreak]) [''a'']
     = Inr \<lparr> sr_variables = [(''a'', ''x = 1'')], sr_stop_loop = True, sr_stop_workflow = False \<rparr>"
  using shell_helpers_round_trip [of "[QuartetSet ''a'' ''x = 1'', QuartetBreak]" "[''a'']"]
  by (simp add: check_None is_reserved_var_def is_valid_var_name_def runes_of_ascii is_ascii_letter_def
      missing_declared_def Let_def)

text \<open>whatever a script or a model writes, an accepted result holds only valid, unreserved
  names and every declared one.\<close>
theorem accepted_outputs_are_valid:
  "(case parse_shell_control body declared of
      Inl _ \<Rightarrow> True
    | Inr res \<Rightarrow> produced_ok (sr_variables res) \<and> missing_declared (sr_variables res) declared = [])
   \<and> (case parse_quartet_output body declared of
      Inl _ \<Rightarrow> True
    | Inr vs \<Rightarrow> produced_ok vs \<and> missing_declared vs declared = [])"
proof -
  have "produced_ok []" by (simp add: produced_ok_def akeys_def)
  then show ?thesis
    using parse_output_ok [of "split_char newline_char body" "[]"]
      shell_control_lines_ok [of "split_char newline_char body"]
    by (auto simp: parse_shell_control_def parse_quartet_output_def Let_def split: sum.splits)
qed

text \<open>C32: a model's answer of quiet lines followed by one block per variable parses to the values
  written, verbatim and with their newlines, the last block of a name winning.\<close>
theorem answer_blocks_round_trip:
  assumes "list_all quiet_line pre" "list_all block_ok kvs"
  shows "parse_quartet_output (write_answer pre kvs) declared =
    (let parsed = fold (\<lambda>(k, v) m. aput k v m) kvs []; missing = missing_declared parsed declared
     in if missing \<noteq> [] then Inl (MissingDeclared missing) else Inr parsed)"
  by (rule answer_round_trip [OF assms])

theorem answer_blocks_round_trip_witness:
  "parse_quartet_output (write_answer [] [(''plan'', ''a=1'')]) [''plan''] = Inr [(''plan'', ''a=1'')]"
proof -
  have "trim_space ''a=1'' = ''a=1''" by (rule trim_space_graphic) (simp_all add: graphic_def)
  then have "list_all block_ok [(''plan'', ''a=1'')]"
    by (simp add: block_ok_def plain_line_def check_None is_reserved_var_def is_valid_var_name_def
        runes_of_ascii is_ascii_letter_def marker_defs)
      (auto simp: suffix_def Cons_eq_append_conv)
  then show ?thesis
    using answer_blocks_round_trip [of "[]" "[(''plan'', ''a=1'')]" "[''plan'']"]
    by (simp add: missing_declared_def Let_def)
qed

text \<open>substitution is one pass: every reference of a template becomes its variable's value
  (empty when disabled, untouched when unknown), a value is never scanned again, and the order in
  which the variables are listed does not matter.\<close>
theorem substitution_single_pass:
  assumes "names_ok vs disabled" "list_all segment_ok segs" "distinct (akeys vs)" "mset vs' = mset vs"
  shows "substitute_variables (template_text segs) vs disabled = concat (map (segment_value vs disabled) segs)
    \<and> substitute_variables (template_text segs) vs' disabled = substitute_variables (template_text segs) vs disabled"
proof -
  have subst: "substitute_variables (template_text segs) ws disabled = concat (map (segment_value ws disabled) segs)"
    if "names_ok ws disabled" for ws
  proof (cases "ws = [] \<and> disabled = []")
    case True
    have "segment_text = segment_value [] []"
    proof
      show "segment_text seg = segment_value [] [] seg" for seg by (cases seg) simp_all
    qed
    with True show ?thesis by (simp add: substitute_variables_def template_text_def)
  next
    case False
    then show ?thesis
      by (simp only: substitute_variables_def if_False replace_template [OF that assms(2)])
  qed
  have set: "set vs' = set vs" using assms(4) by (metis set_mset_mset)
  have "distinct (akeys vs')" unfolding akeys_def
    using assms(3,4) by (metis akeys_def mset_map mset_eq_imp_distinct_iff)
  then have "aget vs' = aget vs"
    using assms(3) set by (simp add: akeys_def map_of_inject_set)
  then have "segment_value vs' disabled = segment_value vs disabled"
    by (intro ext) (metis segment_value.elims segment_value.simps)
  moreover have "names_ok vs' disabled" using assms(1) set by (simp add: names_ok_def akeys_def)
  ultimately show ?thesis using subst assms(1) by simp
qed

theorem substitution_single_pass_witness:
  "substitute_variables (template_text [Literal ''v='', Ref ''x'']) [(''x'', ''{{y}}''), (''y'', ''0'')] []
     = ''v={{y}}''"
  using substitution_single_pass
    [of "[(''x'', ''{{y}}''), (''y'', ''0'')]" "[]" "[Literal ''v='', Ref ''x'']" "[(''x'', ''{{y}}''), (''y'', ''0'')]"]
  by (simp add: names_ok_def akeys_def is_valid_var_name_def runes_of_ascii is_ascii_letter_def)

end
