(* ===== verification/GraphReach.thy ===== *)
theory GraphReach
  imports GraphCondition
begin

section \<open>The validator's index and its graph searches\<close>

text \<open>
  The indexing and search part of \<open>services/graph/validate.go\<close>: \<open>index\<close>, \<open>reachableFrom\<close>,
  the backward fixpoint of \<open>checkCanReachEnd\<close>, the depth-first cycle search and the branch
  dominators. Each search is shown to compute the relation it stands for; the interface
  \<open>edge_reachability\<close> is what the rest of the validator relies on. A Go map that the code ranges
  over is a list here, in the order of the configuration; the order of the errors of one check is
  unspecified in Go.
\<close>

subsection \<open>Violations\<close>

datatype violation =
    EmptyNodeId
  | DuplicateNode string
  | EmptyEdgeId string string
  | DuplicateEdge string
  | EdgeSourceMissing string string
  | EdgeTargetMissing string string
  | BadRunConfig string
  | ReservedVariable string string
  | InvalidVariable string string
  | DuplicateOutput string string
  | AliasReserved string string
  | AliasInvalid string string
  | AliasCollides string string
  | ClarifyInLoop string
  | UnknownNodeType string
  | NegativeTimeout string
  | ControlHasActions string
  | ControlHasOutputs string
  | NewSessionNeedsAgent string
  | MissingCondition string
  | InvalidCondition string cond_error
  | ConditionStuck string
  | RouterHasOutputs string
  | NegativeFixedCount string
  | MissingUntil string
  | InvalidUntil string cond_error
  | UnknownLoopMode string
  | MaxIterationsRange string
  | LoopHasOutputs string
  | ParentIsSelf string
  | ParentMissing string string
  | ParentNotLoop string string
  | RouterPortRequired string
  | BranchPortForbidden string
  | RouterBranches string nat nat
  | EdgeCrossesScope string
  | NoStart
  | NoEnd
  | NoBusiness
  | StartHasInEdge string
  | StartHasNoOutEdge string
  | EndHasOutEdge string
  | EndHasNoInEdge string
  | NodeHasNoInEdge string
  | NodeHasNoOutEdge string
  | NotReachable string
  | NoEndReachable
  | CannotReachEnd string
  | CycleInScope string string
  | SearchStuck string
  | EmptyLoop string
  | LoopStarts string nat
  | LoopHasNoEnd string
  | NotReachableInLoop string string
  | FirstAgentInherits string string
  | OutputConflict string string string
  | SessionConflict string string

subsection \<open>The index\<close>

record validator =
  va_cfg :: graph_config
  va_nodes :: "(string \<times> graph_node) list"
  va_edges :: "graph_edge list"

fun index_nodes :: "graph_node list \<Rightarrow> (string \<times> graph_node) list \<Rightarrow> violation list \<times> (string \<times> graph_node) list" where
  "index_nodes [] m = ([], m)"
| "index_nodes (n # ns) m =
     (if n_id n = [] then (let (es, m') = index_nodes ns m in (EmptyNodeId # es, m'))
      else if aget m (n_id n) \<noteq> None
      then (let (es, m') = index_nodes ns m in (DuplicateNode (n_id n) # es, m'))
      else index_nodes ns (m @ [(n_id n, n)]))"

text \<open>Only edges between two nodes of one scope enter the adjacency.\<close>

fun index_edges :: "(string \<times> graph_node) list \<Rightarrow> graph_edge list \<Rightarrow> string list \<Rightarrow> violation list \<times> graph_edge list" where
  "index_edges nbi [] seen = ([], [])"
| "index_edges nbi (e # es) seen =
     (if e_id e = []
      then (let (vs, ks) = index_edges nbi es seen in (EmptyEdgeId (e_source e) (e_target e) # vs, ks))
      else if e_id e \<in> set seen
      then (let (vs, ks) = index_edges nbi es seen in (DuplicateEdge (e_id e) # vs, ks))
      else let seen' = e_id e # seen in
        case aget nbi (e_source e) of
          None \<Rightarrow> (let (vs, ks) = index_edges nbi es seen' in (EdgeSourceMissing (e_id e) (e_source e) # vs, ks))
        | Some src \<Rightarrow>
            (case aget nbi (e_target e) of
               None \<Rightarrow> (let (vs, ks) = index_edges nbi es seen' in (EdgeTargetMissing (e_id e) (e_target e) # vs, ks))
             | Some dst \<Rightarrow>
                 (let (vs, ks) = index_edges nbi es seen'
                  in (vs, if n_parent src = n_parent dst then e # ks else ks))))"

definition index_config :: "graph_config \<Rightarrow> violation list \<times> validator" where
  "index_config cfg =
     (let (nvs, nodes) = index_nodes (gc_nodes cfg) [];
          (evs, edges) = index_edges nodes (gc_edges cfg) []
      in (nvs @ evs, \<lparr> va_cfg = cfg, va_nodes = nodes, va_edges = edges \<rparr>))"

definition scope_nodes :: "validator \<Rightarrow> string \<Rightarrow> graph_node list" where
  "scope_nodes v scope = filter (\<lambda>n. n_parent n = scope) (map snd (va_nodes v))"

definition scope_ids :: "validator \<Rightarrow> string list" where
  "scope_ids v = remdups (map (n_parent \<circ> snd) (va_nodes v))"

definition out_edges :: "validator \<Rightarrow> string \<Rightarrow> graph_edge list" where
  "out_edges v i = filter (\<lambda>e. e_source e = i) (va_edges v)"

definition in_deg :: "validator \<Rightarrow> string \<Rightarrow> nat" where
  "in_deg v i = length (filter (\<lambda>e. e_target e = i) (va_edges v))"

definition node_of :: "validator \<Rightarrow> string \<Rightarrow> graph_node option" where
  "node_of v i = aget (va_nodes v) i"

definition in_scope :: "validator \<Rightarrow> string \<Rightarrow> string \<Rightarrow> bool" where
  "in_scope v scope i \<longleftrightarrow> (case node_of v i of Some n \<Rightarrow> n_parent n = scope | None \<Rightarrow> False)"

lemma in_scope_known: "in_scope v scope i \<Longrightarrow> i \<in> set (akeys (va_nodes v))"
  by (auto simp: in_scope_def node_of_def akeys_aget_iff split: option.splits)

definition entries_of_scope :: "validator \<Rightarrow> string \<Rightarrow> string list" where
  "entries_of_scope v scope = map n_id (filter (\<lambda>n. n_type n = NStart) (scope_nodes v scope))"

subsection \<open>reachableFrom\<close>

definition visit_edge :: "validator \<Rightarrow> string \<Rightarrow> string \<Rightarrow> graph_edge \<Rightarrow> string list \<times> string list \<Rightarrow> string list \<times> string list" where
  "visit_edge v scope excluded e st =
     (case st of (reach, queue) \<Rightarrow>
        if e_id e = excluded then (reach, queue)
        else if in_scope v scope (e_target e) \<and> e_target e \<notin> set reach
        then (e_target e # reach, queue @ [e_target e])
        else (reach, queue))"

definition unvisited :: "validator \<Rightarrow> string list \<Rightarrow> nat" where
  "unvisited v reach = length (filter (\<lambda>i. i \<notin> set reach) (akeys (va_nodes v)))"

lemma filter_shrinks:
  "x \<in> set xs \<Longrightarrow> P x \<Longrightarrow> \<not> Q x \<Longrightarrow> (\<And>y. Q y \<Longrightarrow> P y) \<Longrightarrow> length (filter Q xs) < length (filter P xs)"
proof (induction xs)
  case (Cons y xs)
  have le: "length (filter Q ys) \<le> length (filter P ys)" for ys
    by (induction ys) (use Cons.prems(4) in auto)
  show ?case
  proof (cases "x \<in> set xs")
    case True
    with Cons show ?thesis by auto
  next
    case False
    with Cons.prems have "y = x" by simp
    with Cons.prems le [of xs] show ?thesis by (simp add: le_imp_less_Suc)
  qed
qed simp

lemma visit_edges_measure:
  "fold (visit_edge v scope ex) es (reach, queue) = (reach', queue') \<Longrightarrow>
   unvisited v reach' + length queue' \<le> unvisited v reach + length queue"
proof (induction es arbitrary: reach queue)
  case (Cons e es)
  obtain r q where step: "visit_edge v scope ex e (reach, queue) = (r, q)" by fastforce
  have "unvisited v (e_target e # reach) < unvisited v reach"
    if "in_scope v scope (e_target e)" "e_target e \<notin> set reach"
    unfolding unvisited_def using that in_scope_known by (intro filter_shrinks [of "e_target e"]) auto
  with step have "unvisited v r + length q \<le> unvisited v reach + length queue"
    by (force simp: visit_edge_def split: if_splits)
  moreover have "unvisited v reach' + length queue' \<le> unvisited v r + length q"
    using Cons.IH [of r q] Cons.prems step by simp
  ultimately show ?case by simp
qed simp

function bfs :: "validator \<Rightarrow> string \<Rightarrow> string \<Rightarrow> string list \<Rightarrow> string list \<Rightarrow> string list" where
  "bfs v scope excluded reach [] = reach"
| "bfs v scope excluded reach (cur # queue) =
     (let (reach', queue') = fold (visit_edge v scope excluded) (out_edges v cur) (reach, queue)
      in bfs v scope excluded reach' queue')"
  by pat_completeness auto
termination
proof (relation "measure (\<lambda>(v, scope, ex, reach, queue). unvisited v reach + length queue)", simp)
  fix v scope ex reach cur queue x reach' queue'
  assume "x = fold (visit_edge v scope ex) (out_edges v cur) (reach, queue)" "(reach', queue') = x"
  then have "fold (visit_edge v scope ex) (out_edges v cur) (reach, queue) = (reach', queue')" by simp
  from visit_edges_measure [OF this]
  show "((v, scope, ex, reach', queue'), v, scope, ex, reach, cur # queue)
      \<in> measure (\<lambda>(v, scope, ex, reach, queue). unvisited v reach + length queue)" by simp
qed

definition reachable_from :: "validator \<Rightarrow> string list \<Rightarrow> string \<Rightarrow> string \<Rightarrow> string list" where
  "reachable_from v entries scope excluded = bfs v scope excluded (remdups entries) (remdups entries)"

subsection \<open>What the search computes\<close>

definition scope_step :: "validator \<Rightarrow> string \<Rightarrow> string \<Rightarrow> string \<Rightarrow> string \<Rightarrow> bool" where
  "scope_step v scope excluded a b \<longleftrightarrow>
     (\<exists>e \<in> set (va_edges v). e_source e = a \<and> e_target e = b \<and> e_id e \<noteq> excluded) \<and> in_scope v scope b"

definition hits :: "validator \<Rightarrow> string \<Rightarrow> string \<Rightarrow> graph_edge list \<Rightarrow> string set" where
  "hits v scope ex es = {e_target e |e. e \<in> set es \<and> e_id e \<noteq> ex \<and> in_scope v scope (e_target e)}"

lemma hits_Nil [simp]: "hits v scope ex [] = {}"
  by (simp add: hits_def)

lemma hits_Cons: "hits v scope ex (e # es) =
    (if e_id e \<noteq> ex \<and> in_scope v scope (e_target e) then insert (e_target e) (hits v scope ex es)
     else hits v scope ex es)"
  by (auto simp: hits_def)

lemma hits_out: "y \<in> hits v scope ex (out_edges v x) \<longleftrightarrow> scope_step v scope ex x y"
  by (auto simp: hits_def out_edges_def scope_step_def)

lemma visit_edge_result:
  "visit_edge v scope ex e (reach, queue) = (r, q) \<Longrightarrow>
   set r = set reach \<union> hits v scope ex [e] \<and> set queue \<subseteq> set q \<and> set q \<union> set reach = set queue \<union> set r"
  by (auto simp: visit_edge_def hits_Cons split: if_splits)

lemma visit_edges_result:
  "fold (visit_edge v scope ex) es (reach, queue) = (reach', queue') \<Longrightarrow>
   set reach' = set reach \<union> hits v scope ex es
   \<and> set queue \<subseteq> set queue' \<and> set queue' \<union> set reach = set queue \<union> set reach'"
proof (induction es arbitrary: reach queue)
  case (Cons e es)
  obtain r q where step: "visit_edge v scope ex e (reach, queue) = (r, q)" by fastforce
  have h: "hits v scope ex (e # es) = hits v scope ex [e] \<union> hits v scope ex es" by (simp add: hits_Cons)
  have rest: "set reach' = set r \<union> hits v scope ex es \<and> set q \<subseteq> set queue' \<and> set queue' \<union> set r = set q \<union> set reach'"
    using Cons.IH [of r q] Cons.prems step by simp
  note one = visit_edge_result [OF step]
  show ?case unfolding h by (intro conjI) (use one rest in blast)+
qed simp

lemma bfs_sound:
  "(\<forall>x \<in> set reach \<union> set queue. P x) \<Longrightarrow> (\<And>x y. P x \<Longrightarrow> scope_step v scope ex x y \<Longrightarrow> P y) \<Longrightarrow>
   x \<in> set (bfs v scope ex reach queue) \<Longrightarrow> P x"
proof (induction v scope ex reach queue rule: bfs.induct)
  case (2 v scope ex reach cur queue)
  obtain r q where f: "fold (visit_edge v scope ex) (out_edges v cur) (reach, queue) = (r, q)" by fastforce
  have "P cur" using "2.prems"(1) by simp
  then have h: "\<forall>y \<in> hits v scope ex (out_edges v cur). P y"
    using "2.prems"(2) [of cur] by (auto simp: hits_out)
  have "set r \<union> set q \<subseteq> set reach \<union> set queue \<union> hits v scope ex (out_edges v cur)"
    using visit_edges_result [OF f] by blast
  with h "2.prems"(1) have "\<forall>x \<in> set r \<union> set q. P x" by auto
  then show ?case using "2.IH" [OF f [symmetric] refl] "2.prems"(2,3) f by simp
qed simp

lemma bfs_complete:
  "set queue \<subseteq> set reach \<Longrightarrow>
   (\<And>x y. x \<in> set reach \<Longrightarrow> x \<notin> set queue \<Longrightarrow> scope_step v scope ex x y \<Longrightarrow> y \<in> set reach) \<Longrightarrow>
   set reach \<subseteq> set (bfs v scope ex reach queue)
   \<and> (\<forall>x \<in> set (bfs v scope ex reach queue). \<forall>y. scope_step v scope ex x y \<longrightarrow> y \<in> set (bfs v scope ex reach queue))"
proof (induction v scope ex reach queue rule: bfs.induct)
  case (2 v scope ex reach cur queue)
  obtain r q where f: "fold (visit_edge v scope ex) (out_edges v cur) (reach, queue) = (r, q)" by fastforce
  note res = visit_edges_result [OF f]
  have 1: "set q \<subseteq> set r" using res "2.prems"(1) by auto
  have 2: "y \<in> set r" if x: "x \<in> set r" "x \<notin> set q" and s: "scope_step v scope ex x y" for x y
  proof (cases "x = cur")
    case True
    with s res show ?thesis by (auto simp: hits_out)
  next
    case False
    have "x \<in> set reach" "x \<notin> set queue" using res x by blast+
    with False "2.prems"(2) s res show ?thesis by simp
  qed
  show ?case using "2.IH" [OF f [symmetric] refl 1 2] f res by auto
qed auto

lemma reachable_from_rtrancl:
  "set (reachable_from v entries scope ex) = {y. \<exists>x \<in> set entries. (scope_step v scope ex)\<^sup>*\<^sup>* x y}"
proof
  show "set (reachable_from v entries scope ex) \<subseteq> {y. \<exists>x \<in> set entries. (scope_step v scope ex)\<^sup>*\<^sup>* x y}"
    unfolding reachable_from_def
    using bfs_sound [where P = "\<lambda>y. \<exists>x \<in> set entries. (scope_step v scope ex)\<^sup>*\<^sup>* x y"
        and v = v and scope = scope and ex = ex and reach = "remdups entries" and queue = "remdups entries"]
    by (auto intro: rtranclp.rtrancl_into_rtrancl)
next
  let ?b = "bfs v scope ex (remdups entries) (remdups entries)"
  have c: "set entries \<subseteq> set ?b" "\<And>x y. x \<in> set ?b \<Longrightarrow> scope_step v scope ex x y \<Longrightarrow> y \<in> set ?b"
    using bfs_complete [of "remdups entries" "remdups entries" v scope ex] by auto
  have "y \<in> set ?b" if "(scope_step v scope ex)\<^sup>*\<^sup>* x y" "x \<in> set ?b" for x y
    using that by (induction rule: rtranclp_induct) (auto intro: c(2))
  with c(1) show "{y. \<exists>x \<in> set entries. (scope_step v scope ex)\<^sup>*\<^sup>* x y} \<subseteq> set (reachable_from v entries scope ex)"
    by (auto simp: reachable_from_def)
qed

text \<open>The contract the validator's clients use: reachability with one edge left out.\<close>

locale edge_reachability =
  fixes step :: "'x \<Rightarrow> 'n \<Rightarrow> 'n \<Rightarrow> bool"
    and reach :: "'n list \<Rightarrow> 'x \<Rightarrow> 'n list"
    and nothing :: 'x
  assumes reach_iff: "y \<in> set (reach starts x) \<longleftrightarrow> (\<exists>s \<in> set starts. (step x)\<^sup>*\<^sup>* s y)"
    and step_sub: "step x a b \<Longrightarrow> step nothing a b"
begin

lemma starts_reached: "s \<in> set starts \<Longrightarrow> s \<in> set (reach starts x)"
  by (auto simp: reach_iff)

lemma reach_closed: "a \<in> set (reach starts x) \<Longrightarrow> step x a b \<Longrightarrow> b \<in> set (reach starts x)"
  by (auto simp: reach_iff intro: rtranclp.rtrancl_into_rtrancl)

lemma reach_sub: "y \<in> set (reach starts x) \<Longrightarrow> y \<in> set (reach starts nothing)"
proof -
  have "(step x)\<^sup>*\<^sup>* a b \<Longrightarrow> (step nothing)\<^sup>*\<^sup>* a b" for a b
    by (induction rule: rtranclp_induct) (auto intro: step_sub rtranclp.rtrancl_into_rtrancl)
  then show "y \<in> set (reach starts x) \<Longrightarrow> ?thesis" by (auto simp: reach_iff)
qed

text \<open>A node lost by leaving an edge out is reached only across it.\<close>

lemma lost_only_across:
  assumes "(step nothing)\<^sup>*\<^sup>* s y" "s \<in> set (reach starts x)" "y \<notin> set (reach starts x)"
  shows "\<exists>a b. (step nothing)\<^sup>*\<^sup>* s a \<and> step nothing a b \<and> \<not> step x a b \<and> (step nothing)\<^sup>*\<^sup>* b y"
  using assms
proof (induction rule: rtranclp_induct)
  case (step y z)
  show ?case
  proof (cases "y \<in> set (reach starts x)")
    case True
    with step reach_closed show ?thesis by blast
  next
    case False
    with step show ?thesis by (meson rtranclp.rtrancl_into_rtrancl)
  qed
qed simp

end

subsection \<open>The nodes that can reach an end\<close>

definition edge_sources :: "validator \<Rightarrow> string list" where
  "edge_sources v = remdups (map e_source (va_edges v))"

definition mark_source :: "validator \<Rightarrow> string \<Rightarrow> string \<Rightarrow> string list \<Rightarrow> string list" where
  "mark_source v scope src can =
     (if src \<in> set can \<or> \<not> in_scope v scope src then can
      else if list_ex (\<lambda>e. e_target e \<in> set can) (out_edges v src) then src # can else can)"

lemma mark_source_grows: "set can \<subseteq> set (mark_source v scope src can)"
  by (auto simp: mark_source_def)

lemma mark_sources_grow: "set can \<subseteq> set (fold (mark_source v scope) srcs can)"
  by (induction srcs arbitrary: can) (use mark_source_grows in fastforce)+

lemma mark_sources_change:
  "fold (mark_source v scope) srcs can \<noteq> can \<Longrightarrow>
   \<exists>s \<in> set srcs. s \<notin> set can \<and> s \<in> set (fold (mark_source v scope) srcs can)"
proof (induction srcs arbitrary: can)
  case (Cons s srcs)
  show ?case
  proof (cases "mark_source v scope s can = can")
    case True
    with Cons show ?thesis by auto
  next
    case False
    then have "s \<notin> set can" "s \<in> set (mark_source v scope s can)"
      by (auto simp: mark_source_def split: if_splits)
    with mark_sources_grow [of "mark_source v scope s can" v scope srcs] show ?thesis by auto
  qed
qed simp

function can_reach :: "validator \<Rightarrow> string \<Rightarrow> string list \<Rightarrow> string list" where
  "can_reach v scope can =
     (let can' = fold (mark_source v scope) (edge_sources v) can
      in if can' = can then can else can_reach v scope can')"
  by pat_completeness auto
termination
proof (relation "measure (\<lambda>(v, scope, can). length (filter (\<lambda>s. s \<notin> set can) (edge_sources v)))", simp)
  fix v scope can can'
  assume "can' = fold (mark_source v scope) (edge_sources v) can" "can' \<noteq> can"
  then obtain s where s: "s \<in> set (edge_sources v)" "s \<notin> set can" "s \<in> set can'"
    using mark_sources_change [of v scope "edge_sources v" can] by auto
  have "length (filter (\<lambda>s. s \<notin> set can') (edge_sources v)) < length (filter (\<lambda>s. s \<notin> set can) (edge_sources v))"
    using s mark_sources_grow [of can v scope "edge_sources v"] \<open>can' = _\<close>
    by (intro filter_shrinks [of s]) auto
  then show "((v, scope, can'), v, scope, can)
      \<in> measure (\<lambda>(v, scope, can). length (filter (\<lambda>s. s \<notin> set can) (edge_sources v)))" by simp
qed

declare can_reach.simps [simp del]

definition forward_step :: "validator \<Rightarrow> string \<Rightarrow> string \<Rightarrow> string \<Rightarrow> bool" where
  "forward_step v scope a b \<longleftrightarrow> in_scope v scope a \<and> (\<exists>e \<in> set (va_edges v). e_source e = a \<and> e_target e = b)"

lemma mark_source_step:
  "x \<in> set (mark_source v scope src can) \<Longrightarrow> x \<in> set can \<or> (\<exists>y \<in> set can. forward_step v scope x y)"
  by (auto simp: mark_source_def forward_step_def out_edges_def list_ex_iff split: if_splits)

lemma mark_sources_sound:
  "x \<in> set (fold (mark_source v scope) srcs can) \<Longrightarrow> \<exists>y \<in> set can. (forward_step v scope)\<^sup>*\<^sup>* x y"
proof (induction srcs arbitrary: can)
  case (Cons s srcs)
  then obtain y where y: "y \<in> set (mark_source v scope s can)" "(forward_step v scope)\<^sup>*\<^sup>* x y" by fastforce
  then show ?case using mark_source_step [OF y(1)] by (meson rtranclp.rtrancl_into_rtrancl)
qed auto

lemma mark_sources_fixed:
  assumes "fold (mark_source v scope) srcs can = can" "s \<in> set srcs" "in_scope v scope s"
    and "e \<in> set (out_edges v s)" "e_target e \<in> set can"
  shows "s \<in> set can"
  using assms
proof (induction srcs arbitrary: can)
  case (Cons r srcs)
  have "fold (mark_source v scope) srcs (mark_source v scope r can) = can" using Cons.prems(1) by simp
  then have "set (mark_source v scope r can) \<subseteq> set can"
    using mark_sources_grow [of "mark_source v scope r can" v scope srcs] by simp
  then have same: "mark_source v scope r can = can"
    by (simp add: mark_source_def split: if_splits)
  show ?case
  proof (cases "s = r")
    case True
    have "list_ex (\<lambda>e. e_target e \<in> set can) (out_edges v s)"
      using Cons.prems(4,5) unfolding list_ex_iff by blast
    with True same Cons.prems(3) show ?thesis by (simp add: mark_source_def split: if_splits)
  next
    case False
    then have "s \<in> set srcs" using Cons.prems(2) by simp
    moreover have "fold (mark_source v scope) srcs can = can" using Cons.prems(1) same by simp
    ultimately show ?thesis using Cons.IH Cons.prems(3-5) by blast
  qed
qed simp

lemma can_reach_rtrancl:
  "set (can_reach v scope can) = {x. \<exists>y \<in> set can. (forward_step v scope)\<^sup>*\<^sup>* x y}"
proof (induction v scope can rule: can_reach.induct)
  case (1 v scope can)
  let ?can' = "fold (mark_source v scope) (edge_sources v) can"
  show ?case
  proof (cases "?can' = can")
    case False
    then have "set (can_reach v scope can) = {x. \<exists>y \<in> set ?can'. (forward_step v scope)\<^sup>*\<^sup>* x y}"
      using 1 by (subst can_reach.simps) simp
    also have "\<dots> = {x. \<exists>y \<in> set can. (forward_step v scope)\<^sup>*\<^sup>* x y}"
    proof (intro set_eqI iffI CollectI; elim CollectE bexE)
      fix x y
      assume "(forward_step v scope)\<^sup>*\<^sup>* x y" "y \<in> set ?can'"
      then show "\<exists>y \<in> set can. (forward_step v scope)\<^sup>*\<^sup>* x y"
        by (meson mark_sources_sound rtranclp_trans)
    next
      fix x y
      assume "(forward_step v scope)\<^sup>*\<^sup>* x y" "y \<in> set can"
      then show "\<exists>y \<in> set ?can'. (forward_step v scope)\<^sup>*\<^sup>* x y"
        using mark_sources_grow [of can v scope "edge_sources v"] by blast
    qed
    finally show ?thesis .
  next
    case True
    have "x \<in> set can" if "(forward_step v scope)\<^sup>*\<^sup>* x y" "y \<in> set can" for x y
      using that
    proof (induction rule: converse_rtranclp_induct)
      case (step a b)
      then obtain e where "e \<in> set (out_edges v a)" "e_target e = b" "in_scope v scope a" "a \<in> set (edge_sources v)"
        by (auto simp: forward_step_def out_edges_def edge_sources_def)
      with step mark_sources_fixed [OF True] show ?case by blast
    qed simp
    moreover have "can_reach v scope can = can" using True by (subst can_reach.simps) simp
    ultimately show ?thesis by (auto intro: rtranclp.rtrancl_refl)
  qed
qed

subsection \<open>Cycle search\<close>

text \<open>
  The colours of the depth-first search: the gray nodes are the stack, the black ones are done. The
  fuel bounds the depth of the recursion, which the number of nodes bounds.
\<close>

fun dfs_node :: "nat \<Rightarrow> validator \<Rightarrow> string \<Rightarrow> string \<Rightarrow> string list \<Rightarrow> string list \<Rightarrow> (string option \<times> string list) option"
and dfs_edges :: "nat \<Rightarrow> validator \<Rightarrow> string \<Rightarrow> graph_edge list \<Rightarrow> string list \<Rightarrow> string list \<Rightarrow> (string option \<times> string list) option" where
  "dfs_node 0 v scope i gray black = None"
| "dfs_node (Suc n) v scope i gray black =
     (case dfs_edges n v scope (out_edges v i) (i # gray) black of
        Some (None, black') \<Rightarrow> Some (None, i # black')
      | r \<Rightarrow> r)"
| "dfs_edges n v scope [] gray black = Some (None, black)"
| "dfs_edges n v scope (e # es) gray black =
     (if \<not> in_scope v scope (e_target e) then dfs_edges n v scope es gray black
      else if e_target e \<in> set gray then Some (Some (e_target e), black)
      else if e_target e \<in> set black then dfs_edges n v scope es gray black
      else (case dfs_node n v scope (e_target e) gray black of
              Some (None, black') \<Rightarrow> dfs_edges n v scope es gray black'
            | r \<Rightarrow> r))"

fun dfs_roots :: "validator \<Rightarrow> string \<Rightarrow> string list \<Rightarrow> string list \<Rightarrow> string option option" where
  "dfs_roots v scope [] black = Some None"
| "dfs_roots v scope (i # ids) black =
     (if i \<in> set black then dfs_roots v scope ids black
      else case dfs_node (Suc (length (va_nodes v))) v scope i [] black of
             None \<Rightarrow> None
           | Some (Some x, _) \<Rightarrow> Some (Some x)
           | Some (None, black') \<Rightarrow> dfs_roots v scope ids black')"

definition detect_cycle :: "validator \<Rightarrow> string \<Rightarrow> string option option" where
  "detect_cycle v scope = dfs_roots v scope (map n_id (scope_nodes v scope)) []"

abbreviation inner_step :: "validator \<Rightarrow> string \<Rightarrow> string \<Rightarrow> string \<Rightarrow> bool" where
  "inner_step v scope a b \<equiv> b \<in> hits v scope [] (out_edges v a)"

definition ids_ok :: "validator \<Rightarrow> bool" where
  "ids_ok v \<longleftrightarrow> distinct (akeys (va_nodes v)) \<and> distinct (map e_id (va_edges v)) \<and> (\<forall>e \<in> set (va_edges v). e_id e \<noteq> [])
     \<and> (\<forall>(k, n) \<in> set (va_nodes v). n_id n = k)"

text \<open>A finished part of the graph: closed under the edges of the scope, and without a cycle.\<close>

definition done_part :: "validator \<Rightarrow> string \<Rightarrow> string set \<Rightarrow> bool" where
  "done_part v scope B \<longleftrightarrow> (\<forall>x \<in> B. (\<forall>y. inner_step v scope x y \<longrightarrow> y \<in> B) \<and> \<not> (inner_step v scope)\<^sup>+\<^sup>+ x x)"

lemma done_part_closed: "(inner_step v scope)\<^sup>*\<^sup>* x y \<Longrightarrow> x \<in> B \<Longrightarrow> done_part v scope B \<Longrightarrow> y \<in> B"
  by (induction rule: rtranclp_induct) (auto simp: done_part_def)

lemma done_part_insert:
  assumes "done_part v scope B" "i \<notin> B" "\<And>y. inner_step v scope i y \<Longrightarrow> y \<in> B"
  shows "done_part v scope (insert i B)"
proof -
  have "\<not> (inner_step v scope)\<^sup>+\<^sup>+ i i"
  proof
    assume "(inner_step v scope)\<^sup>+\<^sup>+ i i"
    then obtain y where "inner_step v scope i y" "(inner_step v scope)\<^sup>*\<^sup>* y i"
      by (meson tranclpD)
    with assms done_part_closed show False by blast
  qed
  with assms show ?thesis by (auto simp: done_part_def)
qed

definition scope_closed :: "validator \<Rightarrow> string \<Rightarrow> graph_edge list \<Rightarrow> string \<Rightarrow> bool" where
  "scope_closed v scope es i \<longleftrightarrow> set es \<subseteq> set (out_edges v i)"

text \<open>What one call of the search leaves, in both outcomes.\<close>

definition dfs_post :: "validator \<Rightarrow> string \<Rightarrow> string list \<Rightarrow> string list \<Rightarrow> string set \<Rightarrow> (string option \<times> string list) option \<Rightarrow> bool" where
  "dfs_post v scope gray black goals r \<longleftrightarrow>
     (case r of
        None \<Rightarrow> True
      | Some (None, black') \<Rightarrow> done_part v scope (set black') \<and> set black \<subseteq> set black'
          \<and> set gray \<inter> set black' = {} \<and> goals \<subseteq> set black'
      | Some (Some x, _) \<Rightarrow> (inner_step v scope)\<^sup>+\<^sup>+ x x)"

lemma hits_target: "e_id e \<noteq> [] \<Longrightarrow> in_scope v scope (e_target e) \<Longrightarrow> e \<in> set es \<Longrightarrow> e_target e \<in> hits v scope [] es"
  by (auto simp: hits_def)

lemma dfs_correct:
  "ids_ok v \<Longrightarrow> done_part v scope (set black) \<Longrightarrow> set gray \<inter> set black = {} \<Longrightarrow> i \<notin> set gray \<union> set black \<Longrightarrow>
     (\<forall>g \<in> set gray. (inner_step v scope)\<^sup>+\<^sup>+ g i) \<Longrightarrow>
     dfs_post v scope gray black {i} (dfs_node n v scope i gray black)"
  "ids_ok v \<Longrightarrow> done_part v scope (set black) \<Longrightarrow> set gray \<inter> set black = {} \<Longrightarrow> gray \<noteq> [] \<Longrightarrow>
     set es \<subseteq> set (out_edges v (hd gray)) \<Longrightarrow> (\<forall>g \<in> set gray. (inner_step v scope)\<^sup>*\<^sup>* g (hd gray)) \<Longrightarrow>
     dfs_post v scope gray black (hits v scope [] es) (dfs_edges n v scope es gray black)"
proof (induction n v scope i gray black and n v scope es gray black rule: dfs_node_dfs_edges.induct)
  case (1 v scope i gray black)
  then show ?case by (simp add: dfs_post_def)
next
  case (2 n v scope i gray black)
  have post: "dfs_post v scope (i # gray) black (hits v scope [] (out_edges v i)) (dfs_edges n v scope (out_edges v i) (i # gray) black)"
    using 2 by (auto intro: tranclp_into_rtranclp)
  show ?case
  proof (cases "dfs_edges n v scope (out_edges v i) (i # gray) black")
    case (Some r)
    obtain f b where r: "r = (f, b)" by fastforce
    show ?thesis
    proof (cases f)
      case None
      with post Some r "2.prems" show ?thesis
        by (auto simp: dfs_post_def intro: done_part_insert)
    next
      case (Some x)
      with post \<open>dfs_edges n v scope (out_edges v i) (i # gray) black = Some r\<close> r show ?thesis
        by (simp add: dfs_post_def)
    qed
  qed (simp add: dfs_post_def)
next
  case (3 n v scope gray black)
  then show ?case by (simp add: dfs_post_def)
next
  case (4 n v scope e es gray black)
  let ?t = "e_target e"
  have ne: "e_id e \<noteq> []" using "4.prems"(1,5) by (auto simp: ids_ok_def out_edges_def)
  consider (out) "\<not> in_scope v scope ?t" | (gray) "in_scope v scope ?t" "?t \<in> set gray"
    | (black) "in_scope v scope ?t" "?t \<notin> set gray" "?t \<in> set black"
    | (white) "in_scope v scope ?t" "?t \<notin> set gray" "?t \<notin> set black" by blast
  then show ?case
  proof cases
    case out
    with 4 show ?thesis by (simp add: hits_Cons)
  next
    case gray
    have "inner_step v scope (hd gray) ?t"
      using gray(1) ne "4.prems"(5) by (auto intro: hits_target)
    moreover have "(inner_step v scope)\<^sup>*\<^sup>* ?t (hd gray)" using gray(2) "4.prems"(6) by blast
    ultimately have "(inner_step v scope)\<^sup>+\<^sup>+ ?t ?t" by (meson rtranclp_into_tranclp1)
    with gray show ?thesis by (simp add: dfs_post_def)
  next
    case black
    with 4 have "dfs_post v scope gray black (hits v scope [] es) (dfs_edges n v scope es gray black)" by simp
    with black show ?thesis
      by (auto simp: dfs_post_def hits_Cons split: option.splits)
  next
    case white
    have "inner_step v scope (hd gray) ?t"
      using white(1) ne "4.prems"(5) by (auto intro: hits_target)
    then have "\<forall>g \<in> set gray. (inner_step v scope)\<^sup>+\<^sup>+ g ?t"
      using "4.prems"(6) by (meson rtranclp_into_tranclp1)
    then have node: "dfs_post v scope gray black {?t} (dfs_node n v scope ?t gray black)"
      using "4.IH"(3) "4.prems" white by simp
    show ?thesis
    proof (cases "dfs_node n v scope ?t gray black")
      case None
      then show ?thesis using white by (simp add: dfs_post_def)
    next
      case (Some r)
      obtain f b where r: "r = (f, b)" by fastforce
      show ?thesis
      proof (cases f)
        case None
        with node Some r have b: "done_part v scope (set b)" "set black \<subseteq> set b" "set gray \<inter> set b = {}" "?t \<in> set b"
          by (simp_all add: dfs_post_def)
        have "dfs_post v scope gray b (hits v scope [] es) (dfs_edges n v scope es gray b)"
          using "4.IH"(4) [OF _ _ _ Some _ None] white "4.prems" b r by simp
        with white Some r None b show ?thesis
          by (auto simp: dfs_post_def hits_Cons split: option.splits)
      next
        case (Some x)
        with node \<open>dfs_node n v scope ?t gray black = Some r\<close> r white show ?thesis by (simp add: dfs_post_def)
      qed
    qed
  qed
qed

lemma dfs_fuel:
  "distinct gray \<Longrightarrow> set gray \<subseteq> set (akeys (va_nodes v)) \<Longrightarrow> i \<in> set (akeys (va_nodes v)) \<Longrightarrow> i \<notin> set gray \<Longrightarrow>
     length (va_nodes v) < n + length gray \<Longrightarrow> dfs_node n v scope i gray black \<noteq> None"
  "distinct gray \<Longrightarrow> set gray \<subseteq> set (akeys (va_nodes v)) \<Longrightarrow>
     length (va_nodes v) < n + length gray \<Longrightarrow> dfs_edges n v scope es gray black \<noteq> None"
proof (induction n v scope i gray black and n v scope es gray black rule: dfs_node_dfs_edges.induct)
  case (1 v scope i gray black)
  then have "card (set gray) \<le> card (set (akeys (va_nodes v)) - {i})"
    by (intro card_mono) auto
  moreover have "card (set (akeys (va_nodes v)) - {i}) < card (set (akeys (va_nodes v)))"
    using "1.prems"(3) by (intro psubset_card_mono) auto
  moreover have "card (set (akeys (va_nodes v))) \<le> length (va_nodes v)"
    using card_length [of "akeys (va_nodes v)"] by (simp add: akeys_def)
  ultimately show ?case using "1.prems"(1,5) by (simp add: distinct_card)
next
  case (2 n v scope i gray black)
  then show ?case by (auto split: option.splits)
next
  case (4 n v scope e es gray black)
  then show ?case using in_scope_known [of v scope "e_target e"]
    by (auto split: option.splits)
qed simp

lemma scope_node_known: "ids_ok v \<Longrightarrow> n \<in> set (scope_nodes v scope) \<Longrightarrow> n_id n \<in> set (akeys (va_nodes v))"
  by (auto simp: scope_nodes_def ids_ok_def akeys_def image_iff) force

lemma dfs_roots_correct:
  "ids_ok v \<Longrightarrow> done_part v scope (set black) \<Longrightarrow> set ids \<subseteq> set (akeys (va_nodes v)) \<Longrightarrow>
   (case dfs_roots v scope ids black of
      None \<Rightarrow> False
    | Some None \<Rightarrow> \<exists>B. done_part v scope B \<and> set ids \<subseteq> B \<and> set black \<subseteq> B
    | Some (Some x) \<Rightarrow> (inner_step v scope)\<^sup>+\<^sup>+ x x)"
proof (induction v scope ids black rule: dfs_roots.induct)
  case (1 v scope black)
  then show ?case by auto
next
  case (2 v scope i ids black)
  show ?case
  proof (cases "i \<in> set black")
    case True
    with 2 show ?thesis by (auto split: option.splits)
  next
    case False
    let ?r = "dfs_node (Suc (length (va_nodes v))) v scope i [] black"
    have "?r \<noteq> None" using "2.prems" by (intro dfs_fuel) auto
    then obtain f b where r: "?r = Some (f, b)" by fastforce
    have post: "dfs_post v scope [] black {i} ?r"
      using False "2.prems" by (intro dfs_correct) auto
    show ?thesis
    proof (cases f)
      case (Some x)
      with post r False show ?thesis by (simp add: dfs_post_def)
    next
      case None
      with post r have b: "done_part v scope (set b)" "set black \<subseteq> set b" "i \<in> set b"
        by (simp_all add: dfs_post_def)
      have "set ids \<subseteq> set (akeys (va_nodes v))" using "2.prems"(3) by simp
      from "2.IH"(2) [OF False r [symmetric, THEN sym] refl None "2.prems"(1) b(1) this] r None False b(2,3)
      show ?thesis by (auto split: option.splits)
    qed
  qed
qed

lemma cycle_search:
  assumes "ids_ok v"
  shows "\<exists>r. detect_cycle v scope = Some r \<and> (r = None \<longleftrightarrow> \<not> (\<exists>x. (scope_step v scope [])\<^sup>+\<^sup>+ x x))"
proof -
  have same: "inner_step v scope = scope_step v scope []" by (intro ext) (simp add: hits_out)
  let ?ids = "map n_id (scope_nodes v scope)"
  have known: "set ?ids \<subseteq> set (akeys (va_nodes v))" using scope_node_known [OF assms] by auto
  have inside: "x \<in> set ?ids" if "(scope_step v scope [])\<^sup>+\<^sup>+ x x" for x
  proof -
    from that have "in_scope v scope x" by (cases rule: tranclp.cases) (auto simp: scope_step_def)
    then obtain n where n: "(x, n) \<in> set (va_nodes v)" "n_parent n = scope"
      by (auto simp: in_scope_def node_of_def split: option.splits dest: map_of_SomeD)
    then have "n \<in> set (scope_nodes v scope)" "n_id n = x"
      using assms by (auto simp: scope_nodes_def ids_ok_def intro: rev_image_eqI)
    then show ?thesis by auto
  qed
  have start: "done_part v scope (set [])" by (simp add: done_part_def)
  note post = dfs_roots_correct [OF assms start known]
  show ?thesis
  proof (cases "detect_cycle v scope")
    case None
    with post show ?thesis by (simp add: detect_cycle_def)
  next
    case (Some r)
    show ?thesis
    proof (cases r)
      case None
      with post Some obtain B where "done_part v scope B" "set ?ids \<subseteq> B" by (auto simp: detect_cycle_def)
      then have "\<not> (scope_step v scope [])\<^sup>+\<^sup>+ x x" for x
        using inside [of x] unfolding done_part_def same by blast
      with Some None show ?thesis by blast
    next
      case (Some x)
      with post \<open>detect_cycle v scope = Some r\<close> have "(scope_step v scope [])\<^sup>+\<^sup>+ x x"
        by (simp add: detect_cycle_def same)
      with \<open>detect_cycle v scope = Some r\<close> Some show ?thesis by blast
    qed
  qed
qed

lemma index_nodes_ok:
  "index_nodes ns m = (es, m') \<Longrightarrow> distinct (akeys m) \<Longrightarrow> (\<forall>(k, n) \<in> set m. n_id n = k) \<Longrightarrow>
   distinct (akeys m') \<and> (\<forall>(k, n) \<in> set m'. n_id n = k)"
  by (induction ns m arbitrary: es m' rule: index_nodes.induct)
    (auto simp: akeys_def map_of_eq_None_iff split: if_splits prod.splits)

definition keeps_edge :: "(string \<times> graph_node) list \<Rightarrow> graph_edge \<Rightarrow> bool" where
  "keeps_edge nbi e \<longleftrightarrow> (case aget nbi (e_source e) of None \<Rightarrow> False
     | Some src \<Rightarrow> (case aget nbi (e_target e) of None \<Rightarrow> False | Some dst \<Rightarrow> n_parent src = n_parent dst))"

lemma index_edges_kept:
  "snd (index_edges nbi (e # es) seen) =
     (if e_id e = [] \<or> e_id e \<in> set seen then snd (index_edges nbi es seen)
      else if keeps_edge nbi e then e # snd (index_edges nbi es (e_id e # seen))
      else snd (index_edges nbi es (e_id e # seen)))"
  by (simp add: keeps_edge_def Let_def case_prod_beta split: option.splits)

declare index_edges.simps(2) [simp del]

lemma index_edges_ok:
  "set (snd (index_edges nbi es seen)) \<subseteq> set es
   \<and> (\<forall>e \<in> set (snd (index_edges nbi es seen)). e_id e \<noteq> [] \<and> e_id e \<notin> set seen \<and> keeps_edge nbi e)
   \<and> distinct (map e_id (snd (index_edges nbi es seen)))"
proof (induction es arbitrary: seen)
  case (Cons e es)
  show ?case
    using Cons [of seen] Cons [of "e_id e # seen"]
    by (cases "e_id e = [] \<or> e_id e \<in> set seen"; cases "keeps_edge nbi e")
      (fastforce simp: index_edges_kept)+
qed simp

lemma index_ids_ok: "ids_ok (snd (index_config cfg))"
proof -
  obtain nvs nodes where n: "index_nodes (gc_nodes cfg) [] = (nvs, nodes)" by fastforce
  obtain evs edges where e: "index_edges nodes (gc_edges cfg) [] = (evs, edges)" by fastforce
  show ?thesis
    using index_nodes_ok [OF n] index_edges_ok [of nodes "gc_edges cfg" "[]"]
    by (auto simp add: index_config_def n e ids_ok_def akeys_def)
qed

subsection \<open>Branch dominators and mutual exclusion\<close>

text \<open>For every if-else node of a scope and each of its ports, the nodes lost when that edge is left out.\<close>

definition dominated_by :: "validator \<Rightarrow> string \<Rightarrow> string list \<Rightarrow> graph_edge \<Rightarrow> string list" where
  "dominated_by v scope entries e =
     (let without = reachable_from v entries scope (e_id e)
      in filter (\<lambda>i. i \<notin> set without) (reachable_from v entries scope []))"

definition port_dominators :: "validator \<Rightarrow> string \<Rightarrow> string list \<Rightarrow> edge_port \<Rightarrow> (string \<times> string list) list" where
  "port_dominators v scope entries port =
     fold (\<lambda>n m. fold (\<lambda>e m. if e_source_port e = port then aput (n_id n) (dominated_by v scope entries e) m else m)
             (out_edges v (n_id n)) m)
       (filter (\<lambda>n. n_type n = NIfElse) (scope_nodes v scope)) []"

definition branch_dominators :: "validator \<Rightarrow> string \<Rightarrow> string list \<Rightarrow>
    (string \<times> string list) list \<times> (string \<times> string list) list" where
  "branch_dominators v scope entries =
     (port_dominators v scope entries PortYes, port_dominators v scope entries PortNo)"

definition mutually_exclusive :: "string \<Rightarrow> string \<Rightarrow>
    (string \<times> string list) list \<times> (string \<times> string list) list \<Rightarrow> bool" where
  "mutually_exclusive a b doms =
     (case doms of (dom_yes, dom_no) \<Rightarrow>
        list_ex (\<lambda>(if_id, yes). case aget dom_no if_id of
            None \<Rightarrow> False
          | Some no \<Rightarrow> (a \<in> set yes \<and> b \<in> set no) \<or> (a \<in> set no \<and> b \<in> set yes)) dom_yes)"

text \<open>The validator's search provides the contract on every indexed configuration.\<close>

lemma scope_step_sub: "ids_ok v \<Longrightarrow> scope_step v scope x a b \<Longrightarrow> scope_step v scope [] a b"
  by (auto simp: scope_step_def ids_ok_def)

interpretation vr: edge_reachability "scope_step (snd (index_config cfg)) scope"
    "\<lambda>starts ex. reachable_from (snd (index_config cfg)) starts scope ex" "[]" for cfg scope
  by unfold_locales (simp_all add: reachable_from_rtrancl scope_step_sub [OF index_ids_ok])

lemma dominated_lost:
  assumes "y \<in> set (dominated_by v scope entries e)" "s \<in> set entries"
  shows "\<not> (scope_step v scope (e_id e))\<^sup>*\<^sup>* s y"
  using assms by (auto simp: dominated_by_def Let_def reachable_from_rtrancl)

lemma port_dominators_from:
  assumes "aget (port_dominators v scope entries port) i = Some d"
  shows "\<exists>n e. n \<in> set (scope_nodes v scope) \<and> n_type n = NIfElse \<and> n_id n = i \<and> e \<in> set (out_edges v i)
     \<and> e_source_port e = port \<and> d = dominated_by v scope entries e"
proof -
  let ?from = "\<lambda>m. \<forall>i d. aget m i = Some d \<longrightarrow> (\<exists>n e. n \<in> set (scope_nodes v scope) \<and> n_type n = NIfElse
     \<and> n_id n = i \<and> e \<in> set (out_edges v i) \<and> e_source_port e = port \<and> d = dominated_by v scope entries e)"
  let ?f = "\<lambda>n e m. if e_source_port e = port then aput (n_id n) (dominated_by v scope entries e) m else m"
  have inner: "?from m \<Longrightarrow> n \<in> set (scope_nodes v scope) \<Longrightarrow> n_type n = NIfElse \<Longrightarrow>
      set es \<subseteq> set (out_edges v (n_id n)) \<Longrightarrow> ?from (fold (?f n) es m)" for n es m
  proof (induction es arbitrary: m)
    case (Cons e es)
    have "?from (?f n e m)" using Cons.prems by auto
    with Cons show ?case by simp
  qed simp
  have "?from (fold (\<lambda>n m. fold (?f n) (out_edges v (n_id n)) m) ns m)"
    if "?from m" "set ns \<subseteq> set (filter (\<lambda>n. n_type n = NIfElse) (scope_nodes v scope))" for ns m
    using that
  proof (induction ns arbitrary: m)
    case (Cons n ns)
    have "?from (fold (?f n) (out_edges v (n_id n)) m)" using Cons.prems by (intro inner) auto
    with Cons show ?case by simp
  qed simp
  from this [of "[]" "filter (\<lambda>n. n_type n = NIfElse) (scope_nodes v scope)"] assms
  show ?thesis by (simp add: port_dominators_def)
qed

text \<open>
  A choice of active edges takes at most one branch of every if-else node; the nodes a run reaches
  are those the active edges connect to an entry.
\<close>

definition active_step :: "validator \<Rightarrow> string \<Rightarrow> (graph_edge \<Rightarrow> bool) \<Rightarrow> string \<Rightarrow> string \<Rightarrow> bool" where
  "active_step v scope active a b \<longleftrightarrow>
     (\<exists>e \<in> set (va_edges v). active e \<and> e_source e = a \<and> e_target e = b) \<and> in_scope v scope b"

definition one_branch :: "validator \<Rightarrow> string \<Rightarrow> (graph_edge \<Rightarrow> bool) \<Rightarrow> bool" where
  "one_branch v scope active \<longleftrightarrow>
     (\<forall>n \<in> set (scope_nodes v scope). n_type n = NIfElse \<longrightarrow>
        \<not> ((\<exists>e \<in> set (out_edges v (n_id n)). e_source_port e = PortYes \<and> active e)
           \<and> (\<exists>e \<in> set (out_edges v (n_id n)). e_source_port e = PortNo \<and> active e)))"

lemma active_step_avoids:
  assumes "ids_ok v" "e \<in> set (va_edges v)" "\<not> active e" "(active_step v scope active)\<^sup>*\<^sup>* s y"
  shows "(scope_step v scope (e_id e))\<^sup>*\<^sup>* s y"
proof -
  have "active_step v scope active a b \<Longrightarrow> scope_step v scope (e_id e) a b" for a b
    using assms(1-3) unfolding active_step_def scope_step_def ids_ok_def distinct_map inj_on_def by metis
  then show ?thesis using assms(4) by (metis mono_rtranclp)
qed

lemma port_dominators_distinct: "distinct (akeys (port_dominators v scope entries p))"
proof -
  let ?f = "\<lambda>n e m. if e_source_port e = p then aput (n_id n) (dominated_by v scope entries e) m else m"
  have inner: "distinct (akeys m) \<Longrightarrow> distinct (akeys (fold (?f n) es m))" for n es m
    by (induction es arbitrary: m) auto
  have "distinct (akeys m) \<Longrightarrow> distinct (akeys (fold (\<lambda>n m. fold (?f n) (out_edges v (n_id n)) m) ns m))" for ns m
    by (induction ns arbitrary: m) (auto intro: inner)
  from this [of "[]"] show ?thesis unfolding port_dominators_def by (simp add: akeys_def)
qed

lemma exclusive_never_both:
  assumes ok: "ids_ok v" and ex: "mutually_exclusive a b (branch_dominators v scope entries)"
    and one: "one_branch v scope active"
    and a: "s \<in> set entries" "(active_step v scope active)\<^sup>*\<^sup>* s a"
    and b: "t \<in> set entries" "(active_step v scope active)\<^sup>*\<^sup>* t b"
  shows False
proof -
  have lost: "active e" if "x \<in> set (dominated_by v scope entries e)" "e \<in> set (out_edges v i)"
    "r \<in> set entries" "(active_step v scope active)\<^sup>*\<^sup>* r x" for x e i r
    using active_step_avoids [OF ok _ _ that(4)] dominated_lost [OF that(1,3)] that(2)
    by (auto simp: out_edges_def)
  obtain i yes no where "(i, yes) \<in> set (port_dominators v scope entries PortYes)"
    and no: "aget (port_dominators v scope entries PortNo) i = Some no"
    and ab: "(a \<in> set yes \<and> b \<in> set no) \<or> (a \<in> set no \<and> b \<in> set yes)"
    using ex by (auto simp: mutually_exclusive_def branch_dominators_def list_ex_iff split: option.splits)
  have yes: "aget (port_dominators v scope entries PortYes) i = Some yes"
    using \<open>(i, yes) \<in> set _\<close> port_dominators_distinct [of v scope entries PortYes] by (simp add: akeys_def)
  obtain n e where e: "n \<in> set (scope_nodes v scope)" "n_type n = NIfElse" "n_id n = i" "e \<in> set (out_edges v i)"
    "e_source_port e = PortYes" "yes = dominated_by v scope entries e"
    using port_dominators_from [OF yes] by blast
  obtain f where f: "f \<in> set (out_edges v i)" "e_source_port f = PortNo" "no = dominated_by v scope entries f"
    using port_dominators_from [OF no] by blast
  have "active e" "active f" using ab lost e f a b by blast+
  with one e f show False by (auto simp: one_branch_def)
qed

end
