(* ===== verification/GraphProgress.thy ===== *)
theory GraphProgress
  imports GraphModel "HOL-Library.Multiset"
begin

section \<open>The progress denominator\<close>

text \<open>
  \<open>services/graph/denominator.go\<close> and the progress functions of \<open>runtime.go\<close> and \<open>loop.go\<close>. The
  denominator starts at a static bound, the product of the round bounds of a node's ancestor loops
  for every node that does work, and is reclaimed as rounds and nodes prove not to run. The walks
  up the \<open>ParentID\<close> chain have no bound in the code, so they are partial functions here: a chain
  that never ends is \<open>None\<close>. Products and sums are Go \<open>int\<close> arithmetic, written with \<open>wrap64\<close>.
\<close>

subsection \<open>Sixty-four bit arithmetic modulo the word size\<close>

lemma wrap64_mod: "wrap64 x = wrap64 y \<longleftrightarrow> x mod 2 ^ 64 = y mod 2 ^ 64"
proof
  assume "wrap64 x = wrap64 y"
  then have "(x + 2 ^ 63) mod 2 ^ 64 = (y + 2 ^ 63) mod (2 ^ 64 :: int)" by (simp add: wrap64_def)
  then have "(x + 2 ^ 63 - 2 ^ 63) mod 2 ^ 64 = (y + 2 ^ 63 - 2 ^ 63) mod (2 ^ 64 :: int)"
    by (rule mod_diff_cong) simp
  then show "x mod 2 ^ 64 = y mod 2 ^ 64" by simp
next
  assume "x mod 2 ^ 64 = y mod (2 ^ 64 :: int)"
  then have "(x + 2 ^ 63) mod 2 ^ 64 = (y + 2 ^ 63) mod 2 ^ 64" by (rule mod_add_cong) simp
  then show "wrap64 x = wrap64 y" by (simp add: wrap64_def)
qed

lemma wrap64_mod_self: "wrap64 x mod 2 ^ 64 = x mod 2 ^ 64"
proof -
  have "((x + 2 ^ 63) mod 2 ^ 64 - 2 ^ 63) mod 2 ^ 64 = (x + 2 ^ 63 - 2 ^ 63) mod (2 ^ 64 :: int)"
    by (rule mod_diff_left_eq)
  then show ?thesis unfolding wrap64_def by simp
qed

lemma wrap64_wrap64 [simp]: "wrap64 (wrap64 x) = wrap64 x"
  unfolding wrap64_mod by (rule wrap64_mod_self)

lemma wrap64_add [simp]: "wrap64 (wrap64 x + y) = wrap64 (x + y)" "wrap64 (x + wrap64 y) = wrap64 (x + y)"
  unfolding wrap64_mod by (metis wrap64_mod_self mod_add_left_eq, metis wrap64_mod_self mod_add_right_eq)

lemma wrap64_mult [simp]: "wrap64 (wrap64 x * y) = wrap64 (x * y)" "wrap64 (x * wrap64 y) = wrap64 (x * y)"
  unfolding wrap64_mod by (metis wrap64_mod_self mod_mult_left_eq, metis wrap64_mod_self mod_mult_right_eq)

subsection \<open>Adjusting and counting\<close>

definition adjust_denom_total :: "int \<Rightarrow> graph_progress option \<Rightarrow> graph_progress option" where
  "adjust_denom_total delta p =
     (case p of None \<Rightarrow> None
      | Some p \<Rightarrow>
          if delta = 0 then Some p
          else let resolved = wrap64 (gp_completed p + gp_failed p + gp_interrupted p)
               in Some (p\<lparr>gp_total := max (wrap64 (gp_total p + delta)) resolved\<rparr>))"

definition zero_progress :: graph_progress where
  "zero_progress = \<lparr> gp_total = 0, gp_completed = 0, gp_failed = 0, gp_skipped = 0,
     gp_interrupted = 0, gp_running = 0, gp_current_keys = [], gp_last_error = [] \<rparr>"

definition tally :: "instance_state \<Rightarrow> graph_progress \<Rightarrow> graph_progress" where
  "tally st p = (case is_status st of
       InstSucceeded \<Rightarrow> p\<lparr>gp_completed := gp_completed p + 1\<rparr>
     | InstFailed \<Rightarrow> p\<lparr>gp_failed := gp_failed p + 1\<rparr>
     | InstSkipped \<Rightarrow> p\<lparr>gp_skipped := gp_skipped p + 1\<rparr>
     | InstInterrupted \<Rightarrow> p\<lparr>gp_interrupted := gp_interrupted p + 1\<rparr>
     | InstRunning \<Rightarrow> p\<lparr>gp_running := gp_running p + 1, gp_current_keys := gp_current_keys p @ [is_key st]\<rparr>
     | _ \<Rightarrow> p)"

definition update_run_progress :: "graph_run \<Rightarrow> (string \<times> instance_state) list \<Rightarrow> graph_run" where
  "update_run_progress run instances =
     (let p = (case gr_progress run of None \<Rightarrow> zero_progress | Some p \<Rightarrow> p);
          p = p\<lparr>gp_completed := 0, gp_failed := 0, gp_skipped := 0, gp_interrupted := 0,
                gp_running := 0, gp_current_keys := []\<rparr>
      in run\<lparr>gr_progress := Some (fold (\<lambda>(k, st) p. tally st p) instances p)\<rparr>)"

subsection \<open>Round bounds\<close>

definition effective_loop_max_iters :: "graph_run_config \<Rightarrow> graph_node \<Rightarrow> int" where
  "effective_loop_max_iters rc node =
     (if nc_max_iterations (n_config node) > 0 then nc_max_iterations (n_config node)
      else if rc_default_loop_max_iters rc > 0 then rc_default_loop_max_iters rc
      else 100)"

definition loop_max_rounds :: "graph_run_config \<Rightarrow> graph_node \<Rightarrow> int" where
  "loop_max_rounds rc loop =
     (if nc_loop_mode (n_config loop) = LoopFixed
      then if nc_fixed_count (n_config loop) < 0 then 0 else nc_fixed_count (n_config loop)
      else effective_loop_max_iters rc loop)"

lemma loop_max_rounds_nonneg: "0 \<le> loop_max_rounds rc loop"
  by (simp add: loop_max_rounds_def effective_loop_max_iters_def)

subsection \<open>Walking the parent chain\<close>

partial_function (option) max_instances_walk ::
    "graph_run_config \<Rightarrow> (string \<times> graph_node) list \<Rightarrow> string \<Rightarrow> int \<Rightarrow> int option" where
  "max_instances_walk rc nbi pid acc =
     (if pid = [] then Some acc
      else case aget nbi pid of
             None \<Rightarrow> Some acc
           | Some loop \<Rightarrow>
               max_instances_walk rc nbi (n_parent loop) (wrap64 (acc * loop_max_rounds rc loop)))"

definition node_max_instances :: "graph_run_config \<Rightarrow> (string \<times> graph_node) list \<Rightarrow> graph_node \<Rightarrow> int option" where
  "node_max_instances rc nbi node = max_instances_walk rc nbi (n_parent node) 1"

partial_function (option) descendant_walk ::
    "(string \<times> graph_node) list \<Rightarrow> string \<Rightarrow> string \<Rightarrow> bool option" where
  "descendant_walk nbi container pid =
     (if pid = [] then Some False
      else if pid = container then Some True
      else case aget nbi pid of
             None \<Rightarrow> Some False
           | Some parent \<Rightarrow> descendant_walk nbi container (n_parent parent))"

definition is_descendant_of :: "(string \<times> graph_node) list \<Rightarrow> graph_node \<Rightarrow> string \<Rightarrow> bool option" where
  "is_descendant_of nbi n container = descendant_walk nbi container (n_parent n)"

partial_function (option) per_round_walk ::
    "graph_run_config \<Rightarrow> (string \<times> graph_node) list \<Rightarrow> string \<Rightarrow> string \<Rightarrow> int \<Rightarrow> int option" where
  "per_round_walk rc nbi container pid acc =
     (if pid = [] \<or> pid = container then Some acc
      else case aget nbi pid of
             None \<Rightarrow> Some acc
           | Some loop \<Rightarrow>
               per_round_walk rc nbi container (n_parent loop) (wrap64 (acc * loop_max_rounds rc loop)))"

definition instances_per_round ::
    "graph_run_config \<Rightarrow> (string \<times> graph_node) list \<Rightarrow> graph_node \<Rightarrow> string \<Rightarrow> int option" where
  "instances_per_round rc nbi n container = per_round_walk rc nbi container (n_parent n) 1"

text \<open>The loop over the node map; a walk that does not return makes the count not return.\<close>

fun sum_business :: "(graph_node \<Rightarrow> int option) \<Rightarrow> graph_node list \<Rightarrow> int \<Rightarrow> int option" where
  "sum_business per [] tot = Some tot"
| "sum_business per (n # ns) tot =
     (if is_business (n_type n)
      then case per n of None \<Rightarrow> None | Some c \<Rightarrow> sum_business per ns (wrap64 (tot + c))
      else sum_business per ns tot)"

definition loop_subgraph_business_count ::
    "(string \<times> graph_node) list \<Rightarrow> graph_run_config \<Rightarrow> string \<Rightarrow> int option" where
  "loop_subgraph_business_count nbi rc container =
     sum_business
       (\<lambda>n. case is_descendant_of nbi n container of
              None \<Rightarrow> None
            | Some False \<Rightarrow> Some 0
            | Some True \<Rightarrow> instances_per_round rc nbi n container)
       (map snd nbi) 0"

definition initial_graph_progress :: "graph_config \<Rightarrow> graph_progress option" where
  "initial_graph_progress cfg =
     map_option (\<lambda>tot. zero_progress\<lparr>gp_total := tot\<rparr>)
       (sum_business (node_max_instances (gc_run_config cfg) (nodes_by_id cfg)) (gc_nodes cfg) 0)"

subsection \<open>When the walks return\<close>

text \<open>The parent chain from an identifier ends: at no parent, or at an unknown one.\<close>

inductive parents_end :: "(string \<times> graph_node) list \<Rightarrow> string \<Rightarrow> bool" for nbi where
  root: "parents_end nbi []"
| missing: "aget nbi pid = None \<Longrightarrow> parents_end nbi pid"
| parent: "aget nbi pid = Some p \<Longrightarrow> parents_end nbi (n_parent p) \<Longrightarrow> parents_end nbi pid"

inductive_cases parents_endE: "parents_end nbi pid"

declare max_instances_walk.simps [code] descendant_walk.simps [code] per_round_walk.simps [code]

lemma max_instances_returns: "parents_end nbi pid \<Longrightarrow> max_instances_walk rc nbi pid acc \<noteq> None"
  by (induction arbitrary: acc rule: parents_end.induct) (subst max_instances_walk.simps, simp)+

lemma max_instances_returned: "max_instances_walk rc nbi pid acc = Some r \<Longrightarrow> parents_end nbi pid"
proof (rule max_instances_walk.raw_induct [of "\<lambda>rc nbi pid acc r. parents_end nbi pid"])
  fix walk rc nbi pid acc r
  assume "\<And>rc nbi pid acc r. walk rc nbi pid acc = Some (r :: int) \<Longrightarrow> parents_end nbi pid"
    and "(if pid = [] then Some acc
      else case aget nbi pid of None \<Rightarrow> Some acc
           | Some loop \<Rightarrow> walk rc nbi (n_parent loop) (wrap64 (acc * loop_max_rounds rc loop))) = Some r"
  then show "parents_end nbi pid"
    by (cases "pid = []"; cases "aget nbi pid") (auto intro: parents_end.intros)
qed

lemma node_max_instances_returns:
  "node_max_instances rc nbi n = None \<longleftrightarrow> \<not> parents_end nbi (n_parent n)"
  using max_instances_returns [of nbi "n_parent n" rc 1] max_instances_returned [of rc nbi "n_parent n" 1]
  by (cases "max_instances_walk rc nbi (n_parent n) 1") (auto simp: node_max_instances_def)

lemma descendant_returns: "parents_end nbi pid \<Longrightarrow> descendant_walk nbi c pid \<noteq> None"
  by (induction rule: parents_end.induct) (subst descendant_walk.simps, simp del: not_None_eq)+

lemma per_round_returns: "parents_end nbi pid \<Longrightarrow> per_round_walk rc nbi c pid acc \<noteq> None"
  by (induction arbitrary: acc rule: parents_end.induct) (subst per_round_walk.simps, simp)+

text \<open>A set of known nodes closed under the parent link has no end.\<close>

lemma parent_cycle:
  assumes "parents_end nbi pid" "pid \<in> C"
    and "\<And>q. q \<in> C \<Longrightarrow> q \<noteq> [] \<and> (\<exists>p. aget nbi q = Some p \<and> n_parent p \<in> C)"
  shows False
  using assms(1,2)
proof (induction rule: parents_end.induct)
  case (parent pid p)
  from assms(3) [OF parent.prems] parent show ?case by auto
qed (use assms(3) in fastforce)+

lemma sum_business_None:
  "sum_business per ns t = None \<longleftrightarrow> (\<exists>n \<in> set ns. is_business (n_type n) \<and> per n = None)"
  by (induction per ns t rule: sum_business.induct) (auto split: option.splits)

lemma sum_business_value:
  assumes "\<And>n. n \<in> set ns \<Longrightarrow> is_business (n_type n) \<Longrightarrow> per n = Some (f n)"
  shows "sum_business per ns t = Some s \<Longrightarrow>
    wrap64 s = wrap64 (t + sum_list (map f (filter (is_business \<circ> n_type) ns)))"
  using assms
proof (induction per ns t rule: sum_business.induct)
  case (2 per n ns tot)
  show ?case
  proof (cases "is_business (n_type n)")
    case True
    have "per n = Some (f n)" using "2.prems"(2) True by simp
    then show ?thesis using 2 True by (simp add: add.assoc)
  next
    case False
    with 2 show ?thesis by simp
  qed
qed simp

text \<open>What the initial denominator needs to be computed at all.\<close>

definition parents_ok :: "graph_config \<Rightarrow> bool" where
  "parents_ok cfg \<longleftrightarrow>
     (\<forall>n \<in> set (gc_nodes cfg). is_business (n_type n) \<longrightarrow> parents_end (nodes_by_id cfg) (n_parent n))"

lemma initial_graph_progress_None: "initial_graph_progress cfg = None \<longleftrightarrow> \<not> parents_ok cfg"
  by (auto simp: initial_graph_progress_def sum_business_None parents_ok_def node_max_instances_returns)


subsection \<open>The share of a loop's subgraph\<close>

text \<open>The chain of ancestors, from the nearest one up.\<close>

inductive up_chain :: "(string \<times> graph_node) list \<Rightarrow> string \<Rightarrow> graph_node list \<Rightarrow> bool" for nbi where
  top: "pid = [] \<or> aget nbi pid = None \<Longrightarrow> up_chain nbi pid []"
| up: "pid \<noteq> [] \<Longrightarrow> aget nbi pid = Some p \<Longrightarrow> up_chain nbi (n_parent p) ns \<Longrightarrow> up_chain nbi pid (p # ns)"

lemma parents_end_chain: "parents_end nbi pid \<Longrightarrow> \<exists>ns. up_chain nbi pid ns"
  by (induction rule: parents_end.induct) (metis up_chain.intros)+

lemma chain_parents_end: "up_chain nbi pid ns \<Longrightarrow> parents_end nbi pid"
  by (induction rule: up_chain.induct) (auto intro: parents_end.intros)

definition rounds_product :: "graph_run_config \<Rightarrow> graph_node list \<Rightarrow> int" where
  "rounds_product rc ns = prod_list (map (loop_max_rounds rc) ns)"

definition rounds_fold :: "graph_run_config \<Rightarrow> graph_node list \<Rightarrow> int \<Rightarrow> int" where
  "rounds_fold rc ns acc = fold (\<lambda>l x. wrap64 (x * loop_max_rounds rc l)) ns acc"

lemma rounds_fold_product: "wrap64 (rounds_fold rc ns acc) = wrap64 (acc * rounds_product rc ns)"
proof (induction ns arbitrary: acc)
  case (Cons n ns)
  have "wrap64 (rounds_fold rc (n # ns) acc)
      = wrap64 (wrap64 (acc * loop_max_rounds rc n) * rounds_product rc ns)"
    using Cons [of "wrap64 (acc * loop_max_rounds rc n)"] by (simp add: rounds_fold_def)
  then show ?case by (simp add: rounds_product_def mult.assoc)
qed (simp add: rounds_fold_def rounds_product_def)

lemma max_instances_chain:
  "up_chain nbi pid ns \<Longrightarrow> max_instances_walk rc nbi pid acc = Some (rounds_fold rc ns acc)"
  by (induction arbitrary: acc rule: up_chain.induct)
    (subst max_instances_walk.simps, auto simp: rounds_fold_def split: option.splits)+

lemma descendant_chain:
  assumes "up_chain nbi pid ns" "descendant_walk nbi c pid = Some True" "aget nbi c = Some cn"
  shows "\<exists>below above. ns = below @ cn # above \<and> up_chain nbi (n_parent cn) above
    \<and> (\<forall>acc. per_round_walk rc nbi c pid acc = Some (rounds_fold rc below acc))"
  using assms
proof (induction rule: up_chain.induct)
  case (top pid)
  then show ?case by (subst (asm) descendant_walk.simps) (auto split: if_splits option.splits)
next
  case (up pid p ns)
  show ?case
  proof (cases "pid = c")
    case True
    with up have "p = cn" by simp
    with True up.hyps show ?thesis
      by (intro exI [of _ "[]"] exI [of _ ns])
        (simp add: per_round_walk.simps rounds_fold_def)
  next
    case False
    with up have "descendant_walk nbi c (n_parent p) = Some True"
      by (subst (asm) descendant_walk.simps) simp
    with up obtain below above where
      "ns = below @ cn # above" "up_chain nbi (n_parent cn) above"
      "\<And>acc. per_round_walk rc nbi c (n_parent p) acc = Some (rounds_fold rc below acc)"
      by blast
    with False up.hyps show ?thesis
      by (intro exI [of _ "p # below"] exI [of _ above])
        (subst per_round_walk.simps, simp add: rounds_fold_def)
  qed
qed

text \<open>
  One instance bound for a node is its container's bound, times the container's rounds, times the
  node's instances in one round.
\<close>

lemma max_instances_share:
  assumes "is_descendant_of nbi n c = Some True" "aget nbi c = Some cn"
    and "parents_end nbi (n_parent n)"
  shows "\<exists>m p k. node_max_instances rc nbi n = Some m \<and> instances_per_round rc nbi n c = Some p
    \<and> node_max_instances rc nbi cn = Some k \<and> wrap64 m = wrap64 (k * loop_max_rounds rc cn * p)"
proof -
  obtain ns where ns: "up_chain nbi (n_parent n) ns" using parents_end_chain [OF assms(3)] by blast
  obtain below above where parts: "ns = below @ cn # above" "up_chain nbi (n_parent cn) above"
    "per_round_walk rc nbi c (n_parent n) 1 = Some (rounds_fold rc below 1)"
    using descendant_chain [OF ns assms(1) [unfolded is_descendant_of_def] assms(2)] by blast
  have "wrap64 (rounds_fold rc ns 1)
      = wrap64 (rounds_product rc above * loop_max_rounds rc cn * rounds_product rc below)"
    using rounds_fold_product [of rc ns 1] by (simp add: parts(1) rounds_product_def ac_simps)
  also have "\<dots> = wrap64 (rounds_fold rc above 1 * loop_max_rounds rc cn * rounds_fold rc below 1)"
    using rounds_fold_product [of rc above 1] rounds_fold_product [of rc below 1]
    by (metis mult_1 wrap64_mult)
  finally show ?thesis
    using max_instances_chain [OF ns] max_instances_chain [OF parts(2)] parts(3)
    by (simp add: node_max_instances_def instances_per_round_def)
qed

lemma filtered_share:
  assumes "\<And>n. n \<in> set xs \<Longrightarrow> d n \<Longrightarrow> wrap64 (f n) = wrap64 (R * g n)" "\<And>n. \<not> d n \<Longrightarrow> g n = 0"
  shows "wrap64 (sum_list (map f (filter P (filter d xs)))) = wrap64 (R * sum_list (map g (filter P xs)))"
  using assms(1)
proof (induction xs)
  case (Cons n xs)
  then have IH: "wrap64 (sum_list (map f (filter P (filter d xs)))) = wrap64 (R * sum_list (map g (filter P xs)))"
    by simp
  show ?case
  proof (cases "P n \<and> d n")
    case True
    with Cons.prems [of n] have "wrap64 (f n) = wrap64 (R * g n)" by simp
    with IH have "wrap64 (f n + sum_list (map f (filter P (filter d xs))))
        = wrap64 (R * g n + R * sum_list (map g (filter P xs)))"
      by (metis wrap64_add)
    with True show ?thesis by (simp add: distrib_left)
  next
    case False
    with IH assms(2) [of n] show ?thesis by auto
  qed
qed simp

subsection \<open>Counters\<close>

definition has_status :: "instance_status \<Rightarrow> instance_state \<Rightarrow> bool" where
  "has_status s st \<longleftrightarrow> is_status st = s"

lemma tally_fold:
  "fold (\<lambda>(k, st) p. tally st p) m p =
    p\<lparr> gp_completed := gp_completed p + int (acount (has_status InstSucceeded) m),
       gp_failed := gp_failed p + int (acount (has_status InstFailed) m),
       gp_skipped := gp_skipped p + int (acount (has_status InstSkipped) m),
       gp_interrupted := gp_interrupted p + int (acount (has_status InstInterrupted) m),
       gp_running := gp_running p + int (acount (has_status InstRunning) m),
       gp_current_keys := gp_current_keys p @ map (is_key \<circ> snd) (filter (has_status InstRunning \<circ> snd) m) \<rparr>"
  by (induction m arbitrary: p) (auto simp: tally_def has_status_def split: instance_status.splits)

lemma update_run_progress_eq:
  "update_run_progress run m = run\<lparr>gr_progress := Some
    \<lparr> gp_total = (case gr_progress run of None \<Rightarrow> 0 | Some p \<Rightarrow> gp_total p),
      gp_completed = int (acount (has_status InstSucceeded) m),
      gp_failed = int (acount (has_status InstFailed) m),
      gp_skipped = int (acount (has_status InstSkipped) m),
      gp_interrupted = int (acount (has_status InstInterrupted) m),
      gp_running = int (acount (has_status InstRunning) m),
      gp_current_keys = map (is_key \<circ> snd) (filter (has_status InstRunning \<circ> snd) m),
      gp_last_error = (case gr_progress run of None \<Rightarrow> [] | Some p \<Rightarrow> gp_last_error p) \<rparr>\<rparr>"
  by (auto simp: update_run_progress_def tally_fold zero_progress_def Let_def split: option.splits)

lemma acount_split:
  "length m = acount (has_status InstPending) m + acount (has_status InstRunning) m
     + acount (has_status InstSucceeded) m + acount (has_status InstFailed) m
     + acount (has_status InstSkipped) m + acount (has_status InstInterrupted) m
     + acount (has_status InstAwaitingInput) m"
proof (induction m)
  case (Cons e m)
  then show ?case by (cases "is_status (snd e)") (auto simp: has_status_def)
qed simp

subsection \<open>Properties\<close>

text \<open>the initial denominator of a run is computed if and only if the parent chain of every
  node that does work ends; on a cycle of parents the walk never returns.\<close>
theorem initial_progress_returns_iff:
  "initial_graph_progress cfg = None \<longleftrightarrow> \<not> parents_ok cfg"
  by (simp add: initial_graph_progress_def sum_business_None parents_ok_def node_max_instances_returns)

text \<open>the reclaim unit is exact: the instances that the initial denominator counts for the
  subgraph of a loop are the container's own bound, times its rounds, times the count that one
  unrun round gives back, all modulo the 64-bit word.\<close>
theorem loop_share_is_rounds_times_subgraph:
  assumes "\<forall>n \<in> set (map snd nbi). parents_end nbi (n_parent n)" "aget nbi c = Some cn"
    and "node_max_instances rc nbi cn = Some k"
  shows "\<exists>s t. loop_subgraph_business_count nbi rc c = Some s
    \<and> sum_business (node_max_instances rc nbi)
        (filter (\<lambda>n. is_descendant_of nbi n c = Some True) (map snd nbi)) 0 = Some t
    \<and> wrap64 t = wrap64 (k * loop_max_rounds rc cn * s)"
proof -
  let ?R = "k * loop_max_rounds rc cn" and ?ns = "map snd nbi"
  let ?d = "\<lambda>n. is_descendant_of nbi n c = Some True"
  let ?per = "\<lambda>n. case is_descendant_of nbi n c of None \<Rightarrow> None | Some False \<Rightarrow> Some 0
            | Some True \<Rightarrow> instances_per_round rc nbi n c"
  let ?g = "\<lambda>n. if ?d n then the (instances_per_round rc nbi n c) else 0"
  let ?f = "\<lambda>n. the (node_max_instances rc nbi n)"
  have per: "?per n = Some (?g n)" if "n \<in> set ?ns" for n
  proof -
    have "is_descendant_of nbi n c \<noteq> None" "instances_per_round rc nbi n c \<noteq> None"
      using assms(1) that descendant_returns [of nbi "n_parent n"] per_round_returns [of nbi "n_parent n"]
      unfolding is_descendant_of_def instances_per_round_def by blast+
    then show ?thesis by (auto split: bool.splits)
  qed
  have max: "node_max_instances rc nbi n = Some (?f n)" if "n \<in> set ?ns" for n
    using assms(1) that node_max_instances_returns [of rc nbi n] by auto
  have share: "wrap64 (?f n) = wrap64 (?R * ?g n)" if "n \<in> set ?ns" "?d n" for n
  proof -
    have "parents_end nbi (n_parent n)" using assms(1) that(1) by blast
    from max_instances_share [OF that(2) assms(2) this, of rc] assms(3) that(2) show ?thesis by auto
  qed
  obtain s where s: "sum_business ?per ?ns 0 = Some s"
    using sum_business_None [of ?per ?ns 0] per by fastforce
  obtain t where t: "sum_business (node_max_instances rc nbi) (filter ?d ?ns) 0 = Some t"
    using sum_business_None [of "node_max_instances rc nbi" "filter ?d ?ns" 0] max by fastforce
  have "wrap64 (sum_list (map ?f (filter (is_business \<circ> n_type) (filter ?d ?ns))))
      = wrap64 (?R * sum_list (map ?g (filter (is_business \<circ> n_type) ?ns)))"
    using share by (intro filtered_share) auto
  moreover have "wrap64 t = wrap64 (sum_list (map ?f (filter (is_business \<circ> n_type) (filter ?d ?ns))))"
    using sum_business_value [OF max t] by simp
  moreover have "wrap64 s = wrap64 (sum_list (map ?g (filter (is_business \<circ> n_type) ?ns)))"
    using sum_business_value [OF per s] by simp
  ultimately have "wrap64 t = wrap64 (?R * s)"
    using wrap64_mult(2) [of ?R s] wrap64_mult(2) [of ?R "sum_list (map ?g (filter (is_business \<circ> n_type) ?ns))"]
    by simp
  then show ?thesis
    using s t by (auto simp: loop_subgraph_business_count_def)
qed

text \<open>A loop of three rounds with one shell node inside.\<close>

definition sample_loop :: graph_node where
  "sample_loop = \<lparr> n_id = ''L'', n_type = NLoop, n_title = [], n_parent = [],
     n_config = empty_node_config\<lparr>nc_loop_mode := LoopFixed, nc_fixed_count := 3\<rparr> \<rparr>"

definition sample_body :: graph_node where
  "sample_body = \<lparr> n_id = ''s'', n_type = NShell, n_title = [], n_parent = ''L'',
     n_config = empty_node_config \<rparr>"

lemmas sample_simps = sample_loop_def sample_body_def empty_node_config_def

lemma sample_parents_end:
  "\<forall>n \<in> set (map snd [(''L'', sample_loop), (''s'', sample_body)]).
     parents_end [(''L'', sample_loop), (''s'', sample_body)] (n_parent n)"
proof -
  let ?nbi = "[(''L'', sample_loop), (''s'', sample_body)]"
  have "parents_end ?nbi (n_parent sample_loop)" by (simp add: sample_loop_def parents_end.root)
  moreover from this have "parents_end ?nbi (n_parent sample_body)"
    by (rule parents_end.parent [where p = sample_loop, rotated]) (simp add: sample_body_def)
  ultimately show ?thesis by simp
qed

theorem loop_share_is_rounds_times_subgraph_witness:
  "\<exists>s t. loop_subgraph_business_count [(''L'', sample_loop), (''s'', sample_body)] empty_run_config ''L'' = Some s
    \<and> sum_business (node_max_instances empty_run_config [(''L'', sample_loop), (''s'', sample_body)])
        (filter (\<lambda>n. is_descendant_of [(''L'', sample_loop), (''s'', sample_body)] n ''L'' = Some True)
          (map snd [(''L'', sample_loop), (''s'', sample_body)])) 0 = Some t
    \<and> wrap64 t = wrap64 (1 * loop_max_rounds empty_run_config sample_loop * s)"
proof (rule loop_share_is_rounds_times_subgraph [OF sample_parents_end])
  show "node_max_instances empty_run_config [(''L'', sample_loop), (''s'', sample_body)] sample_loop = Some 1"
    unfolding node_max_instances_def by (subst max_instances_walk.simps) (simp add: sample_loop_def)
qed simp

text \<open>reclaiming never takes the denominator below the instances that already count in it, keeps
  every other counter, and is exact when the reclaimed total stays above that floor.\<close>
theorem adjust_denom_total_floor:
  "adjust_denom_total delta (Some p) = Some q \<Longrightarrow>
    gp_total q = (if delta = 0 then gp_total p
      else max (wrap64 (gp_total p + delta)) (wrap64 (gp_completed p + gp_failed p + gp_interrupted p)))
    \<and> q\<lparr>gp_total := gp_total p\<rparr> = p"
  by (auto simp: adjust_denom_total_def Let_def split: if_splits)

theorem adjust_denom_total_floor_witness:
  "gp_total (the (adjust_denom_total (- 4) (Some (zero_progress\<lparr>gp_total := 5, gp_completed := 3\<rparr>)))) = 3"
  using adjust_denom_total_floor [of "- 4" "zero_progress\<lparr>gp_total := 5, gp_completed := 3\<rparr>"
      "zero_progress\<lparr>gp_total := 3, gp_completed := 3\<rparr>"]
  by (simp add: adjust_denom_total_def zero_progress_def wrap64_def)

text \<open>the counters of a progress update are the numbers of instances with each status, whatever
  they were before; the denominator and the last error are kept, and the instances in no counter
  are exactly the pending and the awaiting ones.\<close>
theorem progress_counts_instances:
  "\<exists>p. gr_progress (update_run_progress run m) = Some p
    \<and> gp_completed p = int (acount (has_status InstSucceeded) m)
    \<and> gp_failed p = int (acount (has_status InstFailed) m)
    \<and> gp_skipped p = int (acount (has_status InstSkipped) m)
    \<and> gp_interrupted p = int (acount (has_status InstInterrupted) m)
    \<and> gp_running p = int (acount (has_status InstRunning) m)
    \<and> gp_total p = (case gr_progress run of None \<Rightarrow> 0 | Some q \<Rightarrow> gp_total q)
    \<and> gp_completed p + gp_failed p + gp_skipped p + gp_interrupted p + gp_running p
      + int (acount (has_status InstPending) m) + int (acount (has_status InstAwaitingInput) m)
      = int (length m)"
  using acount_split [of m] by (simp add: update_run_progress_eq)

end
