(* ===== verification/GraphValidate.thy ===== *)
theory GraphValidate
  imports GraphReach GraphProgress
begin

section \<open>Static validation of a graph configuration\<close>

text \<open>
  The checks of \<open>services/graph/validate.go\<close> in the order \<open>run\<close> calls them, each a function from the
  index to the violations it reports. The lemmas give what an accepted configuration satisfies and
  show that every check terminates.
\<close>

definition max_concurrency :: int where "max_concurrency = 16"
definition max_loop_max_iters :: int where "max_loop_max_iters = 1000"

definition report :: "bool \<Rightarrow> violation \<Rightarrow> violation list" where
  "report bad v = (if bad then [v] else [])"

lemma report_Nil [simp]: "report bad v = [] \<longleftrightarrow> \<not> bad"
  by (simp add: report_def)

subsection \<open>Run configuration, variables and node configurations\<close>

definition validate_run_config :: "graph_config \<Rightarrow> violation list" where
  "validate_run_config cfg =
     (let rc = gc_run_config cfg in
      report (rc_concurrency_limit rc < 0 \<or> rc_concurrency_limit rc > max_concurrency) (BadRunConfig ''concurrencyLimit'')
      @ report (rc_default_node_timeout_sec rc < 0) (BadRunConfig ''defaultNodeTimeoutSec'')
      @ report (rc_job_timeout_sec rc < 0) (BadRunConfig ''jobTimeoutSec'')
      @ report (rc_default_loop_max_iters rc < 0 \<or> rc_default_loop_max_iters rc > max_loop_max_iters)
          (BadRunConfig ''defaultLoopMaxIters'')
      @ report (rc_instance_limit rc < 0) (BadRunConfig ''instanceLimit'')
      @ report (rc_snapshot_byte_limit rc < 0) (BadRunConfig ''snapshotByteLimit''))"

definition validate_initial_variables :: "graph_config \<Rightarrow> violation list" where
  "validate_initial_variables cfg =
     concat (map (\<lambda>name. if is_reserved_var name then [ReservedVariable [] name]
                         else report (\<not> is_valid_var_name name) (InvalidVariable [] name))
       (akeys (gc_variables cfg)))"

definition validate_control_config :: "graph_node \<Rightarrow> violation list" where
  "validate_control_config n =
     (let c = n_config n in
      report (nc_script c \<noteq> [] \<or> nc_prompt c \<noteq> [] \<or> nc_agent_type c \<noteq> [] \<or> nc_condition c \<noteq> []
              \<or> nc_loop_mode c \<noteq> LoopOther [] \<or> nc_until_condition c \<noteq> [] \<or> nc_fixed_count c \<noteq> 0
              \<or> nc_max_iterations c \<noteq> 0) (ControlHasActions (n_id n))
      @ report (nc_output_variables c \<noteq> [] \<or> nc_last_assistant_alias c \<noteq> []) (ControlHasOutputs (n_id n)))"

fun output_decls :: "string \<Rightarrow> string list \<Rightarrow> string list \<Rightarrow> violation list \<times> string list" where
  "output_decls i [] seen = ([], seen)"
| "output_decls i (name # names) seen =
     (if is_reserved_var name
      then (let (es, s) = output_decls i names seen in (ReservedVariable i name # es, s))
      else if \<not> is_valid_var_name name
      then (let (es, s) = output_decls i names seen in (InvalidVariable i name # es, s))
      else if name \<in> set seen
      then (let (es, s) = output_decls i names seen in (DuplicateOutput i name # es, s))
      else output_decls i names (name # seen))"

definition validate_output_decls :: "graph_node \<Rightarrow> violation list" where
  "validate_output_decls n =
     (let (errs, seen) = output_decls (n_id n) (nc_output_variables (n_config n)) [];
          alias = nc_last_assistant_alias (n_config n)
      in errs @
        (if alias = [] then []
         else if is_reserved_var alias then [AliasReserved (n_id n) alias]
         else if \<not> is_valid_var_name alias then [AliasInvalid (n_id n) alias]
         else report (alias \<in> set seen) (AliasCollides (n_id n) alias)))"

definition validate_agent_new_session :: "graph_node \<Rightarrow> violation list" where
  "validate_agent_new_session n =
     (if nc_session_strategy (n_config n) = StrategyInherit then []
      else report (nc_agent_type (n_config n) = []) (NewSessionNeedsAgent (n_id n)))"

definition validate_if_else_config :: "graph_node \<Rightarrow> violation list" where
  "validate_if_else_config n =
     (let c = n_config n in
      (if nc_condition c = [] then [MissingCondition (n_id n)]
       else case parse_condition (nc_condition c) of
              Some (Inr e) \<Rightarrow> []
            | Some (Inl err) \<Rightarrow> [InvalidCondition (n_id n) err]
            | None \<Rightarrow> [ConditionStuck (n_id n)])
      @ report (nc_output_variables c \<noteq> [] \<or> nc_last_assistant_alias c \<noteq> []) (RouterHasOutputs (n_id n)))"

definition validate_loop_config :: "graph_node \<Rightarrow> violation list" where
  "validate_loop_config n =
     (let c = n_config n in
      (case nc_loop_mode c of
         LoopFixed \<Rightarrow> report (nc_fixed_count c < 0) (NegativeFixedCount (n_id n))
       | LoopUntil \<Rightarrow>
           (if nc_until_condition c = [] then [MissingUntil (n_id n)]
            else case parse_condition (nc_until_condition c) of
                   Some (Inr e) \<Rightarrow> []
                 | Some (Inl err) \<Rightarrow> [InvalidUntil (n_id n) err]
                 | None \<Rightarrow> [ConditionStuck (n_id n)])
       | LoopOther m \<Rightarrow> [UnknownLoopMode (n_id n)])
      @ report (nc_max_iterations c < 0 \<or> nc_max_iterations c > max_loop_max_iters) (MaxIterationsRange (n_id n))
      @ report (nc_output_variables c \<noteq> [] \<or> nc_last_assistant_alias c \<noteq> []) (LoopHasOutputs (n_id n)))"

definition validate_node_config :: "graph_node \<Rightarrow> violation list" where
  "validate_node_config n =
     (if n_id n = [] then []
      else
        (case n_type n of
           NStart \<Rightarrow> validate_control_config n
         | NEnd \<Rightarrow> validate_control_config n
         | NShell \<Rightarrow> validate_output_decls n
         | NPrompt \<Rightarrow> validate_output_decls n @ validate_agent_new_session n
         | NClarify \<Rightarrow> report (n_parent n \<noteq> []) (ClarifyInLoop (n_id n))
             @ validate_output_decls n @ validate_agent_new_session n
         | NIfElse \<Rightarrow> validate_if_else_config n
         | NLoop \<Rightarrow> validate_loop_config n
         | NOther t \<Rightarrow> [UnknownNodeType (n_id n)])
        @ (case nc_timeout_seconds (n_config n) of
             None \<Rightarrow> [] | Some t \<Rightarrow> report (t < 0) (NegativeTimeout (n_id n))))"

definition validate_node_configs :: "graph_config \<Rightarrow> violation list" where
  "validate_node_configs cfg = concat (map validate_node_config (gc_nodes cfg))"

definition validate_parent_scope :: "validator \<Rightarrow> graph_node \<Rightarrow> violation list" where
  "validate_parent_scope v n =
     (if n_id n = [] \<or> n_parent n = [] then []
      else if n_parent n = n_id n then [ParentIsSelf (n_id n)]
      else case node_of v (n_parent n) of
             None \<Rightarrow> [ParentMissing (n_id n) (n_parent n)]
           | Some parent \<Rightarrow> report (n_type parent \<noteq> NLoop) (ParentNotLoop (n_id n) (n_parent n)))"

definition validate_parent_scopes :: "validator \<Rightarrow> violation list" where
  "validate_parent_scopes v = concat (map (validate_parent_scope v) (gc_nodes (va_cfg v)))"

subsection \<open>Ports and edge scopes\<close>

definition is_branch_port :: "edge_port \<Rightarrow> bool" where
  "is_branch_port p \<longleftrightarrow> p = PortYes \<or> p = PortNo"

definition validate_edge_port :: "validator \<Rightarrow> graph_edge \<Rightarrow> violation list" where
  "validate_edge_port v e =
     (case node_of v (e_source e) of
        None \<Rightarrow> []
      | Some src \<Rightarrow>
          if n_type src = NIfElse then report (\<not> is_branch_port (e_source_port e)) (RouterPortRequired (e_id e))
          else report (is_branch_port (e_source_port e)) (BranchPortForbidden (e_id e)))"

definition count_port :: "validator \<Rightarrow> string \<Rightarrow> edge_port \<Rightarrow> nat" where
  "count_port v i p = length (filter (\<lambda>e. e_source_port e = p) (out_edges v i))"

definition validate_branches :: "validator \<Rightarrow> graph_node \<Rightarrow> violation list" where
  "validate_branches v n =
     (if n_id n = [] \<or> n_type n \<noteq> NIfElse then []
      else let yes = count_port v (n_id n) PortYes; no = count_port v (n_id n) PortNo
           in report (yes \<noteq> 1 \<or> no \<noteq> 1) (RouterBranches (n_id n) yes no))"

definition validate_ports :: "validator \<Rightarrow> violation list" where
  "validate_ports v = concat (map (validate_edge_port v) (gc_edges (va_cfg v)))
     @ concat (map (validate_branches v) (gc_nodes (va_cfg v)))"

definition validate_edge_scope :: "validator \<Rightarrow> graph_edge \<Rightarrow> violation list" where
  "validate_edge_scope v e =
     (case (node_of v (e_source e), node_of v (e_target e)) of
        (Some src, Some dst) \<Rightarrow> report (n_parent src \<noteq> n_parent dst) (EdgeCrossesScope (e_id e))
      | _ \<Rightarrow> [])"

definition validate_edge_scopes :: "validator \<Rightarrow> violation list" where
  "validate_edge_scopes v = concat (map (validate_edge_scope v) (gc_edges (va_cfg v)))"

subsection \<open>Structure and reachability\<close>

definition scope_ends :: "validator \<Rightarrow> string \<Rightarrow> string list" where
  "scope_ends v scope = map n_id (filter (\<lambda>n. n_type n = NEnd) (scope_nodes v scope))"

definition validate_degrees :: "validator \<Rightarrow> graph_node \<Rightarrow> violation list" where
  "validate_degrees v n =
     (if n_id n = [] then []
      else let ins = in_deg v (n_id n); outs = length (out_edges v (n_id n)) in
        case n_type n of
          NStart \<Rightarrow> report (ins \<noteq> 0) (StartHasInEdge (n_id n)) @ report (outs = 0) (StartHasNoOutEdge (n_id n))
        | NEnd \<Rightarrow> report (outs \<noteq> 0) (EndHasOutEdge (n_id n)) @ report (ins = 0) (EndHasNoInEdge (n_id n))
        | _ \<Rightarrow> report (ins = 0) (NodeHasNoInEdge (n_id n)) @ report (outs = 0) (NodeHasNoOutEdge (n_id n)))"

definition check_can_reach_end :: "validator \<Rightarrow> string \<Rightarrow> string list \<Rightarrow> violation list" where
  "check_can_reach_end v scope ends =
     (if ends = [] then []
      else let can = can_reach v scope ends;
               reach = reachable_from v (entries_of_scope v scope) scope []
           in concat (map (\<lambda>n. if n_type n = NEnd \<or> n_type n = NStart then []
                               else report (n_id n \<in> set reach \<and> n_id n \<notin> set can) (CannotReachEnd (n_id n)))
                (scope_nodes v scope)))"

definition validate_structure :: "validator \<Rightarrow> violation list" where
  "validate_structure v =
     (let main = scope_nodes v [];
          has = (\<lambda>P. list_ex (\<lambda>n. P (n_type n)) main);
          reach = reachable_from v (entries_of_scope v []) [] []
      in report (\<not> has (\<lambda>t. t = NStart)) NoStart
         @ report (\<not> has (\<lambda>t. t = NEnd)) NoEnd
         @ report (\<not> has is_business) NoBusiness
         @ concat (map (validate_degrees v) (gc_nodes (va_cfg v)))
         @ concat (map (\<lambda>n. report (n_type n \<noteq> NStart \<and> n_id n \<notin> set reach) (NotReachable (n_id n))) main)
         @ report (has (\<lambda>t. t = NEnd) \<and> \<not> list_ex (\<lambda>n. n_type n = NEnd \<and> n_id n \<in> set reach) main) NoEndReachable
         @ check_can_reach_end v [] (scope_ends v []))"

definition validate_cycles :: "validator \<Rightarrow> violation list" where
  "validate_cycles v =
     concat (map (\<lambda>scope. case detect_cycle v scope of
                            None \<Rightarrow> [SearchStuck scope]
                          | Some None \<Rightarrow> []
                          | Some (Some x) \<Rightarrow> [CycleInScope scope x]) (scope_ids v))"

definition validate_loop_subgraph :: "validator \<Rightarrow> graph_node \<Rightarrow> violation list" where
  "validate_loop_subgraph v n =
     (if n_type n \<noteq> NLoop then []
      else let scope = n_id n; children = scope_nodes v scope in
        if children = [] then [EmptyLoop (n_id n)]
        else
          let starts = entries_of_scope v scope; ends = scope_ends v scope in
          report (length starts \<noteq> 1) (LoopStarts (n_id n) (length starts))
          @ report (ends = []) (LoopHasNoEnd (n_id n))
          @ check_can_reach_end v scope ends
          @ (if length starts = 1
             then let reach = reachable_from v starts scope [] in
               concat (map (\<lambda>c. report (n_type c \<noteq> NStart \<and> n_id c \<notin> set starts \<and> n_id c \<notin> set reach)
                                  (NotReachableInLoop (n_id c) (n_id n))) children)
             else []))"

definition validate_loop_subgraphs :: "validator \<Rightarrow> violation list" where
  "validate_loop_subgraphs v = concat (map (validate_loop_subgraph v) (gc_nodes (va_cfg v)))"

subsection \<open>The first agent of a start chain\<close>

definition visit_chain :: "validator \<Rightarrow> string \<Rightarrow> graph_edge \<Rightarrow>
    string list \<times> string list \<times> string list \<times> violation list \<Rightarrow>
    string list \<times> string list \<times> string list \<times> violation list" where
  "visit_chain v start e st =
     (case st of (visited, queue, reported, errs) \<Rightarrow>
        case node_of v (e_target e) of
          None \<Rightarrow> st
        | Some next \<Rightarrow>
            if n_id next \<in> set visited then st
            else let visited = n_id next # visited in
              if is_agent (n_type next) then
                (if nc_session_strategy (n_config next) = StrategyInherit \<and> n_id next \<notin> set reported
                 then (visited, queue, n_id next # reported, errs @ [FirstAgentInherits (n_id next) start])
                 else (visited, queue, reported, errs))
              else (visited, queue @ [n_id next], reported, errs))"

definition unvisited_nodes :: "validator \<Rightarrow> string list \<Rightarrow> nat" where
  "unvisited_nodes v visited = length (filter (\<lambda>n. n_id n \<notin> set visited) (map snd (va_nodes v)))"

lemma visit_chain_measure:
  "fold (visit_chain v start) es (vis, queue, rep, errs) = (vis', queue', rep', errs') \<Longrightarrow>
   unvisited_nodes v vis' + length queue' \<le> unvisited_nodes v vis + length queue"
proof (induction es arbitrary: vis queue rep errs)
  case (Cons e es)
  obtain w q r s where step: "visit_chain v start e (vis, queue, rep, errs) = (w, q, r, s)"
    by (cases "visit_chain v start e (vis, queue, rep, errs)") auto
  have less: "unvisited_nodes v (n_id n # vis) < unvisited_nodes v vis"
    if "node_of v (e_target e) = Some n" "n_id n \<notin> set vis" for n
    unfolding unvisited_nodes_def using that
    by (intro filter_shrinks [of n]) (auto simp: node_of_def dest!: map_of_SomeD intro: rev_image_eqI)
  have "unvisited_nodes v w + length q \<le> unvisited_nodes v vis + length queue"
    using step less by (force simp: visit_chain_def Let_def split: option.splits if_splits)
  moreover have "unvisited_nodes v vis' + length queue' \<le> unvisited_nodes v w + length q"
    using Cons.IH [of w q r s] Cons.prems step by simp
  ultimately show ?case by simp
qed simp

function walk_chain :: "validator \<Rightarrow> string \<Rightarrow> string list \<Rightarrow> string list \<Rightarrow> string list \<Rightarrow> violation list \<Rightarrow>
    string list \<times> violation list" where
  "walk_chain v start visited [] reported errs = (reported, errs)"
| "walk_chain v start visited (cur # queue) reported errs =
     (let (visited', queue', reported', errs') =
            fold (visit_chain v start) (out_edges v cur) (visited, queue, reported, errs)
      in walk_chain v start visited' queue' reported' errs')"
  by pat_completeness auto
termination
proof (relation "measure (\<lambda>(v, start, vis, queue, rep, errs). unvisited_nodes v vis + length queue)", simp)
  fix v start vis cur queue rep errs x vis' y queue' z rep' errs'
  assume "x = fold (visit_chain v start) (out_edges v cur) (vis, queue, rep, errs)"
    "(vis', y) = x" "(queue', z) = y" "(rep', errs') = z"
  then have "fold (visit_chain v start) (out_edges v cur) (vis, queue, rep, errs) = (vis', queue', rep', errs')"
    by simp
  from visit_chain_measure [OF this]
  show "((v, start, vis', queue', rep', errs'), v, start, vis, cur # queue, rep, errs)
      \<in> measure (\<lambda>(v, start, vis, queue, rep, errs). unvisited_nodes v vis + length queue)" by simp
qed

definition validate_first_agent_new_session :: "validator \<Rightarrow> violation list" where
  "validate_first_agent_new_session v =
     snd (fold (\<lambda>start (reported, errs). walk_chain v start [start] [start] reported errs)
            (entries_of_scope v []) ([], []))"

subsection \<open>Conflicting outputs\<close>

definition declared_names :: "graph_node \<Rightarrow> string list" where
  "declared_names n = nc_output_variables (n_config n)
     @ (if nc_last_assistant_alias (n_config n) \<noteq> [] then [nc_last_assistant_alias (n_config n)] else [])"

fun intersect_seen :: "string list \<Rightarrow> string list \<Rightarrow> string list \<Rightarrow> string list" where
  "intersect_seen a [] seen = []"
| "intersect_seen a (s # b) seen =
     (if s \<in> set a \<and> s \<notin> set seen then s # intersect_seen a b (s # seen) else intersect_seen a b seen)"

definition intersect :: "string list \<Rightarrow> string list \<Rightarrow> string list" where
  "intersect a b = intersect_seen a b []"

text \<open>Two nodes of a scope that no path connects and no if-else separates may run at the same time.\<close>

definition maybe_parallel :: "validator \<Rightarrow> string \<Rightarrow> graph_node \<Rightarrow> graph_node \<Rightarrow> bool" where
  "maybe_parallel v scope a b \<longleftrightarrow>
     \<not> (n_id b \<in> set (reachable_from v [n_id a] scope []) \<or> n_id a \<in> set (reachable_from v [n_id b] scope []))
     \<and> \<not> mutually_exclusive (n_id a) (n_id b) (branch_dominators v scope (entries_of_scope v scope))"

fun pairs_check :: "('a \<Rightarrow> 'a \<Rightarrow> violation list) \<Rightarrow> 'a list \<Rightarrow> violation list" where
  "pairs_check check [] = []"
| "pairs_check check (x # xs) = concat (map (check x) xs) @ pairs_check check xs"

definition output_conflict :: "validator \<Rightarrow> string \<Rightarrow> graph_node \<Rightarrow> graph_node \<Rightarrow> violation list" where
  "output_conflict v scope a b =
     (if \<not> maybe_parallel v scope a b then []
      else concat (map (\<lambda>name. [OutputConflict (n_id a) name (n_id b), OutputConflict (n_id b) name (n_id a)])
             (intersect (declared_names a) (declared_names b))))"

definition check_scope_output_conflicts :: "validator \<Rightarrow> string \<Rightarrow> violation list" where
  "check_scope_output_conflicts v scope =
     pairs_check (output_conflict v scope) (filter (\<lambda>n. declared_names n \<noteq> []) (scope_nodes v scope))"

definition validate_output_conflicts :: "validator \<Rightarrow> violation list" where
  "validate_output_conflicts v = concat (map (check_scope_output_conflicts v) (scope_ids v))"

subsection \<open>Session sources\<close>

definition intra_scope_in_edge_sources :: "validator \<Rightarrow> string \<Rightarrow> string \<Rightarrow> string list" where
  "intra_scope_in_edge_sources v scope i =
     concat (map (\<lambda>n. map (\<lambda>e. n_id n) (filter (\<lambda>e. e_target e = i) (out_edges v (n_id n)))) (scope_nodes v scope))"

definition entry_token :: "string \<Rightarrow> string" where
  "entry_token scope = ''loop-inflow:'' @ scope"

definition sources_of :: "validator \<Rightarrow> string \<Rightarrow> string \<Rightarrow> (string \<times> string list) list \<Rightarrow> string list" where
  "sources_of v scope i src_set =
     (let ins = concat (map (\<lambda>up. case aget src_set up of None \<Rightarrow> [] | Some s \<Rightarrow> s)
                  (intra_scope_in_edge_sources v scope i))
      in case node_of v i of
           None \<Rightarrow> ins
         | Some n \<Rightarrow>
             if n_type n = NStart then (if scope = [] then [] else [entry_token scope])
             else if is_agent (n_type n) \<and> nc_session_strategy (n_config n) \<noteq> StrategyInherit then [i]
             else ins)"

definition remaining_of :: "(string \<times> int) list \<Rightarrow> string \<Rightarrow> int" where
  "remaining_of rem i = (case aget rem i of None \<Rightarrow> 0 | Some d \<Rightarrow> d)"

definition release_edge :: "validator \<Rightarrow> string \<Rightarrow> graph_edge \<Rightarrow> (string \<times> int) list \<times> string list \<Rightarrow> (string \<times> int) list \<times> string list" where
  "release_edge v scope e st =
     (case st of (rem, queue) \<Rightarrow>
        if \<not> in_scope v scope (e_target e) then st
        else let d = remaining_of rem (e_target e) - 1; rem = aput (e_target e) d rem
             in if d = 0 then (rem, queue @ [e_target e]) else (rem, queue))"

definition waiting :: "validator \<Rightarrow> (string \<times> int) list \<Rightarrow> nat" where
  "waiting v rem = length (filter (\<lambda>i. remaining_of rem i > 0) (akeys (va_nodes v)))"

lemma remaining_aput: "remaining_of (aput t d rem) i = (if i = t then d else remaining_of rem i)"
  by (simp add: remaining_of_def)

lemma filter_le: "(\<And>y. Q y \<Longrightarrow> P y) \<Longrightarrow> length (filter Q xs) \<le> length (filter P xs)"
  by (induction xs) auto

lemma release_edges_measure:
  "fold (release_edge v scope) es (rem, queue) = (rem', queue') \<Longrightarrow>
   waiting v rem' + length queue' \<le> waiting v rem + length queue"
proof (induction es arbitrary: rem queue)
  case (Cons e es)
  let ?t = "e_target e"
  obtain r q where step: "release_edge v scope e (rem, queue) = (r, q)" by fastforce
  have drop: "waiting v (aput ?t 0 rem) < waiting v rem" if "in_scope v scope ?t" "remaining_of rem ?t = 1"
    unfolding waiting_def using that in_scope_known [of v scope ?t]
    by (intro filter_shrinks [of ?t]) (auto simp: remaining_aput split: if_splits)
  have keep: "waiting v (aput ?t (remaining_of rem ?t - 1) rem) \<le> waiting v rem"
    unfolding waiting_def by (rule filter_le) (auto simp: remaining_aput split: if_splits)
  consider "\<not> in_scope v scope ?t" | "in_scope v scope ?t" "remaining_of rem ?t = 1"
    | "in_scope v scope ?t" "remaining_of rem ?t \<noteq> 1" by blast
  then have "waiting v r + length q \<le> waiting v rem + length queue"
    by cases (use step drop keep in \<open>auto simp: release_edge_def Let_def\<close>)
  moreover have "waiting v rem' + length queue' \<le> waiting v r + length q"
    using Cons.IH [of r q] Cons.prems step by simp
  ultimately show ?case by simp
qed simp

function session_sources :: "validator \<Rightarrow> string \<Rightarrow> (string \<times> int) list \<Rightarrow> string list \<Rightarrow>
    (string \<times> string list) list \<Rightarrow> (string \<times> string list) list" where
  "session_sources v scope rem [] src_set = src_set"
| "session_sources v scope rem (i # queue) src_set =
     (let src_set = aput i (sources_of v scope i src_set) src_set;
          (rem', queue') = fold (release_edge v scope) (out_edges v i) (rem, queue)
      in session_sources v scope rem' queue' src_set)"
  by pat_completeness auto
termination
proof (relation "measure (\<lambda>(v, scope, rem, queue, src). waiting v rem + length queue)", simp)
  fix v scope rem i queue src src' x rem' queue'
  assume "x = fold (release_edge v scope) (out_edges v i) (rem, queue)" "(rem', queue') = x"
  then have "fold (release_edge v scope) (out_edges v i) (rem, queue) = (rem', queue')" by simp
  from release_edges_measure [OF this]
  show "((v, scope, rem', queue', src'), v, scope, rem, i # queue, src)
      \<in> measure (\<lambda>(v, scope, rem, queue, src). waiting v rem + length queue)" by simp
qed

definition session_source_sets :: "validator \<Rightarrow> string \<Rightarrow> (string \<times> string list) list" where
  "session_source_sets v scope =
     (let ids = map n_id (scope_nodes v scope)
      in session_sources v scope (map (\<lambda>i. (i, int (in_deg v i))) ids)
           (filter (\<lambda>i. in_deg v i = 0) ids) [])"

definition sets_intersect :: "string list \<Rightarrow> string list \<Rightarrow> bool" where
  "sets_intersect a b \<longleftrightarrow> list_ex (\<lambda>x. x \<in> set b) a"

definition session_conflict :: "validator \<Rightarrow> string \<Rightarrow> (string \<times> string list) list \<Rightarrow> graph_node \<Rightarrow> graph_node \<Rightarrow> violation list" where
  "session_conflict v scope src a b =
     (let of_node = (\<lambda>n. case aget src (n_id n) of None \<Rightarrow> [] | Some s \<Rightarrow> s) in
      if \<not> maybe_parallel v scope a b \<or> \<not> sets_intersect (of_node a) (of_node b) then []
      else [SessionConflict (n_id a) (n_id b), SessionConflict (n_id b) (n_id a)])"

definition check_scope_session_collisions :: "validator \<Rightarrow> string \<Rightarrow> violation list" where
  "check_scope_session_collisions v scope =
     pairs_check (session_conflict v scope (session_source_sets v scope))
       (filter (\<lambda>n. is_agent (n_type n)) (scope_nodes v scope))"

definition validate_parallel_session_reuse :: "validator \<Rightarrow> violation list" where
  "validate_parallel_session_reuse v = concat (map (check_scope_session_collisions v) (scope_ids v))"

subsection \<open>The whole check\<close>

definition validate_config :: "graph_config \<Rightarrow> violation list" where
  "validate_config cfg =
     (let (errs, v) = index_config cfg in
      errs @ validate_run_config cfg @ validate_initial_variables cfg @ validate_node_configs cfg
      @ validate_parent_scopes v @ validate_ports v @ validate_edge_scopes v @ validate_structure v
      @ validate_cycles v @ validate_loop_subgraphs v @ validate_first_agent_new_session v
      @ validate_output_conflicts v @ validate_parallel_session_reuse v)"

end
