(* ===== verification/GraphValidated.thy ===== *)
theory GraphValidated
  imports GraphValidate
begin

section \<open>What an accepted configuration guarantees\<close>

text \<open>
  The consequences of \<open>validateConfig\<close> reporting nothing, on which the scheduler relies: unique
  identifiers, edges inside one scope, no cycle, every node on a path from its scope's start to an
  end, conditions that parse, bounded loops, and no two agents of one scope on one session at the
  same time. Two configurations at the end show what the checks do not cover.
\<close>

abbreviation indexed :: "graph_config \<Rightarrow> validator" where
  "indexed cfg \<equiv> snd (index_config cfg)"

lemma validate_config_Nil:
  "validate_config cfg = [] \<longleftrightarrow>
     fst (index_config cfg) = [] \<and> validate_run_config cfg = [] \<and> validate_initial_variables cfg = []
     \<and> validate_node_configs cfg = [] \<and> validate_parent_scopes (indexed cfg) = []
     \<and> validate_ports (indexed cfg) = [] \<and> validate_edge_scopes (indexed cfg) = []
     \<and> validate_structure (indexed cfg) = [] \<and> validate_cycles (indexed cfg) = []
     \<and> validate_loop_subgraphs (indexed cfg) = [] \<and> validate_first_agent_new_session (indexed cfg) = []
     \<and> validate_output_conflicts (indexed cfg) = [] \<and> validate_parallel_session_reuse (indexed cfg) = []"
  by (simp add: validate_config_def case_prod_beta)

subsection \<open>The index of an accepted configuration\<close>

lemma index_nodes_clean:
  "fst (index_nodes ns m) = [] \<Longrightarrow>
   snd (index_nodes ns m) = m @ map (\<lambda>n. (n_id n, n)) ns \<and> (\<forall>n \<in> set ns. n_id n \<noteq> [])"
proof (induction ns arbitrary: m)
  case (Cons n ns)
  then have "n_id n \<noteq> [] \<and> aget m (n_id n) = None"
    by (cases "n_id n = []"; cases "aget m (n_id n)") (simp_all add: case_prod_beta)
  with Cons.prems Cons.IH [of "m @ [(n_id n, n)]"] show ?case by simp
qed simp

text \<open>One edge that raises no error: its identifier is fresh and both ends are known.\<close>

lemma index_edge_clean:
  assumes "fst (index_edges nbi (e # es) seen) = []"
  shows "e_id e \<noteq> [] \<and> e_id e \<notin> set seen \<and> aget nbi (e_source e) \<noteq> None \<and> aget nbi (e_target e) \<noteq> None
    \<and> fst (index_edges nbi es (e_id e # seen)) = []"
proof -
  have 1: "e_id e \<noteq> []" "e_id e \<notin> set seen"
    using assms by (auto simp: index_edges.simps(2) case_prod_beta split: if_splits)
  then show ?thesis using assms
    by (cases "aget nbi (e_source e)"; cases "aget nbi (e_target e)")
      (simp_all add: index_edges.simps(2) Let_def case_prod_beta)
qed

lemma index_edges_clean:
  "fst (index_edges nbi es seen) = [] \<Longrightarrow> \<forall>e \<in> set es. aget nbi (e_source e) \<noteq> None \<and> aget nbi (e_target e) \<noteq> None"
  by (induction es arbitrary: seen) (simp, metis index_edge_clean set_ConsD)

lemma index_edges_all:
  "fst (index_edges nbi es seen) = [] \<Longrightarrow> \<forall>e \<in> set es. keeps_edge nbi e \<Longrightarrow> snd (index_edges nbi es seen) = es"
  by (induction es arbitrary: seen) (simp, simp add: index_edges_kept index_edge_clean)

lemma va_cfg_index [simp]: "va_cfg (indexed cfg) = cfg"
  by (simp add: index_config_def case_prod_beta)

lemma accepted_index:
  assumes "validate_config cfg = []"
  shows "va_nodes (indexed cfg) = map (\<lambda>n. (n_id n, n)) (gc_nodes cfg)"
    and "va_edges (indexed cfg) = gc_edges cfg"
    and "\<And>n. n \<in> set (gc_nodes cfg) \<Longrightarrow> n_id n \<noteq> []"
proof -
  have n: "fst (index_nodes (gc_nodes cfg) []) = []"
    and e: "fst (index_edges (snd (index_nodes (gc_nodes cfg) [])) (gc_edges cfg) []) = []"
    and s: "validate_edge_scopes (indexed cfg) = []"
    using assms by (simp_all add: validate_config_Nil) (simp_all add: index_config_def case_prod_beta)
  show nodes: "va_nodes (indexed cfg) = map (\<lambda>n. (n_id n, n)) (gc_nodes cfg)"
    and "\<And>n. n \<in> set (gc_nodes cfg) \<Longrightarrow> n_id n \<noteq> []"
    using index_nodes_clean [OF n] by (simp_all add: index_config_def case_prod_beta)
  have nbi: "snd (index_nodes (gc_nodes cfg) []) = va_nodes (indexed cfg)"
    by (simp add: index_config_def case_prod_beta)
  have "keeps_edge (va_nodes (indexed cfg)) e" if "e \<in> set (gc_edges cfg)" for e
    using index_edges_clean [OF e [unfolded nbi]] s that
    by (fastforce simp: keeps_edge_def validate_edge_scopes_def validate_edge_scope_def node_of_def
        split: option.splits)
  then have "snd (index_edges (va_nodes (indexed cfg)) (gc_edges cfg) []) = gc_edges cfg"
    using e [unfolded nbi] by (intro index_edges_all) auto
  then show "va_edges (indexed cfg) = gc_edges cfg"
    by (simp add: index_config_def case_prod_beta)
qed

lemma accepted_scope_nodes:
  "validate_config cfg = [] \<Longrightarrow> scope_nodes (indexed cfg) scope = filter (\<lambda>n. n_parent n = scope) (gc_nodes cfg)"
  by (simp add: scope_nodes_def accepted_index(1) comp_def)

lemma accepted_node_of:
  assumes "validate_config cfg = []"
  shows "node_of (indexed cfg) i = Some n \<longleftrightarrow> n \<in> set (gc_nodes cfg) \<and> n_id n = i"
proof -
  have "distinct (map fst (va_nodes (indexed cfg)))"
    using index_ids_ok [of cfg] by (simp add: ids_ok_def akeys_def)
  then show ?thesis
    by (auto simp: node_of_def accepted_index(1) [OF assms] dest!: map_of_SomeD intro: map_of_is_SomeI)
qed

lemma accepted_in_scope:
  "validate_config cfg = [] \<Longrightarrow>
   in_scope (indexed cfg) scope i \<longleftrightarrow> (\<exists>n \<in> set (gc_nodes cfg). n_id n = i \<and> n_parent n = scope)"
  using accepted_node_of [of cfg i] unfolding in_scope_def
  by (cases "node_of (indexed cfg) i") (auto, metis option.inject)

definition graph_step :: "graph_config \<Rightarrow> string \<Rightarrow> string \<Rightarrow> bool" where
  "graph_step cfg a b \<longleftrightarrow> (\<exists>e \<in> set (gc_edges cfg). e_source e = a \<and> e_target e = b)"

lemma accepted_edge:
  assumes "validate_config cfg = []" "e \<in> set (gc_edges cfg)"
  shows "\<exists>m \<in> set (gc_nodes cfg). \<exists>n \<in> set (gc_nodes cfg).
    n_id m = e_source e \<and> n_id n = e_target e \<and> n_parent m = n_parent n"
proof -
  have "keeps_edge (va_nodes (indexed cfg)) e"
    using index_edges_ok [of "va_nodes (indexed cfg)" "gc_edges cfg" "[]"] assms accepted_index(2) [OF assms(1)]
    by (simp add: index_config_def case_prod_beta)
  then show ?thesis
    using accepted_node_of [OF assms(1)] unfolding keeps_edge_def node_of_def [symmetric]
    by (auto split: option.splits)
qed

lemma graph_step_scope:
  assumes "validate_config cfg = []" "graph_step cfg a b"
  shows "in_scope (indexed cfg) scope a \<longleftrightarrow> in_scope (indexed cfg) scope b"
    and "in_scope (indexed cfg) scope b \<Longrightarrow> scope_step (indexed cfg) scope [] a b"
    and "in_scope (indexed cfg) scope a \<Longrightarrow> forward_step (indexed cfg) scope a b"
proof -
  obtain e m n where e: "e \<in> set (gc_edges cfg)" "e_source e = a" "e_target e = b"
    "m \<in> set (gc_nodes cfg)" "n \<in> set (gc_nodes cfg)" "n_id m = a" "n_id n = b" "n_parent m = n_parent n"
    using assms(2) accepted_edge [OF assms(1)] by (auto simp: graph_step_def) metis
  have "node_of (indexed cfg) a = Some m" "node_of (indexed cfg) b = Some n"
    using accepted_node_of [OF assms(1)] e by blast+
  then show "in_scope (indexed cfg) scope a \<longleftrightarrow> in_scope (indexed cfg) scope b"
    using e(8) by (simp add: in_scope_def)
  have "e_id e \<noteq> []"
    using index_ids_ok [of cfg] e(1) accepted_index(2) [OF assms(1)] by (simp add: ids_ok_def)
  with e show "in_scope (indexed cfg) scope b \<Longrightarrow> scope_step (indexed cfg) scope [] a b"
    and "in_scope (indexed cfg) scope a \<Longrightarrow> forward_step (indexed cfg) scope a b"
    by (auto simp: scope_step_def forward_step_def accepted_index(2) [OF assms(1)])
qed

lemma scope_step_graph: "validate_config cfg = [] \<Longrightarrow> scope_step (indexed cfg) scope [] a b \<Longrightarrow> graph_step cfg a b"
  by (auto simp: scope_step_def graph_step_def accepted_index(2))

lemma forward_step_graph: "validate_config cfg = [] \<Longrightarrow> forward_step (indexed cfg) scope a b \<Longrightarrow> graph_step cfg a b"
  by (auto simp: forward_step_def graph_step_def accepted_index(2))

lemma graph_path_scope:
  "(graph_step cfg)\<^sup>+\<^sup>+ a b \<Longrightarrow> validate_config cfg = [] \<Longrightarrow> in_scope (indexed cfg) scope b \<Longrightarrow>
   (scope_step (indexed cfg) scope [])\<^sup>+\<^sup>+ a b"
  by (induction rule: tranclp_induct)
    (auto intro: graph_step_scope(2) tranclp.trancl_into_trancl simp: graph_step_scope(1))

lemma accepted_acyclic:
  assumes "validate_config cfg = []"
  shows "\<not> (graph_step cfg)\<^sup>+\<^sup>+ x x"
proof
  assume cyc: "(graph_step cfg)\<^sup>+\<^sup>+ x x"
  then obtain y where "graph_step cfg x y" by (meson tranclpD)
  then obtain n where n: "n \<in> set (gc_nodes cfg)" "n_id n = x"
    using accepted_edge [OF assms] by (auto simp: graph_step_def)
  then have scope: "in_scope (indexed cfg) (n_parent n) x" using accepted_in_scope [OF assms] by blast
  have "n_parent n \<in> set (scope_ids (indexed cfg))"
    using n(1) by (auto simp: scope_ids_def accepted_index(1) [OF assms])
  moreover have "validate_cycles (indexed cfg) = []" using assms by (simp add: validate_config_Nil)
  ultimately have "(case detect_cycle (indexed cfg) (n_parent n) of None \<Rightarrow> [SearchStuck (n_parent n)]
      | Some None \<Rightarrow> [] | Some (Some x) \<Rightarrow> [CycleInScope (n_parent n) x]) = []"
    by (simp add: validate_cycles_def)
  then have "detect_cycle (indexed cfg) (n_parent n) = Some None" by (simp split: option.splits)
  with cycle_search [OF index_ids_ok, of cfg "n_parent n"] graph_path_scope [OF cyc assms scope]
  show False by auto
qed

subsection \<open>Paths from a start to an end\<close>

lemma accepted_same_id:
  "validate_config cfg = [] \<Longrightarrow> m \<in> set (gc_nodes cfg) \<Longrightarrow> n \<in> set (gc_nodes cfg) \<Longrightarrow> n_id m = n_id n \<Longrightarrow> m = n"
  using accepted_node_of [of cfg "n_id n"] by (metis option.inject)

lemma accepted_degrees:
  "validate_config cfg = [] \<Longrightarrow> n \<in> set (gc_nodes cfg) \<Longrightarrow> validate_degrees (indexed cfg) n = []"
  by (simp add: validate_config_Nil validate_structure_def Let_def)

lemma start_edges:
  assumes "validate_config cfg = []" "n \<in> set (gc_nodes cfg)" "n_type n = NStart"
  shows "\<exists>m \<in> set (gc_nodes cfg). graph_step cfg (n_id n) (n_id m) \<and> n_parent m = n_parent n \<and> n_type m \<noteq> NStart"
proof -
  have "out_edges (indexed cfg) (n_id n) \<noteq> []"
    using accepted_degrees [OF assms(1,2)] accepted_index(3) [OF assms(1,2)] assms(3)
    by (auto simp: validate_degrees_def Let_def)
  then obtain e where e: "e \<in> set (gc_edges cfg)" "e_source e = n_id n"
    by (auto simp: out_edges_def accepted_index(2) [OF assms(1)] filter_empty_conv)
  obtain m n' where m: "m \<in> set (gc_nodes cfg)" "n_id m = e_target e" "n' \<in> set (gc_nodes cfg)"
    "n_id n' = n_id n" "n_parent n' = n_parent m"
    using accepted_edge [OF assms(1) e(1)] e(2) by auto
  then have "n' = n" using accepted_same_id [OF assms(1) m(3) assms(2)] by simp
  moreover have "n_type m \<noteq> NStart"
  proof
    assume "n_type m = NStart"
    then have "in_deg (indexed cfg) (n_id m) = 0"
      using accepted_degrees [OF assms(1) m(1)] accepted_index(3) [OF assms(1) m(1)]
      by (simp add: validate_degrees_def Let_def)
    with e m(2) show False by (auto simp: in_deg_def accepted_index(2) [OF assms(1)] filter_empty_conv)
  qed
  ultimately show ?thesis using m e by (auto simp: graph_step_def intro!: bexI [of _ m])
qed

lemma entries_are_starts:
  "validate_config cfg = [] \<Longrightarrow> set (entries_of_scope (indexed cfg) scope)
     = {n_id n |n. n \<in> set (gc_nodes cfg) \<and> n_parent n = scope \<and> n_type n = NStart}"
  by (auto simp: entries_of_scope_def accepted_scope_nodes)

lemma ends_are_ends:
  "validate_config cfg = [] \<Longrightarrow> set (scope_ends (indexed cfg) scope)
     = {n_id n |n. n \<in> set (gc_nodes cfg) \<and> n_parent n = scope \<and> n_type n = NEnd}"
  by (auto simp: scope_ends_def accepted_scope_nodes)

lemma concat_map_Nil: "concat (map f xs) = [] \<longleftrightarrow> (\<forall>x \<in> set xs. f x = [])"
  by (induction xs) auto

lemma check_can_reach_end_Nil:
  "check_can_reach_end v scope ends = [] \<longleftrightarrow> ends = [] \<or>
     (\<forall>n \<in> set (scope_nodes v scope). n_type n \<noteq> NEnd \<longrightarrow> n_type n \<noteq> NStart \<longrightarrow>
        n_id n \<in> set (reachable_from v (entries_of_scope v scope) scope []) \<longrightarrow> n_id n \<in> set (can_reach v scope ends))"
  by (cases "ends = []")
    (auto simp: check_can_reach_end_def Let_def concat_map_Nil simp del: concat_eq_Nil_conv)

text \<open>The checks every scope passes, the main graph as well as a loop's subgraph.\<close>

definition scope_checked :: "graph_config \<Rightarrow> string \<Rightarrow> bool" where
  "scope_checked cfg scope \<longleftrightarrow>
     scope_ends (indexed cfg) scope \<noteq> []
     \<and> check_can_reach_end (indexed cfg) scope (scope_ends (indexed cfg) scope) = []
     \<and> (\<forall>n \<in> set (gc_nodes cfg). n_parent n = scope \<and> n_type n \<noteq> NStart \<longrightarrow>
          n_id n \<in> set (reachable_from (indexed cfg) (entries_of_scope (indexed cfg) scope) scope []))"

lemma main_checked:
  assumes "validate_config cfg = []"
  shows "scope_checked cfg []"
proof -
  have s: "validate_structure (indexed cfg) = []" using assms by (simp add: validate_config_Nil)
  then have "list_ex (\<lambda>n. n_type n = NEnd) (scope_nodes (indexed cfg) [])"
    by (simp add: validate_structure_def Let_def)
  then have "scope_ends (indexed cfg) [] \<noteq> []" by (auto simp: scope_ends_def list_ex_iff filter_empty_conv)
  with s show ?thesis
    by (auto simp: scope_checked_def validate_structure_def Let_def accepted_scope_nodes [OF assms])
qed

lemma loop_node_checked:
  "validate_config cfg = [] \<Longrightarrow> l \<in> set (gc_nodes cfg) \<Longrightarrow> validate_loop_subgraph (indexed cfg) l = []"
  by (simp add: validate_config_Nil validate_loop_subgraphs_def)

lemma loop_checked:
  assumes "validate_config cfg = []" "l \<in> set (gc_nodes cfg)" "n_type l = NLoop"
  shows "scope_checked cfg (n_id l)"
    and "length (entries_of_scope (indexed cfg) (n_id l)) = 1"
proof -
  note c = loop_node_checked [OF assms(1,2)]
  show one: "length (entries_of_scope (indexed cfg) (n_id l)) = 1"
    using c assms(3) by (auto simp: validate_loop_subgraph_def Let_def split: if_splits)
  have r: "n_id n \<in> set (reachable_from (indexed cfg) (entries_of_scope (indexed cfg) (n_id l)) (n_id l) [])"
    if "n \<in> set (gc_nodes cfg)" "n_parent n = n_id l" "n_type n \<noteq> NStart" for n
  proof -
    have "n_id n \<notin> set (entries_of_scope (indexed cfg) (n_id l))"
      using that accepted_same_id [OF assms(1) that(1)] by (auto simp: entries_are_starts [OF assms(1)])
    then show ?thesis using c assms(3) that one
      by (auto simp: validate_loop_subgraph_def Let_def accepted_scope_nodes [OF assms(1)] split: if_splits)
  qed
  with c assms(3) show "scope_checked cfg (n_id l)"
    by (auto simp: scope_checked_def validate_loop_subgraph_def Let_def split: if_splits)
qed

lemma accepted_parent:
  assumes "validate_config cfg = []" "n \<in> set (gc_nodes cfg)" "n_parent n \<noteq> []"
  shows "\<exists>l \<in> set (gc_nodes cfg). n_id l = n_parent n \<and> n_type l = NLoop"
proof -
  have "validate_parent_scope (indexed cfg) n = []"
    using assms by (simp add: validate_config_Nil validate_parent_scopes_def)
  then obtain l where "node_of (indexed cfg) (n_parent n) = Some l" "n_type l = NLoop"
    using assms(3) accepted_index(3) [OF assms(1,2)]
    by (auto simp: validate_parent_scope_def split: if_splits option.splits)
  then show ?thesis using accepted_node_of [OF assms(1)] by blast
qed

lemma every_scope_checked:
  "validate_config cfg = [] \<Longrightarrow> n \<in> set (gc_nodes cfg) \<Longrightarrow> scope_checked cfg (n_parent n)"
  using main_checked loop_checked(1) accepted_parent by (metis (full_types))

lemma reached_from_start:
  assumes "validate_config cfg = []" "n \<in> set (gc_nodes cfg)"
  shows "\<exists>s \<in> set (gc_nodes cfg). n_type s = NStart \<and> n_parent s = n_parent n \<and> (graph_step cfg)\<^sup>*\<^sup>* (n_id s) (n_id n)"
proof (cases "n_type n = NStart")
  case False
  then have "n_id n \<in> set (reachable_from (indexed cfg) (entries_of_scope (indexed cfg) (n_parent n)) (n_parent n) [])"
    using every_scope_checked [OF assms] assms(2) by (simp add: scope_checked_def)
  then obtain i where i: "i \<in> set (entries_of_scope (indexed cfg) (n_parent n))"
    "(scope_step (indexed cfg) (n_parent n) [])\<^sup>*\<^sup>* i (n_id n)"
    by (auto simp: reachable_from_rtrancl)
  have "(graph_step cfg)\<^sup>*\<^sup>* i (n_id n)"
    using i(2) by (rule rtranclp_mono [THEN predicate2D, rotated]) (auto intro: scope_step_graph [OF assms(1)])
  with i(1) show ?thesis by (auto simp: entries_are_starts [OF assms(1)])
qed (use assms(2) in blast)

lemma inner_reaches_end:
  assumes "validate_config cfg = []" "n \<in> set (gc_nodes cfg)" "n_type n \<noteq> NStart"
  shows "\<exists>t \<in> set (gc_nodes cfg). n_type t = NEnd \<and> n_parent t = n_parent n \<and> (graph_step cfg)\<^sup>*\<^sup>* (n_id n) (n_id t)"
proof (cases "n_type n = NEnd")
  case False
  let ?s = "n_parent n"
  note c = every_scope_checked [OF assms(1,2)]
  have "n \<in> set (scope_nodes (indexed cfg) ?s)" using assms(2) by (simp add: accepted_scope_nodes [OF assms(1)])
  then have "n_id n \<in> set (can_reach (indexed cfg) ?s (scope_ends (indexed cfg) ?s))"
    using c False assms(2,3) by (auto simp: scope_checked_def check_can_reach_end_Nil)
  then obtain t where t: "t \<in> set (scope_ends (indexed cfg) ?s)" "(forward_step (indexed cfg) ?s)\<^sup>*\<^sup>* (n_id n) t"
    by (auto simp: can_reach_rtrancl)
  have "(graph_step cfg)\<^sup>*\<^sup>* (n_id n) t"
    using t(2) by (rule rtranclp_mono [THEN predicate2D, rotated]) (auto intro: forward_step_graph [OF assms(1)])
  with t(1) show ?thesis by (auto simp: ends_are_ends [OF assms(1)])
qed (use assms(2) in blast)

lemma reaches_end:
  assumes "validate_config cfg = []" "n \<in> set (gc_nodes cfg)"
  shows "\<exists>t \<in> set (gc_nodes cfg). n_type t = NEnd \<and> n_parent t = n_parent n \<and> (graph_step cfg)\<^sup>*\<^sup>* (n_id n) (n_id t)"
proof (cases "n_type n = NStart")
  case True
  obtain m where m: "m \<in> set (gc_nodes cfg)" "graph_step cfg (n_id n) (n_id m)" "n_parent m = n_parent n" "n_type m \<noteq> NStart"
    using start_edges [OF assms True] by blast
  obtain t where "t \<in> set (gc_nodes cfg)" "n_type t = NEnd" "n_parent t = n_parent m" "(graph_step cfg)\<^sup>*\<^sup>* (n_id m) (n_id t)"
    using inner_reaches_end [OF assms(1) m(1,4)] by blast
  then show ?thesis using m by (metis converse_rtranclp_into_rtranclp)
qed (rule inner_reaches_end [OF assms])

subsection \<open>Conditions and bounds\<close>

lemma accepted_node_config:
  "validate_config cfg = [] \<Longrightarrow> n \<in> set (gc_nodes cfg) \<Longrightarrow> validate_node_config n = []"
  by (simp add: validate_config_Nil validate_node_configs_def)

lemma accepted_condition:
  assumes "validate_config cfg = []" "n \<in> set (gc_nodes cfg)"
  shows "n_type n = NIfElse \<Longrightarrow> \<exists>e. parse_condition (nc_condition (n_config n)) = Some (Inr e)"
    and "n_type n = NLoop \<Longrightarrow> nc_loop_mode (n_config n) = LoopUntil \<Longrightarrow>
      \<exists>e. parse_condition (nc_until_condition (n_config n)) = Some (Inr e)"
  using accepted_node_config [OF assms] accepted_index(3) [OF assms]
  by (auto simp: validate_node_config_def validate_if_else_config_def validate_loop_config_def Let_def
      split: if_splits option.splits sum.splits)

lemma parsed_condition_decides:
  "parse_condition expr = Some (Inr e) \<Longrightarrow> evaluate_condition lower expr inp = Inr (holds lower e inp)"
  using parse_condition_wf eval_wf by (simp add: evaluate_condition_def)

subsection \<open>Shared sessions\<close>

lemma pairs_check_Nil:
  "pairs_check check xs = [] \<Longrightarrow> i < j \<Longrightarrow> j < length xs \<Longrightarrow> check (xs ! i) (xs ! j) = []"
proof (induction xs arbitrary: i j)
  case (Cons x xs)
  show ?case
  proof (cases i)
    case 0
    with Cons.prems show ?thesis by (cases j) auto
  next
    case (Suc i')
    with Cons show ?thesis by (cases j) auto
  qed
qed simp

lemma pairs_check_either:
  assumes "pairs_check check xs = []" "a \<in> set xs" "b \<in> set xs" "a \<noteq> b"
  shows "check a b = [] \<or> check b a = []"
proof -
  obtain i j where "i < length xs" "j < length xs" "xs ! i = a" "xs ! j = b"
    using assms(2,3) by (auto simp: in_set_conv_nth)
  then show ?thesis using assms(1,4) pairs_check_Nil [of check xs] by (metis linorder_neqE_nat)
qed

definition session_sources_of :: "graph_config \<Rightarrow> graph_node \<Rightarrow> string list" where
  "session_sources_of cfg n =
     (case aget (session_source_sets (indexed cfg) (n_parent n)) (n_id n) of None \<Rightarrow> [] | Some s \<Rightarrow> s)"

lemma not_parallel:
  assumes "\<not> maybe_parallel (indexed cfg) scope a b" "validate_config cfg = []"
  shows "(graph_step cfg)\<^sup>*\<^sup>* (n_id a) (n_id b) \<or> (graph_step cfg)\<^sup>*\<^sup>* (n_id b) (n_id a)
    \<or> mutually_exclusive (n_id a) (n_id b) (branch_dominators (indexed cfg) scope (entries_of_scope (indexed cfg) scope))"
proof -
  have "(graph_step cfg)\<^sup>*\<^sup>* x y" if "(scope_step (indexed cfg) scope [])\<^sup>*\<^sup>* x y" for x y
    using that by (rule rtranclp_mono [THEN predicate2D, rotated]) (auto intro: scope_step_graph [OF assms(2)])
  with assms(1) show ?thesis by (auto simp: maybe_parallel_def reachable_from_rtrancl)
qed

lemma mutually_exclusive_sym: "mutually_exclusive a b doms = mutually_exclusive b a doms"
  by (auto simp: mutually_exclusive_def list_ex_iff split: prod.splits option.splits)

lemma accepted_session_pair:
  assumes "validate_config cfg = []" "a \<in> set (gc_nodes cfg)" "b \<in> set (gc_nodes cfg)" "a \<noteq> b"
    and "n_parent a = n_parent b" "is_agent (n_type a)" "is_agent (n_type b)"
    and "x \<in> set (session_sources_of cfg a)" "x \<in> set (session_sources_of cfg b)"
  shows "\<not> maybe_parallel (indexed cfg) (n_parent a) a b \<or> \<not> maybe_parallel (indexed cfg) (n_parent a) b a"
proof -
  let ?v = "indexed cfg" and ?s = "n_parent a"
  have "?s \<in> set (scope_ids ?v)" using assms(2) by (auto simp: scope_ids_def accepted_index(1) [OF assms(1)])
  then have "check_scope_session_collisions ?v ?s = []"
    using assms(1) by (simp add: validate_config_Nil validate_parallel_session_reuse_def)
  moreover have "a \<in> set (filter (\<lambda>n. is_agent (n_type n)) (scope_nodes ?v ?s))"
    "b \<in> set (filter (\<lambda>n. is_agent (n_type n)) (scope_nodes ?v ?s))"
    using assms by (simp_all add: accepted_scope_nodes [OF assms(1)])
  ultimately have "session_conflict ?v ?s (session_source_sets ?v ?s) a b = []
      \<or> session_conflict ?v ?s (session_source_sets ?v ?s) b a = []"
    unfolding check_scope_session_collisions_def using assms(4) by (rule pairs_check_either)
  moreover have "sets_intersect (session_sources_of cfg a) (session_sources_of cfg b)"
    "sets_intersect (session_sources_of cfg b) (session_sources_of cfg a)"
    using assms(8,9) by (auto simp: sets_intersect_def list_ex_iff)
  ultimately show ?thesis using assms(5)
    by (auto simp: session_conflict_def session_sources_of_def Let_def split: if_splits)
qed

subsection \<open>Two configurations\<close>

definition mk_node :: "string \<Rightarrow> node_type \<Rightarrow> string \<Rightarrow> node_config \<Rightarrow> graph_node" where
  "mk_node i t p c = \<lparr> n_id = i, n_type = t, n_title = [], n_parent = p, n_config = c \<rparr>"

definition mk_edge :: "string \<Rightarrow> string \<Rightarrow> string \<Rightarrow> graph_edge" where
  "mk_edge i a b = \<lparr> e_id = i, e_source = a, e_target = b, e_source_port = PortDefault \<rparr>"

definition mk_config :: "graph_node list \<Rightarrow> graph_edge list \<Rightarrow> graph_config" where
  "mk_config ns es = \<lparr> gc_nodes = ns, gc_edges = es, gc_variables = [], gc_disabled_vars = [],
     gc_run_config = empty_run_config, gc_workspace_id = [], gc_workdir = [] \<rparr>"

definition once :: node_config where
  "once = empty_node_config\<lparr>nc_loop_mode := LoopFixed, nc_fixed_count := 1\<rparr>"

definition agent_config :: "session_strategy \<Rightarrow> node_config" where
  "agent_config s = empty_node_config\<lparr>nc_session_strategy := s, nc_agent_type := ''x''\<rparr>"

text \<open>Two loop containers, each inside the other, beside a plain main graph.\<close>

definition twisted :: graph_config where
  "twisted = mk_config
     [mk_node ''s'' NStart [] empty_node_config, mk_node ''w'' NShell [] empty_node_config,
      mk_node ''e'' NEnd [] empty_node_config,
      mk_node ''A'' NLoop ''B'' once, mk_node ''B'' NLoop ''A'' once,
      mk_node ''as'' NStart ''A'' empty_node_config, mk_node ''ae'' NEnd ''A'' empty_node_config,
      mk_node ''bs'' NStart ''B'' empty_node_config, mk_node ''be'' NEnd ''B'' empty_node_config]
     [mk_edge ''1'' ''s'' ''w'', mk_edge ''2'' ''w'' ''e'', mk_edge ''3'' ''as'' ''B'',
      mk_edge ''4'' ''B'' ''ae'', mk_edge ''5'' ''bs'' ''A'', mk_edge ''6'' ''A'' ''be'']"

text \<open>An agent that inherits a session, beside a loop whose body inherits the same one.\<close>

definition shared :: graph_config where
  "shared = mk_config
     [mk_node ''s'' NStart [] empty_node_config, mk_node ''p'' NPrompt [] (agent_config StrategyNew),
      mk_node ''a'' NPrompt [] (agent_config StrategyInherit), mk_node ''L'' NLoop [] once,
      mk_node ''e'' NEnd [] empty_node_config, mk_node ''ls'' NStart ''L'' empty_node_config,
      mk_node ''b'' NPrompt ''L'' (agent_config StrategyInherit), mk_node ''le'' NEnd ''L'' empty_node_config]
     [mk_edge ''1'' ''s'' ''p'', mk_edge ''2'' ''p'' ''a'', mk_edge ''3'' ''p'' ''L'', mk_edge ''4'' ''a'' ''e'',
      mk_edge ''5'' ''L'' ''e'', mk_edge ''6'' ''ls'' ''b'', mk_edge ''7'' ''b'' ''le'']"

text \<open>A condition whose parse is known without running the tokenizer in the kernel.\<close>

definition sample_condition :: string where "sample_condition = ''{{x}} == \"ok\"''"

lemma runes_of_ascii_text: "list_all (\<lambda>c. byte c < 0x80) s \<Longrightarrow> runes_of s = map byte s"
  by (induction s) (simp_all add: runes_of_ascii)

lemma sample_runes: "runes_of sample_condition = [123, 123, 120, 125, 125, 32, 61, 61, 32, 34, 111, 107, 34]"
  by (simp add: sample_condition_def runes_of_ascii_text)

lemma var_x: "is_valid_var_name ''x''"
  by (simp add: is_valid_var_name_def runes_of_ascii is_ascii_letter_def)

lemma sample_bytes: "char_of (120::nat) = CHR ''x''" "char_of (111::nat) = CHR ''o''" "char_of (107::nat) = CHR ''k''"
  by code_simp+

lemma sample_toks: "tokenize_condition (runes_of sample_condition) 0 = Inr (sample_tokens @ [mk_token TkEOF [] 13])"
  unfolding sample_runes sample_tokens_def
  by (simp add: is_space_def space_runes_def string_of_runes_def utf8_encode_def var_x is_compare_op_start_def
      scan_compare_op_def compare_operators_def ascii_runes_def Let_def sample_bytes)

lemma sample_parses: "parse_condition sample_condition = Some (Inr sample_tree)"
  using sample_derives by (simp add: parse_condition_def sample_toks parse_tokens_derives [OF sample_good])

text \<open>A router between two branches.\<close>

definition routed :: graph_config where
  "routed = mk_config
     [mk_node ''s'' NStart [] empty_node_config,
      mk_node ''i'' NIfElse [] (empty_node_config\<lparr>nc_condition := sample_condition\<rparr>),
      mk_node ''w'' NShell [] empty_node_config, mk_node ''e'' NEnd [] empty_node_config]
     [mk_edge ''1'' ''s'' ''i'', (mk_edge ''2'' ''i'' ''w'')\<lparr>e_source_port := PortYes\<rparr>,
      (mk_edge ''3'' ''i'' ''e'')\<lparr>e_source_port := PortNo\<rparr>, mk_edge ''4'' ''w'' ''e'']"

lemma routed_accepted: "validate_config routed = []"
proof -
  have "validate_node_configs routed = []"
    by (simp add: validate_node_configs_def routed_def mk_config_def mk_node_def validate_node_config_def Let_def
        validate_if_else_config_def sample_parses validate_output_decls_def validate_control_config_def
        validate_agent_new_session_def is_agent_def empty_node_config_def sample_condition_def
        sample_parses [unfolded sample_condition_def])
  moreover have "fst (index_config routed) = []" "validate_run_config routed = []" "validate_initial_variables routed = []"
    "validate_parent_scopes (indexed routed) = []" "validate_ports (indexed routed) = []"
    "validate_edge_scopes (indexed routed) = []" "validate_structure (indexed routed) = []"
    "validate_cycles (indexed routed) = []" "validate_loop_subgraphs (indexed routed) = []"
    "validate_first_agent_new_session (indexed routed) = []" "validate_output_conflicts (indexed routed) = []"
    "validate_parallel_session_reuse (indexed routed) = []"
    by code_simp+
  ultimately show ?thesis by (simp only: validate_config_Nil simp_thms)
qed

lemma shared_accepted: "validate_config shared = []"
  by code_simp

lemma twisted_parents:
  "aget (nodes_by_id twisted) ''A'' = Some (mk_node ''A'' NLoop ''B'' once)"
  "aget (nodes_by_id twisted) ''B'' = Some (mk_node ''B'' NLoop ''A'' once)"
  by (simp_all add: aget_nodes_by_id twisted_def mk_config_def mk_node_def)

lemma twisted_never_ends: "\<not> parents_end (nodes_by_id twisted) ''A''"
proof
  assume "parents_end (nodes_by_id twisted) ''A''"
  then show False
    by (rule parent_cycle [where C = "{''A'', ''B''}"]) (auto simp: twisted_parents mk_node_def)
qed

subsection \<open>Properties\<close>

text \<open>C20: in an accepted configuration node and edge identifiers are unique and not empty, every edge
  joins two nodes of one scope, and the edges have no cycle.\<close>
theorem accepted_graph_is_dag:
  assumes "validate_config cfg = []"
  shows "distinct (map n_id (gc_nodes cfg)) \<and> distinct (map e_id (gc_edges cfg))
    \<and> [] \<notin> set (map n_id (gc_nodes cfg)) \<and> [] \<notin> set (map e_id (gc_edges cfg))
    \<and> list_all (\<lambda>e. list_ex (\<lambda>m. n_id m = e_source e \<and>
          list_ex (\<lambda>n. n_id n = e_target e \<and> n_parent n = n_parent m) (gc_nodes cfg)) (gc_nodes cfg)) (gc_edges cfg)
    \<and> (\<nexists>x. (graph_step cfg)\<^sup>+\<^sup>+ x x)"
proof -
  have ids: "ids_ok (indexed cfg)" by (rule index_ids_ok)
  have "distinct (map n_id (gc_nodes cfg)) \<and> distinct (map e_id (gc_edges cfg)) \<and> [] \<notin> set (map e_id (gc_edges cfg))"
    using ids by (auto simp: ids_ok_def accepted_index(1,2) [OF assms] akeys_def comp_def)
  moreover have "[] \<notin> set (map n_id (gc_nodes cfg))"
    using accepted_index(3) [OF assms] by (metis (no_types) imageE set_map)
  moreover have "list_all (\<lambda>e. list_ex (\<lambda>m. n_id m = e_source e \<and>
      list_ex (\<lambda>n. n_id n = e_target e \<and> n_parent n = n_parent m) (gc_nodes cfg)) (gc_nodes cfg)) (gc_edges cfg)"
    using accepted_edge [OF assms] by (simp add: list_all_iff list_ex_iff) metis
  ultimately show ?thesis using accepted_acyclic [OF assms] by blast
qed

theorem accepted_graph_is_dag_witness: "distinct (map n_id (gc_nodes shared)) \<and> (\<nexists>x. (graph_step shared)\<^sup>+\<^sup>+ x x)"
  using accepted_graph_is_dag [OF shared_accepted] by blast

text \<open>C23: in an accepted configuration every node lies on a path of edges from a start node of its own
  scope to an end node of its own scope, and a loop's subgraph has exactly one start.\<close>
theorem accepted_nodes_on_paths:
  assumes "validate_config cfg = []" "n \<in> set (gc_nodes cfg)"
  shows "(\<exists>s \<in> set (gc_nodes cfg). \<exists>t \<in> set (gc_nodes cfg).
      n_type s = NStart \<and> n_type t = NEnd \<and> n_parent s = n_parent n \<and> n_parent t = n_parent n
      \<and> (graph_step cfg)\<^sup>*\<^sup>* (n_id s) (n_id n) \<and> (graph_step cfg)\<^sup>*\<^sup>* (n_id n) (n_id t))
    \<and> (n_type n = NLoop \<longrightarrow>
        length (filter (\<lambda>c. n_parent c = n_id n \<and> n_type c = NStart) (gc_nodes cfg)) = 1)"
proof -
  have "length (entries_of_scope (indexed cfg) (n_id n)) = 1" if "n_type n = NLoop"
    by (rule loop_checked(2) [OF assms that])
  then have "n_type n = NLoop \<longrightarrow>
        length (filter (\<lambda>c. n_parent c = n_id n \<and> n_type c = NStart) (gc_nodes cfg)) = 1"
    by (simp add: entries_of_scope_def accepted_scope_nodes [OF assms(1)] conj_commute)
  then show ?thesis using reached_from_start [OF assms] reaches_end [OF assms] by blast
qed

theorem accepted_nodes_on_paths_witness:
  "length (filter (\<lambda>c. n_parent c = ''L'' \<and> n_type c = NStart) (gc_nodes shared)) = 1"
proof -
  have "mk_node ''L'' NLoop [] once \<in> set (gc_nodes shared)" by (simp add: shared_def mk_config_def)
  from accepted_nodes_on_paths [OF shared_accepted this] show ?thesis by (simp add: mk_node_def)
qed

text \<open>C22: the depth-first search always ends, and reports a cycle in a scope exactly when the edges of
  the scope have one.\<close>
theorem cycle_detection_exact:
  "\<exists>r. detect_cycle (snd (index_config cfg)) scope = Some r
    \<and> (r = None \<longleftrightarrow> (\<nexists>x. (scope_step (snd (index_config cfg)) scope [])\<^sup>+\<^sup>+ x x))"
  by (rule cycle_search [OF index_ids_ok])

text \<open>in an accepted configuration the condition of every if-else node and of every until loop
  evaluates to a truth value on every snapshot: routing never fails a run.\<close>
theorem accepted_conditions_decide:
  assumes "validate_config cfg = []" "n \<in> set (gc_nodes cfg)"
  shows "(n_type n = NIfElse \<longrightarrow> (\<exists>b. evaluate_condition lower (nc_condition (n_config n)) inp = Inr b))
    \<and> (n_type n = NLoop \<and> nc_loop_mode (n_config n) = LoopUntil \<longrightarrow>
        (\<exists>b. evaluate_condition lower (nc_until_condition (n_config n)) inp = Inr b))"
  using accepted_condition [OF assms] parsed_condition_decides by metis

theorem accepted_conditions_decide_witness:
  "\<exists>b. evaluate_condition id sample_condition \<lparr> ci_variables = [], ci_disabled = [] \<rparr> = Inr b"
proof -
  let ?i = "mk_node ''i'' NIfElse [] (empty_node_config\<lparr>nc_condition := sample_condition\<rparr>)"
  have "?i \<in> set (gc_nodes routed)" by (simp add: routed_def mk_config_def)
  from accepted_conditions_decide [OF routed_accepted this, of id "\<lparr> ci_variables = [], ci_disabled = [] \<rparr>"]
  show ?thesis by (simp add: mk_node_def empty_node_config_def)
qed

text \<open>an accepted configuration bounds the rounds of an until loop by 1 and 1000, makes a fixed count
  non-negative, and keeps the concurrency limit between 0 and 16.\<close>
theorem accepted_bounds:
  assumes "validate_config cfg = []" "n \<in> set (gc_nodes cfg)" "n_type n = NLoop"
  shows "1 \<le> effective_loop_max_iters (gc_run_config cfg) n \<and> effective_loop_max_iters (gc_run_config cfg) n \<le> 1000
    \<and> (nc_loop_mode (n_config n) = LoopFixed \<longrightarrow> loop_max_rounds (gc_run_config cfg) n = nc_fixed_count (n_config n))
    \<and> 0 \<le> rc_concurrency_limit (gc_run_config cfg) \<and> rc_concurrency_limit (gc_run_config cfg) \<le> 16"
proof -
  have "validate_run_config cfg = []" using assms(1) by (simp add: validate_config_Nil)
  then show ?thesis
    using accepted_node_config [OF assms(1,2)] accepted_index(3) [OF assms(1,2)] assms(3)
    by (auto simp: validate_run_config_def validate_node_config_def validate_loop_config_def Let_def
        effective_loop_max_iters_def loop_max_rounds_def max_loop_max_iters_def max_concurrency_def
        split: loop_mode.splits)
qed

theorem accepted_bounds_witness: "effective_loop_max_iters (gc_run_config shared) (mk_node ''L'' NLoop [] once) \<le> 1000"
proof -
  have "mk_node ''L'' NLoop [] once \<in> set (gc_nodes shared)" by (simp add: shared_def mk_config_def)
  from accepted_bounds [OF shared_accepted this] show ?thesis by (simp add: mk_node_def)
qed



text \<open>the checks accept two loop containers that are each other's parent; the initial progress
  denominator of such a run is never computed, because the walk up the parents has no end.\<close>
theorem mutual_parents_accepted:
  "validate_config twisted = [] \<and> initial_graph_progress twisted = None"
proof
  show "validate_config twisted = []" by code_simp
  have "\<not> parents_ok twisted"
    using twisted_never_ends by (auto simp: parents_ok_def twisted_def mk_config_def mk_node_def)
  then show "initial_graph_progress twisted = None" by (simp add: initial_graph_progress_None)
qed

text \<open>the session check compares agents of one scope only: it accepts a configuration where an
  inheriting agent runs beside a loop whose body inherits the same session.\<close>
theorem cross_scope_session_accepted:
  "validate_config shared = []
    \<and> session_sources_of shared (mk_node ''a'' NPrompt [] (agent_config StrategyInherit)) = [''p'']
    \<and> session_sources_of shared (mk_node ''L'' NLoop [] once) = [''p'']
    \<and> session_sources_of shared (mk_node ''b'' NPrompt ''L'' (agent_config StrategyInherit)) = [entry_token ''L'']
    \<and> maybe_parallel (indexed shared) [] (mk_node ''a'' NPrompt [] (agent_config StrategyInherit)) (mk_node ''L'' NLoop [] once)"
  by (intro conjI shared_accepted) code_simp+

end
