(* ===== verification/GraphSchedState.thy ===== *)
theory GraphSchedState
  imports GraphSnapshot GraphProgress GraphProtocol
begin

section \<open>The state of the graph scheduler\<close>

text \<open>
  \<open>scheduler\<close> and \<open>scopeRun\<close> of \<open>services/graph/scheduler.go\<close> and \<open>loop.go\<close>, with the operations that
  only read the state or write one part of it. A single goroutine owns this state, so it is one
  record passed along. Scopes are shared mutable objects in the code: here a scope is a number and
  \<open>sc_scopes\<close> is the store (0 is the main graph). What the code hands to the outside is kept in the
  record too: the last state given to the run repository (\<open>sc_disk\<close>), the status last given to the
  job, the sessions attached to the job and the structural events, in order. Log lines, usage
  accounting and the display transcript of shell sessions are left out.
\<close>

subsection \<open>What the scheduler asks of its surroundings\<close>

text \<open>
  Calls the scheduler makes during one step: the clock (read once per step here), the formatted
  current time, \<open>strings.ToLower\<close> beyond ASCII, the text of a condition error, the shell session a
  recorder opens for a script (\<open>None\<close>: no recorder, or it failed), the global end-hook script and
  whether a job sink is attached.
\<close>

record sched_env =
  env_now :: int
  env_current_time :: string
  env_lower :: "string \<Rightarrow> string"
  env_error_text :: "cond_eval_error \<Rightarrow> string"
  env_begin_shell :: "string \<Rightarrow> string option"
  env_end_hook_script :: "string option"
  env_has_jobs :: bool

subsection \<open>Scopes, ready items and results\<close>

record scope_run =
  sr_container :: string
  sr_prefix :: "loop_iteration list"
  sr_parent :: nat
  sr_live :: int
  sr_loop_node :: graph_node
  sr_loop_key :: instance_key
  sr_iter_index :: int
  sr_rounds_run :: int
  sr_max_iters :: int
  sr_accum :: vars
  sr_inflow :: string
  sr_round_entry :: vars
  sr_round_entry_session :: string
  sr_round_writers :: vars
  sr_round_entry_writers :: vars
  sr_round_contribs :: "upstream list"
  sr_stop_loop :: bool

record ready_item =
  ri_node :: graph_node
  ri_out_edges :: "graph_edge list"
  ri_run :: graph_run
  ri_run_config :: graph_run_config
  ri_disabled :: "string list"
  ri_key :: instance_key
  ri_visible :: vars
  ri_writers :: vars
  ri_scope :: nat
  ri_inflow :: string
  ri_loop_vars :: vars

record node_outcome =
  no_output :: string
  no_produced :: vars
  no_stop_loop :: bool
  no_stop_workflow :: bool
  no_session :: string

datatype sched_event =
    EvStarted string | EvCompleted string | EvFailed string | EvSkipped string | EvAwaiting string
  | EvEdge string string bool | EvVariable string | EvIteration string int
  | EvError string | EvProgress string | EvHook string string | EvSessionOpened string string

record sched =
  sc_run :: graph_run
  sc_cfg :: graph_config
  sc_nodes :: "(string \<times> graph_node) list"
  sc_out :: "(string \<times> graph_edge list) list"
  sc_in_degree :: "(string \<times> int) list"
  sc_loop_entry :: "(string \<times> string) list"
  sc_in_remaining :: "(string \<times> int) list"
  sc_any_active :: "string list"
  sc_contribs :: "(string \<times> upstream list) list"
  sc_writers_by_key :: "(string \<times> vars) list"
  sc_instances :: "(string \<times> instance_state) list"
  sc_edges :: "(string \<times> edge_state) list"
  sc_vars_by_key :: "(string \<times> vars) list"
  sc_scopes :: "nat \<Rightarrow> scope_run"
  sc_next_scope :: nat
  sc_ready :: "ready_item list"
  sc_in_flight :: "ready_item list"
  sc_end_reached :: bool
  sc_failed :: bool
  sc_stop_scheduling :: bool
  sc_awaiting :: bool
  sc_step_stop :: bool
  sc_session_stop :: bool
  sc_stop_reason :: string
  sc_batch_seq :: int
  sc_cur_batch :: "ready_batch option"
  sc_active_loops :: "(string \<times> nat) list"
  sc_end_hook_fired :: "string list"
  sc_exited :: bool
  sc_disk :: "(graph_run \<times> (string \<times> instance_state) list \<times> (string \<times> edge_state) list \<times> (string \<times> vars) list) option"
  sc_job :: "(job_status \<times> run_status \<times> string) option"
  sc_whitelist :: "string list"
  sc_events :: "sched_event list"

text \<open>Go's zero values.\<close>

definition zero_node :: graph_node where
  "zero_node = \<lparr> n_id = [], n_type = NOther [], n_title = [], n_parent = [], n_config = empty_node_config \<rparr>"

definition zero_key :: instance_key where
  "zero_key = \<lparr> ik_node = [], ik_iterations = [] \<rparr>"

definition zero_scope :: scope_run where
  "zero_scope = \<lparr> sr_container = [], sr_prefix = [], sr_parent = 0, sr_live = 0, sr_loop_node = zero_node,
     sr_loop_key = zero_key, sr_iter_index = 0, sr_rounds_run = 0, sr_max_iters = 0, sr_accum = [],
     sr_inflow = [], sr_round_entry = [], sr_round_entry_session = [], sr_round_writers = [],
     sr_round_entry_writers = [], sr_round_contribs = [], sr_stop_loop = False \<rparr>"

definition zero_instance :: instance_state where
  "zero_instance = \<lparr> is_key = zero_key, is_node_id = [], is_node_title = [], is_node_type = NOther [],
     is_status = InstPending, is_version = 0, is_session = [], is_display_session = [], is_visible = [],
     is_outputs = [], is_writers = [], is_started_at = 0, is_finished_at = 0, is_duration_ms = 0,
     is_error = None, is_blocked_reason = [] \<rparr>"

subsection \<open>Index\<close>

definition indexable :: "(string \<times> graph_node) list \<Rightarrow> graph_edge \<Rightarrow> bool" where
  "indexable nbi e \<longleftrightarrow>
     (case (aget nbi (e_source e), aget nbi (e_target e)) of
        (Some a, Some b) \<Rightarrow> n_parent a = n_parent b
      | _ \<Rightarrow> False)"

definition index_edge :: "graph_edge \<Rightarrow> (string \<times> graph_edge list) list \<times> (string \<times> int) list \<Rightarrow>
    (string \<times> graph_edge list) list \<times> (string \<times> int) list" where
  "index_edge e acc = (case acc of (outs, degs) \<Rightarrow>
     (aput (e_source e) ((case aget outs (e_source e) of Some es \<Rightarrow> es | None \<Rightarrow> []) @ [e]) outs,
      aput (e_target e) ((case aget degs (e_target e) of Some d \<Rightarrow> d | None \<Rightarrow> 0) + 1) degs))"

definition index :: "sched \<Rightarrow> sched" where
  "index s =
     (let nbi = nodes_by_id (sc_cfg s);
          (outs, degs) = fold index_edge (filter (indexable nbi) (gc_edges (sc_cfg s))) ([], []);
          entries = fold (\<lambda>n m. if n_parent n \<noteq> [] \<and> n_type n = NStart then aput (n_parent n) (n_id n) m else m)
                      (gc_nodes (sc_cfg s)) []
      in s\<lparr>sc_nodes := nbi, sc_out := outs, sc_in_degree := degs, sc_loop_entry := entries\<rparr>)"

definition outs_of :: "sched \<Rightarrow> string \<Rightarrow> graph_edge list" where
  "outs_of s i = (case aget (sc_out s) i of Some es \<Rightarrow> es | None \<Rightarrow> [])"

definition degree_of :: "sched \<Rightarrow> string \<Rightarrow> int" where
  "degree_of s i = (case aget (sc_in_degree s) i of Some d \<Rightarrow> d | None \<Rightarrow> 0)"

definition node_at :: "sched \<Rightarrow> string \<Rightarrow> graph_node" where
  "node_at s i = (case aget (sc_nodes s) i of Some n \<Rightarrow> n | None \<Rightarrow> zero_node)"

definition contribs_at :: "sched \<Rightarrow> string \<Rightarrow> upstream list" where
  "contribs_at s k = (case aget (sc_contribs s) k of Some us \<Rightarrow> us | None \<Rightarrow> [])"

definition instance_at :: "sched \<Rightarrow> string \<Rightarrow> instance_state" where
  "instance_at s k = (case aget (sc_instances s) k of Some st \<Rightarrow> st | None \<Rightarrow> zero_instance)"

subsection \<open>Events, persistence and the job\<close>

definition emit :: "sched_event \<Rightarrow> sched \<Rightarrow> sched" where
  "emit ev s = s\<lparr>sc_events := sc_events s @ [ev]\<rparr>"

definition persist :: "sched \<Rightarrow> sched" where
  "persist s = s\<lparr>sc_disk := Some (sc_run s, sc_instances s, sc_edges s, sc_vars_by_key s)\<rparr>"

definition set_job :: "sched_env \<Rightarrow> job_status \<Rightarrow> run_status \<Rightarrow> string \<Rightarrow> sched \<Rightarrow> sched" where
  "set_job env j r session s = (if env_has_jobs env then s\<lparr>sc_job := Some (j, r, session)\<rparr> else s)"

text \<open>\<open>whitelistAgentSession\<close>; attaching is idempotent and without duplicates.\<close>

definition whitelist_agent_session :: "sched_env \<Rightarrow> string \<Rightarrow> sched \<Rightarrow> sched" where
  "whitelist_agent_session env session s =
     (if session = [] \<or> \<not> env_has_jobs env then s
      else if session \<in> set (sc_whitelist s) then s
      else s\<lparr>sc_whitelist := sc_whitelist s @ [session]\<rparr>)"

definition sync_progress :: "sched \<Rightarrow> sched" where
  "sync_progress s = s\<lparr>sc_run := update_run_progress (sc_run s) (sc_instances s)\<rparr>"

definition set_progress_error :: "string \<Rightarrow> sched \<Rightarrow> sched" where
  "set_progress_error msg s = s\<lparr>sc_run := (sc_run s)\<lparr>gr_progress :=
     map_option (\<lambda>p. p\<lparr>gp_last_error := msg\<rparr>) (gr_progress (sc_run s))\<rparr>\<rparr>"

definition denom_adjust :: "int \<Rightarrow> sched \<Rightarrow> sched" where
  "denom_adjust delta s = s\<lparr>sc_run := (sc_run s)\<lparr>gr_progress := adjust_denom_total delta (gr_progress (sc_run s))\<rparr>\<rparr>"

text \<open>
  A loop container's share of the denominator. The count does not return on a cyclic parent chain;
  \<open>StartRun\<close> has computed \<open>initialGraphProgress\<close> before any scheduler exists, which returns only when
  there is none, so the other case is never met (\<open>subgraph_count_returns\<close>).
\<close>

definition subgraph_count :: "sched \<Rightarrow> string \<Rightarrow> int" where
  "subgraph_count s container =
     (case loop_subgraph_business_count (sc_nodes s) (gc_run_config (sc_cfg s)) container of
        Some c \<Rightarrow> c | None \<Rightarrow> 0)"

lemma subgraph_count_returns:
  assumes "parents_ok cfg"
  shows "loop_subgraph_business_count (nodes_by_id cfg) rc container \<noteq> None"
proof -
  have ends: "parents_end (nodes_by_id cfg) (n_parent n)"
    if "n \<in> snd ` set (nodes_by_id cfg)" "is_business (n_type n)" for n
  proof -
    from that(1) obtain i where "(i, n) \<in> set (nodes_by_id cfg)" by auto
    then have "aget (nodes_by_id cfg) i = Some n"
      using distinct_nodes_by_id [of cfg] by (simp add: akeys_def)
    then have "n \<in> set (gc_nodes cfg)" using nodes_by_id_id by blast
    with assms that(2) show ?thesis by (simp add: parents_ok_def)
  qed
  have "(case is_descendant_of (nodes_by_id cfg) n container of None \<Rightarrow> None | Some False \<Rightarrow> Some 0
      | Some True \<Rightarrow> instances_per_round rc (nodes_by_id cfg) n container) \<noteq> None"
    if "parents_end (nodes_by_id cfg) (n_parent n)" for n
    using descendant_returns [OF that, of container] per_round_returns [OF that, of rc container 1]
    unfolding is_descendant_of_def instances_per_round_def
    by (cases "descendant_walk (nodes_by_id cfg) container (n_parent n)") (simp_all split: bool.splits)
  then show ?thesis
    using ends unfolding loop_subgraph_business_count_def sum_business_None set_map by blast
qed

subsection \<open>Errors and failure\<close>

definition runtime_error_of :: "string \<Rightarrow> instance_key \<Rightarrow> graph_node \<Rightarrow> string \<Rightarrow> runtime_error" where
  "runtime_error_of run_id key node msg =
     \<lparr> re_run_id = run_id, re_key = Some key, re_node_id = n_id node, re_message = msg, re_can_resume = True \<rparr>"

definition run_error :: "string \<Rightarrow> string \<Rightarrow> runtime_error" where
  "run_error run_id msg =
     \<lparr> re_run_id = run_id, re_key = None, re_node_id = [], re_message = msg, re_can_resume = True \<rparr>"

definition mark_failed :: "sched_env \<Rightarrow> int \<Rightarrow> sched \<Rightarrow> sched" where
  "mark_failed env finished_at s =
     set_job env JobFailed RunFailed []
       (s\<lparr>sc_failed := True, sc_run := (sc_run s)\<lparr>gr_status := RunFailed, gr_finished_at := finished_at,
          gr_updated_at := env_now env\<rparr>\<rparr>)"

definition fail_run_sched :: "sched_env \<Rightarrow> string \<Rightarrow> sched \<Rightarrow> sched" where
  "fail_run_sched env msg s =
     (let s = s\<lparr>sc_run := (sc_run s)\<lparr>gr_last_error := Some (run_error (gr_id (sc_run s)) msg)\<rparr>\<rparr>;
          s = set_progress_error msg (sync_progress s);
          s = emit (EvError msg) s
      in persist (mark_failed env (env_now env) s))"

subsection \<open>Run limits\<close>

definition default_instance_limit :: int where "default_instance_limit = 100000"
definition default_snapshot_byte_limit :: int where "default_snapshot_byte_limit = 2 ^ 30"

definition effective_instance_limit :: "graph_run_config \<Rightarrow> int" where
  "effective_instance_limit rc =
     (if rc_instance_limit rc \<le> 0 then default_instance_limit else rc_instance_limit rc)"

definition effective_snapshot_byte_limit :: "graph_run_config \<Rightarrow> int" where
  "effective_snapshot_byte_limit rc =
     (if rc_snapshot_byte_limit rc \<le> 0 then default_snapshot_byte_limit else rc_snapshot_byte_limit rc)"

text \<open>
  The length of \<open>json.Marshal\<close> of a map of string maps: Go escapes quotes, backslashes and the named
  control characters with two bytes, other control characters, \<open><\<close>, \<open>>\<close>, \<open>&\<close>, U+2028, U+2029 and
  invalid bytes with six.
\<close>

definition json_rune_size :: "rune \<Rightarrow> nat \<Rightarrow> nat" where
  "json_rune_size r w =
     (if r < 0x80 then
        (if r = 0x22 \<or> r = 0x5C \<or> r \<in> {0x08, 0x0C, 0x0A, 0x0D, 0x09} then 2
         else if r < 0x20 \<or> r = 0x3C \<or> r = 0x3E \<or> r = 0x26 then 6 else 1)
      else if (r = rune_error \<and> w = 1) \<or> r = 0x2028 \<or> r = 0x2029 then 6 else w)"

function json_text_size :: "string \<Rightarrow> nat" where
  "json_text_size s =
     (if s = [] then 0
      else json_rune_size (fst (decode_rune s)) (snd (decode_rune s)) + json_text_size (drop (snd (decode_rune s)) s))"
  by pat_completeness auto
termination
  by (relation "measure length") (auto simp: decode_rune_width_pos)

declare json_text_size.simps [simp del]

definition json_map_size :: "('v \<Rightarrow> nat) \<Rightarrow> (string \<times> 'v) list \<Rightarrow> nat" where
  "json_map_size val_size m =
     2 + (length m - 1) + sum_list (map (\<lambda>(k, v). json_text_size k + 2 + 1 + val_size v) m)"

definition graph_snapshot_bytes :: "(string \<times> vars) list \<Rightarrow> int" where
  "graph_snapshot_bytes m = int (json_map_size (json_map_size (\<lambda>v. json_text_size v + 2)) m)"

definition run_limit_error :: "sched \<Rightarrow> string option" where
  "run_limit_error s =
     (let limit = effective_instance_limit (gc_run_config (sc_cfg s));
          n = int (length (sc_instances s));
          byte_limit = effective_snapshot_byte_limit (gc_run_config (sc_cfg s));
          bytes = graph_snapshot_bytes (sc_vars_by_key s)
      in if limit < n then
           Some (''graph run instance limit exceeded: current instances='' @ itoa n @ '', limit='' @ itoa limit)
         else if byte_limit < bytes then
           Some (''graph run snapshot byte limit exceeded: current snapshot bytes='' @ itoa bytes @ '', limit='' @ itoa byte_limit)
         else None)"

definition check_run_limits :: "sched_env \<Rightarrow> sched \<Rightarrow> bool \<times> sched" where
  "check_run_limits env s =
     (case run_limit_error s of Some msg \<Rightarrow> (True, fail_run_sched env msg s) | None \<Rightarrow> (False, s))"

subsection \<open>Variables the engine injects\<close>

definition loop_var_index :: string where "loop_var_index = ''QUARTET_LOOP_INDEX''"
definition loop_var_fixed_count :: string where "loop_var_fixed_count = ''QUARTET_LOOP_FIXED_COUNT''"
definition loop_var_max_iters :: string where "loop_var_max_iters = ''QUARTET_LOOP_MAX_ITERS''"
definition var_current_time :: string where "var_current_time = ''_current_time''"

definition loop_iteration_vars :: "scope_run \<Rightarrow> vars" where
  "loop_iteration_vars sr =
     (if sr_container sr = [] then []
      else let mode = nc_loop_mode (n_config (sr_loop_node sr));
               fixed = (if mode = LoopOther [] \<or> mode = LoopFixed
                        then itoa (nc_fixed_count (n_config (sr_loop_node sr))) else [])
           in [(loop_var_index, itoa (sr_iter_index sr)), (loop_var_fixed_count, fixed),
               (loop_var_max_iters, itoa (sr_max_iters sr))])"

definition runtime_vars :: "sched_env \<Rightarrow> scope_run \<Rightarrow> vars" where
  "runtime_vars env sr = aput var_current_time (env_current_time env) (loop_iteration_vars sr)"

definition with_loop_vars :: "sched_env \<Rightarrow> vars \<Rightarrow> scope_run \<Rightarrow> vars" where
  "with_loop_vars env base sr = fold (\<lambda>(k, v) m. aput k v m) (runtime_vars env sr) base"

definition merge_loop_vars :: "vars \<Rightarrow> vars \<Rightarrow> vars" where
  "merge_loop_vars base loop_vars = (if loop_vars = [] then base else fold (\<lambda>(k, v) m. aput k v m) loop_vars base)"

end
