(* ===== verification/GraphScheduler.thy ===== *)
theory GraphScheduler
  imports GraphSchedState
begin

section \<open>The graph scheduler: deciding, loops and completions\<close>

text \<open>
  The handlers of \<open>services/graph/scheduler.go\<close> and \<open>loop.go\<close>. In the code they call one another
  recursively (\<open>resolveEdge\<close> decides a target, which resolves its own out-edges, and so on), always
  as the last thing a handler does or inside a loop over edges that stops when the run has failed.
  The model keeps that call stack explicit: a handler returns the new state and the calls it still
  has to make, in order, as \<open>frame\<close>s. A handler never does anything after a call that failed, so
  the stack is dropped when the run has failed.
\<close>

datatype frame =
    FResolve nat graph_edge bool upstream
  | FQuiesce nat
  | FLiveDown nat
  | FRelease string nat
  | FDecide nat graph_node instance_key vars vars string

abbreviation scope_at :: "sched \<Rightarrow> nat \<Rightarrow> scope_run" where
  "scope_at s i \<equiv> sc_scopes s i"

definition set_scope :: "nat \<Rightarrow> scope_run \<Rightarrow> sched \<Rightarrow> sched" where
  "set_scope i sr s = s\<lparr>sc_scopes := (sc_scopes s)(i := sr)\<rparr>"

definition add_live :: "nat \<Rightarrow> int \<Rightarrow> sched \<Rightarrow> sched" where
  "add_live i d s = set_scope i ((scope_at s i)\<lparr>sr_live := sr_live (scope_at s i) + d\<rparr>) s"

definition put_instance :: "string \<Rightarrow> instance_state \<Rightarrow> sched \<Rightarrow> sched" where
  "put_instance k st s = s\<lparr>sc_instances := aput k st (sc_instances s)\<rparr>"

definition put_vars :: "string \<Rightarrow> vars \<Rightarrow> vars \<Rightarrow> sched \<Rightarrow> sched" where
  "put_vars k vs ws s = s\<lparr>sc_vars_by_key := aput k vs (sc_vars_by_key s), sc_writers_by_key := aput k ws (sc_writers_by_key s)\<rparr>"

definition upstream_of :: "string \<Rightarrow> vars \<Rightarrow> vars \<Rightarrow> string \<Rightarrow> upstream" where
  "upstream_of node vs ws session =
     \<lparr> us_node = node, us_variables = vs, us_writers = ws,
       us_last_msg = (case aget vs last_assistant_key of Some m \<Rightarrow> m | None \<Rightarrow> []), us_session = session \<rparr>"

definition empty_upstream :: upstream where
  "empty_upstream = \<lparr> us_node = [], us_variables = [], us_writers = [], us_last_msg = [], us_session = [] \<rparr>"

text \<open>The state an instance starts from when the scheduler creates it.\<close>

definition new_instance :: "graph_node \<Rightarrow> instance_key \<Rightarrow> instance_status \<Rightarrow> int \<Rightarrow> instance_state" where
  "new_instance node key st version = zero_instance\<lparr>is_key := key, is_node_id := n_id node,
     is_node_title := n_title node, is_node_type := n_type node, is_status := st, is_version := version\<rparr>"

definition duration :: "int \<Rightarrow> int \<Rightarrow> int" where
  "duration finished started = max 0 (finished - started)"

text \<open>\<open>if sc.checkRunLimits(ctx) { return }\<close>, then the state is persisted and the handler goes on.\<close>

definition unless_over :: "sched_env \<Rightarrow> (sched \<Rightarrow> sched \<times> frame list) \<Rightarrow> sched \<Rightarrow> sched \<times> frame list" where
  "unless_over env k s = (case check_run_limits env s of (over, s) \<Rightarrow> if over then (s, []) else k (persist s))"

subsection \<open>Loops\<close>

definition close_loop_instance :: "sched_env \<Rightarrow> scope_run \<Rightarrow> sched \<Rightarrow> sched" where
  "close_loop_instance env loop s =
     (let k = instance_key_string (sr_loop_key loop);
          s = s\<lparr>sc_active_loops := adel k (sc_active_loops s)\<rparr>;
          unrun = loop_max_rounds (gc_run_config (sc_cfg s)) (sr_loop_node loop) - sr_rounds_run loop;
          s = (if unrun > 0 then denom_adjust (wrap64 (- unrun * subgraph_count s (sr_container loop))) s else s);
          st = instance_at s k;
          s = put_instance k (st\<lparr>is_status := InstSucceeded, is_visible := sr_accum loop,
                is_writers := sr_round_writers loop, is_session := sr_inflow loop, is_finished_at := env_now env,
                is_duration_ms := duration (env_now env) (is_started_at st)\<rparr>) s
      in sync_progress (put_vars k (sr_accum loop) (sr_round_writers loop) s))"

definition finish_loop :: "sched_env \<Rightarrow> nat \<Rightarrow> sched \<Rightarrow> sched \<times> frame list" where
  "finish_loop env i s =
     (let loop = scope_at s i;
          contrib = upstream_of (sr_container loop) (sr_accum loop) (sr_round_writers loop) (sr_inflow loop)
      in unless_over env
           (\<lambda>s. (emit (EvCompleted (instance_key_string (sr_loop_key loop))) s,
                 (if sc_stop_scheduling s then []
                  else map (\<lambda>e. FResolve (sr_parent loop) e True contrib) (outs_of s (sr_container loop)))
                 @ [FLiveDown (sr_parent loop), FQuiesce (sr_parent loop)]))
           (close_loop_instance env loop s))"

definition fail_loop_node :: "sched_env \<Rightarrow> nat \<Rightarrow> string \<Rightarrow> sched \<Rightarrow> sched" where
  "fail_loop_node env i msg s =
     (let loop = scope_at s i;
          k = instance_key_string (sr_loop_key loop);
          s = s\<lparr>sc_active_loops := adel k (sc_active_loops s)\<rparr>;
          rerr = runtime_error_of (gr_id (sc_run s)) (sr_loop_key loop) (sr_loop_node loop) msg;
          s = put_instance k ((instance_at s k)\<lparr>is_status := InstFailed, is_error := Some rerr, is_finished_at := env_now env\<rparr>) s;
          s = s\<lparr>sc_run := (sc_run s)\<lparr>gr_last_error := Some rerr\<rparr>\<rparr>;
          s = set_progress_error msg (sync_progress s)
      in mark_failed env (env_now env) (emit (EvFailed k) s))"

definition start_iteration :: "sched_env \<Rightarrow> nat \<Rightarrow> int \<Rightarrow> sched \<Rightarrow> sched \<times> frame list" where
  "start_iteration env i idx s =
     (let loop = scope_at s i;
          loop = loop\<lparr>sr_iter_index := idx, sr_rounds_run := idx + 1,
            sr_prefix := sr_prefix (scope_at s (sr_parent loop)) @ [\<lparr> li_loop_node = sr_container loop, li_index = idx \<rparr>],
            sr_round_entry := sr_accum loop, sr_round_entry_session := sr_inflow loop,
            sr_round_entry_writers := sr_round_writers loop, sr_round_contribs := [], sr_live := 0\<rparr>;
          s = emit (EvIteration (instance_key_string (sr_loop_key loop)) idx) (set_scope i loop s)
      in case aget (sc_loop_entry s) (sr_container loop) of
           None \<Rightarrow> (fail_run_sched env (''loop container '' @ sr_container loop @ '' has no subgraph entry node'') s, [])
         | Some entry \<Rightarrow>
             let s = s\<lparr>sc_any_active := List.insert (instance_key_string (scope_key (sr_prefix loop) entry)) (sc_any_active s)\<rparr>;
                 contrib = upstream_of entry (sr_accum loop) (sr_round_writers loop) (sr_inflow loop)
             in (s, map (\<lambda>e. FResolve i e True contrib) (outs_of s entry) @ [FQuiesce i]))"

text \<open>The end of a round: the join of the activated internal ends, else the round's entry.\<close>

definition close_round :: "nat \<Rightarrow> sched \<Rightarrow> sched" where
  "close_round i s =
     (let loop = scope_at s i;
          (vs, ws, sess) =
            (if sr_round_contribs loop \<noteq> []
             then (case merge_visible_snapshots (sr_round_contribs loop) of
                     (vs, ws) \<Rightarrow> (vs, ws, pick_inflow_session (sr_round_contribs loop)))
             else (sr_round_entry loop, sr_round_entry_writers loop, sr_round_entry_session loop))
      in set_scope i (loop\<lparr>sr_accum := vs, sr_round_writers := ws, sr_inflow := sess\<rparr>) s)"

definition finish_iteration :: "sched_env \<Rightarrow> nat \<Rightarrow> sched \<Rightarrow> sched \<times> frame list" where
  "finish_iteration env i s =
     (let s = close_round i s;
          loop = scope_at s i;
          node = sr_loop_node loop
      in if sr_stop_loop loop then finish_loop env i s
         else case nc_loop_mode (n_config node) of
           LoopFixed \<Rightarrow>
             if sr_iter_index loop + 1 \<ge> nc_fixed_count (n_config node) then finish_loop env i s
             else start_iteration env i (sr_iter_index loop + 1) s
         | LoopUntil \<Rightarrow>
             (case evaluate_condition (env_lower env) (nc_until_condition (n_config node))
                     \<lparr> ci_variables = with_loop_vars env (sr_accum loop) loop,
                       ci_disabled = gc_disabled_vars (sc_cfg s) \<rparr> of
                Inl err \<Rightarrow> (fail_loop_node env i (env_error_text env err) s, [])
              | Inr result \<Rightarrow>
                  if result \<or> sr_iter_index loop + 1 \<ge> sr_max_iters loop then finish_loop env i s
                  else start_iteration env i (sr_iter_index loop + 1) s)
         | LoopOther mode \<Rightarrow>
             (fail_run_sched env (''loop '' @ n_id node @ '' has unknown loop mode \"'' @ mode @ ''\"'') s, []))"

definition on_scope_quiesced :: "sched_env \<Rightarrow> nat \<Rightarrow> sched \<Rightarrow> sched \<times> frame list" where
  "on_scope_quiesced env i s =
     (if sr_container (scope_at s i) = [] \<or> sr_live (scope_at s i) > 0 \<or> sc_failed s \<or> sc_stop_scheduling s
         \<or> sc_step_stop s
      then (s, []) else finish_iteration env i s)"

text \<open>The scope object of a loop activation; it is not in any round yet.\<close>

definition open_scope :: "nat \<Rightarrow> graph_node \<Rightarrow> instance_key \<Rightarrow> vars \<Rightarrow> vars \<Rightarrow> string \<Rightarrow> sched \<Rightarrow> sched" where
  "open_scope i node key visible writers inflow s =
     (let j = sc_next_scope s;
          loop = zero_scope\<lparr>sr_container := n_id node, sr_parent := i, sr_loop_node := node, sr_loop_key := key,
            sr_max_iters := effective_loop_max_iters (gc_run_config (sc_cfg s)) node,
            sr_accum := visible, sr_round_writers := writers, sr_inflow := inflow\<rparr>
      in (set_scope j loop s)\<lparr>sc_next_scope := Suc j,
            sc_active_loops := aput (instance_key_string key) j (sc_active_loops s)\<rparr>)"

definition start_loop :: "sched_env \<Rightarrow> nat \<Rightarrow> graph_node \<Rightarrow> instance_key \<Rightarrow> vars \<Rightarrow> vars \<Rightarrow> string \<Rightarrow> sched \<Rightarrow> sched \<times> frame list" where
  "start_loop env i node key visible writers inflow s =
     (let k = instance_key_string key;
          s = put_instance k ((new_instance node key InstRunning (gr_current_version (sc_run s)))
                \<lparr>is_visible := visible, is_writers := writers, is_started_at := env_now env, is_session := inflow\<rparr>) s;
          s = sync_progress (s\<lparr>sc_writers_by_key := aput k writers (sc_writers_by_key s)\<rparr>)
      in unless_over env
           (\<lambda>s. let j = sc_next_scope s;
                    s = open_scope i node key visible writers inflow (add_live i 1 (emit (EvStarted k) s))
                in if nc_loop_mode (n_config node) = LoopFixed \<and> nc_fixed_count (n_config node) \<le> 0
                   then finish_loop env j s else start_iteration env j 0 s) s)"

subsection \<open>Work for the pool\<close>

definition execution_version_for_instance :: "graph_run \<Rightarrow> instance_key \<Rightarrow> int" where
  "execution_version_for_instance run key =
     (let k = instance_key_string key;
          v = (case aget (gr_retry_versions run) k of Some r \<Rightarrow> if r > 0 then r else gr_current_version run
               | None \<Rightarrow> gr_current_version run)
      in case aget (gr_archived run) k of Some st \<Rightarrow> if is_version st > 0 then is_version st else v | None \<Rightarrow> v)"

definition resume_carry_session :: "graph_run \<Rightarrow> instance_key \<Rightarrow> graph_node \<Rightarrow> string" where
  "resume_carry_session run key node =
     (if n_type node \<noteq> NPrompt then []
      else case aget (gr_archived run) (instance_key_string key) of
             None \<Rightarrow> []
           | Some st \<Rightarrow> if is_status st \<noteq> InstInterrupted then []
                        else first_non_empty [is_display_session st, is_session st])"

definition enqueue :: "sched_env \<Rightarrow> nat \<Rightarrow> graph_node \<Rightarrow> instance_key \<Rightarrow> vars \<Rightarrow> vars \<Rightarrow> string \<Rightarrow> sched \<Rightarrow> sched \<times> frame list" where
  "enqueue env i node key visible writers inflow s =
     (if sc_stop_scheduling s then (s, [])
      else let k = instance_key_string key;
               loop_vars = runtime_vars env (scope_at s i);
               display = (if n_type node = NShell
                          then (case env_begin_shell env (substitute_variables (nc_script (n_config node))
                                       (merge_loop_vars visible loop_vars) (gc_disabled_vars (sc_cfg s))) of
                                  Some sid \<Rightarrow> sid | None \<Rightarrow> [])
                          else []);
               s = put_instance k ((new_instance node key InstRunning (execution_version_for_instance (sc_run s) key))
                     \<lparr>is_visible := visible, is_writers := writers, is_started_at := env_now env,
                      is_display_session := display\<rparr>) s;
               s = sync_progress (put_vars k visible writers s)
           in unless_over env
                (\<lambda>s. let s = add_live i 1 (emit (EvStarted k) s);
                         item = \<lparr> ri_node = node, ri_out_edges = outs_of s (n_id node), ri_run = sc_run s,
                           ri_run_config = gc_run_config (sc_cfg s), ri_disabled = gc_disabled_vars (sc_cfg s),
                           ri_key = key, ri_visible = visible, ri_writers = writers, ri_scope = i,
                           ri_inflow = inflow, ri_loop_vars = loop_vars \<rparr>
                     in (s\<lparr>sc_ready := sc_ready s @ [item]\<rparr>, [])) s)"

subsection \<open>Routing, pruning and deciding\<close>

definition resolve_all :: "nat \<Rightarrow> graph_edge list \<Rightarrow> (graph_edge \<Rightarrow> bool) \<Rightarrow> upstream \<Rightarrow> frame list" where
  "resolve_all i es active contrib = map (\<lambda>e. FResolve i e (active e) (if active e then contrib else empty_upstream)) es"

definition decide_if_else :: "sched_env \<Rightarrow> nat \<Rightarrow> graph_node \<Rightarrow> instance_key \<Rightarrow> vars \<Rightarrow> vars \<Rightarrow> string \<Rightarrow> sched \<Rightarrow> sched \<times> frame list" where
  "decide_if_else env i node key visible writers inflow s =
     (let k = instance_key_string key;
          version = gr_current_version (sc_run s)
      in case evaluate_condition (env_lower env) (nc_condition (n_config node))
                \<lparr> ci_variables = with_loop_vars env visible (scope_at s i), ci_disabled = gc_disabled_vars (sc_cfg s) \<rparr> of
           Inl err \<Rightarrow>
             let msg = env_error_text env err;
                 rerr = runtime_error_of (gr_id (sc_run s)) key node msg;
                 s = put_instance k ((new_instance node key InstFailed version)\<lparr>is_visible := visible, is_writers := writers,
                       is_started_at := env_now env, is_finished_at := env_now env, is_error := Some rerr\<rparr>) s;
                 s = s\<lparr>sc_run := (sc_run s)\<lparr>gr_last_error := Some rerr\<rparr>\<rparr>;
                 s = emit (EvFailed k) (set_progress_error msg (sync_progress s))
             in (mark_failed env (env_now env) s, [])
         | Inr result \<Rightarrow>
             let s = put_instance k ((new_instance node key InstSucceeded version)\<lparr>is_visible := visible, is_writers := writers,
                       is_started_at := env_now env, is_finished_at := env_now env, is_session := inflow\<rparr>) s;
                 s = sync_progress (put_vars k visible writers s);
                 chosen = (if result then PortYes else PortNo)
             in unless_over env
                  (\<lambda>s. (emit (EvCompleted k) s,
                        resolve_all i (outs_of s (n_id node)) (\<lambda>e. e_source_port e = chosen)
                          (upstream_of (n_id node) visible writers inflow))) s)"

definition skip_instance :: "sched_env \<Rightarrow> graph_node \<Rightarrow> instance_key \<Rightarrow> sched \<Rightarrow> sched" where
  "skip_instance env node key s =
     (let s = put_instance (instance_key_string key)
                ((new_instance node key InstSkipped (gr_current_version (sc_run s)))
                   \<lparr>is_started_at := env_now env, is_finished_at := env_now env,
                    is_blocked_reason := ''all in-edges pruned''\<rparr>) s;
          s = denom_adjust (- 1) s;
          s = (if n_type node = NLoop
               then denom_adjust (wrap64 (- loop_max_rounds (gc_run_config (sc_cfg s)) node * subgraph_count s (n_id node))) s
               else s)
      in sync_progress s)"

definition prune_node :: "sched_env \<Rightarrow> nat \<Rightarrow> graph_node \<Rightarrow> instance_key \<Rightarrow> sched \<Rightarrow> sched \<times> frame list" where
  "prune_node env i node key s =
     (let prune_outs = (\<lambda>s. resolve_all i (outs_of s (n_id node)) (\<lambda>e. False) empty_upstream)
      in if is_business (n_type node)
         then unless_over env (\<lambda>s. (emit (EvSkipped (instance_key_string key)) s, prune_outs s)) (skip_instance env node key s)
         else (s, prune_outs s))"

definition resolve_end_hook :: "sched_env \<Rightarrow> graph_node \<Rightarrow> string option" where
  "resolve_end_hook env node =
     (let script = (case nc_end_hook_mode (n_config node) of
                      HookOff \<Rightarrow> []
                    | HookCustom \<Rightarrow> nc_hook_script (n_config node)
                    | _ \<Rightarrow> (case env_end_hook_script env of Some sc \<Rightarrow> sc | None \<Rightarrow> []))
      in if trim_space script = [] then None else Some script)"

definition fire_hook :: "string \<Rightarrow> string \<Rightarrow> sched \<Rightarrow> sched" where
  "fire_hook k script s = (if trim_space script = [] then s else emit (EvHook k script) s)"

definition reach_main_end :: "sched_env \<Rightarrow> graph_node \<Rightarrow> string \<Rightarrow> sched \<Rightarrow> sched" where
  "reach_main_end env node k s =
     (let s = s\<lparr>sc_end_reached := True\<rparr>
      in if k \<in> set (sc_end_hook_fired s) then s
         else let s = s\<lparr>sc_end_hook_fired := k # sc_end_hook_fired s\<rparr>
              in case resolve_end_hook env node of Some script \<Rightarrow> fire_hook k script s | None \<Rightarrow> s)"

definition decide :: "sched_env \<Rightarrow> nat \<Rightarrow> graph_node \<Rightarrow> instance_key \<Rightarrow> vars \<Rightarrow> vars \<Rightarrow> string \<Rightarrow> sched \<Rightarrow> sched \<times> frame list" where
  "decide env i node key visible writers inflow s =
     (let k = instance_key_string key in
      if (case aget (sc_instances s) k of Some st \<Rightarrow> is_status st = InstSucceeded \<or> is_status st = InstSkipped | None \<Rightarrow> False)
      then (s, [])
      else if k \<notin> set (sc_any_active s) then prune_node env i node key s
      else let visible = overlay_current_initial_variables (gc_variables (sc_cfg s)) visible writers
           in case n_type node of
                NEnd \<Rightarrow>
                  if n_parent node = [] then (reach_main_end env node k s, [])
                  else (set_scope i ((scope_at s i)\<lparr>sr_round_contribs := sr_round_contribs (scope_at s i)
                          @ [upstream_of (n_id node) visible writers inflow]\<rparr>) s, [])
              | NIfElse \<Rightarrow> decide_if_else env i node key visible writers inflow s
              | NShell \<Rightarrow> enqueue env i node key visible writers inflow s
              | NPrompt \<Rightarrow> enqueue env i node key visible writers inflow s
              | NClarify \<Rightarrow> enqueue env i node key visible writers inflow s
              | NLoop \<Rightarrow> start_loop env i node key visible writers inflow s
              | NStart \<Rightarrow> (s, [])
              | NOther t \<Rightarrow> (fail_run_sched env (''node '' @ n_id node @ '' has type '' @ t @ '' which is not supported by the scheduler'') s, []))"

text \<open>
  \<open>resolveEdge\<close> first records the edge: its status, the contribution of an active one, and one in-edge
  less to wait for. Then the target is decided unless it still waits.
\<close>

definition remaining_at :: "sched \<Rightarrow> string \<Rightarrow> string \<Rightarrow> int" where
  "remaining_at s k target = (case aget (sc_in_remaining s) k of Some r \<Rightarrow> r | None \<Rightarrow> degree_of s target)"

definition target_key :: "sched \<Rightarrow> nat \<Rightarrow> graph_edge \<Rightarrow> instance_key" where
  "target_key s i e = scope_key (sr_prefix (scope_at s i)) (e_target e)"

definition record_edge :: "sched_env \<Rightarrow> nat \<Rightarrow> graph_edge \<Rightarrow> bool \<Rightarrow> upstream \<Rightarrow> sched \<Rightarrow> sched" where
  "record_edge env i e active contrib s =
     (let target = target_key s i e;
          k = instance_key_string target;
          s = (if active
               then s\<lparr>sc_contribs := aput k (contribs_at s k @ [contrib]) (sc_contribs s),
                      sc_any_active := List.insert k (sc_any_active s)\<rparr>
               else s);
          s = s\<lparr>sc_edges := aput (edge_state_key (e_id e) target)
                \<lparr> es_edge_id = e_id e, es_source = scope_key (sr_prefix (scope_at s i)) (e_source e), es_target = target,
                  es_status = (if active then EdgeActive else EdgePruned), es_resolved_at = env_now env,
                  es_reason = (if active then [] else ''upstream pruned'') \<rparr> (sc_edges s)\<rparr>;
          s = emit (EvEdge (e_id e) k active) s
      in s\<lparr>sc_in_remaining := aput k (remaining_at s k (e_target e) - 1) (sc_in_remaining s)\<rparr>)"

definition resolve_edge :: "sched_env \<Rightarrow> nat \<Rightarrow> graph_edge \<Rightarrow> bool \<Rightarrow> upstream \<Rightarrow> sched \<Rightarrow> sched \<times> frame list" where
  "resolve_edge env i e active contrib s =
     (let target = target_key s i e;
          k = instance_key_string target;
          s = record_edge env i e active contrib s
      in if remaining_at s k (e_target e) > 0 then (s, [])
         else case merge_visible_snapshots (contribs_at s k) of
                (visible, writers) \<Rightarrow>
                  decide env i (node_at s (e_target e)) target visible writers (pick_inflow_session (contribs_at s k)) s)"

subsection \<open>Completions\<close>

definition zero_resume :: resume_state where
  "zero_resume = \<lparr> rs_loop_state = [], rs_lineage = [], rs_frozen_batch = None \<rparr>"

definition resume_of :: "sched \<Rightarrow> resume_state" where
  "resume_of s = (case gr_resume (sc_run s) of Some r \<Rightarrow> r | None \<Rightarrow> zero_resume)"

definition record_session_lineage :: "instance_key \<Rightarrow> graph_node \<Rightarrow> string \<Rightarrow> string \<Rightarrow> sched \<Rightarrow> sched" where
  "record_session_lineage key node inflow outflow s =
     (if outflow = [] then s
      else let strategy = (if nc_session_strategy (n_config node) = StrategyOther [] then StrategyNew
                           else nc_session_strategy (n_config node));
               lineage = \<lparr> sl_strategy = strategy, sl_session = outflow, sl_parent_session = inflow \<rparr>
           in s\<lparr>sc_run := (sc_run s)\<lparr>gr_resume := Some ((resume_of s)
                \<lparr>rs_lineage := aput (instance_key_string key) lineage (rs_lineage (resume_of s))\<rparr>)\<rparr>\<rparr>)"

definition handle_session_opened :: "sched_env \<Rightarrow> instance_key \<Rightarrow> string \<Rightarrow> sched \<Rightarrow> sched" where
  "handle_session_opened env key session s =
     (if session = [] then s
      else let s = whitelist_agent_session env session s;
               k = instance_key_string key
           in case aget (sc_instances s) k of
                None \<Rightarrow> s
              | Some st \<Rightarrow>
                  if is_status st \<noteq> InstRunning \<or> is_display_session st \<noteq> [] then s
                  else emit (EvSessionOpened k session)
                         (persist (sync_progress (put_instance k (st\<lparr>is_display_session := session\<rparr>) s))))"

definition outflow_session :: "string \<Rightarrow> node_outcome \<Rightarrow> string" where
  "outflow_session inflow outcome = (if no_session outcome \<noteq> [] then no_session outcome else inflow)"

definition fail_instance :: "sched_env \<Rightarrow> instance_state \<Rightarrow> instance_key \<Rightarrow> graph_node \<Rightarrow> string \<Rightarrow> int \<Rightarrow> string \<Rightarrow>
    node_outcome \<Rightarrow> sched \<Rightarrow> sched" where
  "fail_instance env st key node msg finished_at inflow outcome s =
     (let k = instance_key_string key;
          rerr = runtime_error_of (gr_id (sc_run s)) key node msg;
          out = outflow_session inflow outcome;
          st = st\<lparr>is_status := InstFailed, is_error := Some rerr, is_session := out,
                  is_writers := (case aget (sc_writers_by_key s) k of Some ws \<Rightarrow> ws | None \<Rightarrow> [])\<rparr>;
          st = (if n_type node = NShell then st else st\<lparr>is_display_session := out\<rparr>);
          s = put_instance k st s;
          s = (if n_type node = NShell then s else whitelist_agent_session env out s);
          s = s\<lparr>sc_run := (sc_run s)\<lparr>gr_last_error := Some rerr\<rparr>\<rparr>;
          s = set_progress_error msg (sync_progress s)
      in mark_failed env finished_at (emit (EvFailed k) s))"

text \<open>The variables a node wrote, the last assistant message and its alias, over what it saw.\<close>

definition put_all :: "vars \<Rightarrow> vars \<Rightarrow> vars" where
  "put_all new old = fold (\<lambda>(k, v) m. aput k v m) new old"

definition visible_after :: "graph_node \<Rightarrow> node_outcome \<Rightarrow> vars \<Rightarrow> vars" where
  "visible_after node outcome visible =
     (let vs = aput last_assistant_key (no_output outcome) (put_all (no_produced outcome) visible);
          alias = nc_last_assistant_alias (n_config node)
      in if alias = [] then vs else aput alias (no_output outcome) vs)"

definition produced_after :: "graph_node \<Rightarrow> node_outcome \<Rightarrow> vars" where
  "produced_after node outcome =
     (let alias = nc_last_assistant_alias (n_config node)
      in if alias = [] then no_produced outcome else aput alias (no_output outcome) (no_produced outcome))"

definition writers_after :: "graph_node \<Rightarrow> node_outcome \<Rightarrow> vars \<Rightarrow> vars" where
  "writers_after node outcome writers =
     (let ws = aput last_assistant_key (n_id node) (put_all (map (\<lambda>(k, v). (k, n_id node)) (no_produced outcome)) writers);
          alias = nc_last_assistant_alias (n_config node)
      in if alias = [] then ws else aput alias (n_id node) ws)"

definition complete_instance :: "sched_env \<Rightarrow> ready_item \<Rightarrow> node_outcome \<Rightarrow> instance_state \<Rightarrow> sched \<Rightarrow> instance_state \<times> sched" where
  "complete_instance env item outcome st s =
     (let node = ri_node item;
          k = instance_key_string (ri_key item);
          out = outflow_session (ri_inflow item) outcome;
          vs = visible_after node outcome (ri_visible item);
          ws = writers_after node outcome (ri_writers item);
          st = st\<lparr>is_status := InstSucceeded, is_visible := vs, is_outputs := produced_after node outcome,
                  is_writers := ws, is_session := out\<rparr>;
          st = (if n_type node = NShell then st else st\<lparr>is_display_session := out\<rparr>);
          s = put_vars k vs ws (put_instance k st s);
          s = (if n_type node = NShell then s else whitelist_agent_session env out s);
          s = record_session_lineage (ri_key item) node (ri_inflow item) (no_session outcome) s
      in (st, sync_progress s))"

text \<open>What follows a recorded completion: parking, stopping, breaking the loop, or the out-edges.\<close>

definition after_completion :: "sched_env \<Rightarrow> ready_item \<Rightarrow> node_outcome \<Rightarrow> instance_state \<Rightarrow> sched \<Rightarrow> sched \<times> frame list" where
  "after_completion env item outcome st s =
     (let node = ri_node item;
          k = instance_key_string (ri_key item);
          i = ri_scope item;
          done_frames = [FLiveDown i, FQuiesce i];
          stop_loop = no_stop_loop outcome \<and> sr_container (scope_at s i) \<noteq> [];
          contrib = \<lparr> us_node = n_id node, us_variables = visible_after node outcome (ri_visible item),
            us_writers = writers_after node outcome (ri_writers item), us_last_msg = no_output outcome,
            us_session = outflow_session (ri_inflow item) outcome \<rparr>
      in if n_type node = NClarify then
           let s = put_instance k (st\<lparr>is_status := InstAwaitingInput, is_blocked_reason := ''awaiting user input''\<rparr>) s;
               s = sync_progress (s\<lparr>sc_awaiting := True\<rparr>)
           in (emit (EvAwaiting k) (persist s), done_frames)
         else if no_stop_workflow outcome then
           (add_live i (- 1) (s\<lparr>sc_stop_scheduling := True, sc_end_reached := True, sc_ready := []\<rparr>), [])
         else if stop_loop then
           (set_scope i ((scope_at s i)\<lparr>sr_stop_loop := True\<rparr>) s,
            resolve_all i (outs_of s (n_id node)) (\<lambda>e. False) empty_upstream @ done_frames)
         else if sc_stop_scheduling s then (s, done_frames)
         else (s, resolve_all i (ri_out_edges item) (\<lambda>e. True) contrib @ done_frames))"

definition announce_completion :: "graph_node \<Rightarrow> string \<Rightarrow> vars \<Rightarrow> sched \<Rightarrow> sched" where
  "announce_completion node k produced s =
     (let s = fold (\<lambda>(name, v). emit (EvVariable k)) produced (emit (EvCompleted k) s)
      in if n_type node = NPrompt \<and> nc_hook_script (n_config node) \<noteq> []
         then fire_hook k (nc_hook_script (n_config node)) s else s)"

definition handle_result :: "sched_env \<Rightarrow> ready_item \<Rightarrow> string + node_outcome \<Rightarrow> node_outcome \<Rightarrow> sched \<Rightarrow> sched \<times> frame list" where
  "handle_result env item res partial s =
     (let node = ri_node item;
          k = instance_key_string (ri_key item);
          st = instance_at s k;
          st = st\<lparr>is_finished_at := env_now env, is_duration_ms := duration (env_now env) (is_started_at st)\<rparr>
      in case res of
           Inl msg \<Rightarrow> (fail_instance env st (ri_key item) node msg (env_now env) (ri_inflow item) partial s, [])
         | Inr outcome \<Rightarrow>
             (case complete_instance env item outcome st s of (st, s) \<Rightarrow>
                unless_over env
                  (\<lambda>s. after_completion env item outcome st
                         (announce_completion node k (produced_after node outcome) s)) s))"

subsection \<open>The call stack\<close>

definition exec_frame :: "sched_env \<Rightarrow> frame \<Rightarrow> sched \<Rightarrow> sched \<times> frame list" where
  "exec_frame env f s =
     (case f of
        FResolve i e active contrib \<Rightarrow> resolve_edge env i e active contrib s
      | FQuiesce i \<Rightarrow> on_scope_quiesced env i s
      | FLiveDown i \<Rightarrow> (add_live i (- 1) s, [])
      | FRelease k i \<Rightarrow> if aget (sc_active_loops s) k = Some i then on_scope_quiesced env i s else (s, [])
      | FDecide i node key visible writers inflow \<Rightarrow> decide env i node key visible writers inflow s)"

end
