(* ===== verification/GraphControl.thy ===== *)
theory GraphControl
  imports GraphScheduler
begin

section \<open>Run control and the scheduler's main loop\<close>

text \<open>
  \<open>services/graph/control.go\<close> and the main loop of \<open>scheduler.go\<close>. The loop is a machine on a call
  stack and a scheduler state. Between two handlers the loop may dispatch a ready item to a free
  worker, take a worker's result, take a control signal, or settle; which of these happens is the
  environment's choice, so every interleaving the \<open>select\<close> allows is a run of the machine. Workers
  are the items in \<open>sc_in_flight\<close>: a worker's result is an input. Version updates are not an input
  of this machine.
\<close>

subsection \<open>Dispatch\<close>

definition can_dispatch :: "sched \<Rightarrow> ready_item \<Rightarrow> bool" where
  "can_dispatch s item =
     (if sc_step_stop s then
        (case sc_cur_batch s of None \<Rightarrow> False
         | Some b \<Rightarrow> aget (rb_members b) (instance_key_string (ri_key item)) \<noteq> None)
      else if sc_session_stop s \<and> is_agent (n_type (ri_node item)) then
        nc_session_strategy (n_config (ri_node item)) = StrategyInherit
        \<or> resume_carry_session (ri_run item) (ri_key item) (ri_node item) \<noteq> []
      else True)"

definition next_dispatchable_index :: "sched \<Rightarrow> nat option" where
  "next_dispatchable_index s = first_index (can_dispatch s) (sc_ready s)"

definition has_dispatchable :: "sched \<Rightarrow> bool" where
  "has_dispatchable s \<longleftrightarrow> next_dispatchable_index s \<noteq> None"

definition concurrency_limit :: "int \<Rightarrow> int" where
  "concurrency_limit configured =
     (if configured \<le> 0 then 8 else if configured > 16 then 16 else configured)"

definition dispatch :: "sched \<Rightarrow> sched" where
  "dispatch s =
     (case next_dispatchable_index s of
        Some i \<Rightarrow>
          if int (length (sc_in_flight s)) < concurrency_limit (rc_concurrency_limit (gc_run_config (sc_cfg s)))
          then s\<lparr>sc_ready := remove_at i (sc_ready s), sc_in_flight := sc_in_flight s @ [sc_ready s ! i]\<rparr>
          else s
      | None \<Rightarrow> s)"

subsection \<open>Graceful stops\<close>

datatype control_signal = CtrlHardStop string | CtrlStepStop string | CtrlSessionStop string | CtrlCancelStop string

definition or_default :: "string \<Rightarrow> string \<Rightarrow> string" where
  "or_default s d = (if s = [] then d else s)"

definition set_status :: "sched_env \<Rightarrow> run_status \<Rightarrow> sched \<Rightarrow> sched" where
  "set_status env st s = s\<lparr>sc_run := (sc_run s)\<lparr>gr_status := st, gr_updated_at := env_now env\<rparr>\<rparr>"

definition instance_key_batch_id :: "string \<Rightarrow> int \<Rightarrow> string" where
  "instance_key_batch_id run_id seq = run_id @ ''#batch-'' @ itoa seq"

definition clear_frozen_batch :: "sched \<Rightarrow> sched" where
  "clear_frozen_batch s = s\<lparr>sc_cur_batch := None, sc_run := (sc_run s)\<lparr>gr_resume :=
     map_option (\<lambda>r. r\<lparr>rs_frozen_batch := None\<rparr>) (gr_resume (sc_run s))\<rparr>\<rparr>"

definition freeze_current_batch :: "sched_env \<Rightarrow> sched \<Rightarrow> sched" where
  "freeze_current_batch env s =
     (let seq = sc_batch_seq s + 1;
          running = filter (\<lambda>(k, st). is_status st = InstRunning \<and> is_business (is_node_type st)) (sc_instances s);
          batch = \<lparr> rb_id = instance_key_batch_id (gr_id (sc_run s)) seq, rb_version = gr_current_version (sc_run s),
            rb_members = map (\<lambda>(k, st). (k, is_key st, is_status st)) running, rb_created_at = env_now env \<rparr>
      in s\<lparr>sc_batch_seq := seq, sc_cur_batch := Some batch,
           sc_run := (sc_run s)\<lparr>gr_resume := Some ((resume_of s)\<lparr>rs_frozen_batch := Some batch\<rparr>)\<rparr>\<rparr>)"

text \<open>Rounds a step stop held open; each is looked up again when its turn comes.\<close>

definition release_stopped_loops :: "sched \<Rightarrow> frame list" where
  "release_stopped_loops s =
     map (\<lambda>(k, i). FRelease (instance_key_string (sr_loop_key (scope_at s i))) i)
       (filter (\<lambda>(k, i). sr_live (scope_at s i) = 0) (sc_active_loops s))"

definition apply_graceful_signal :: "sched_env \<Rightarrow> control_signal \<Rightarrow> sched \<Rightarrow> sched \<times> frame list" where
  "apply_graceful_signal env sig s =
     (case sig of
        CtrlStepStop reason \<Rightarrow>
          if sc_step_stop s then (s, [])
          else let s = s\<lparr>sc_step_stop := True, sc_session_stop := False, sc_stop_reason := or_default reason ''step stopped''\<rparr>;
                   s = freeze_current_batch env (set_status env RunStepStopping s)
               in (emit (EvProgress (sc_stop_reason s)) (persist s), [])
      | CtrlSessionStop reason \<Rightarrow>
          if sc_session_stop s then (s, [])
          else let s = clear_frozen_batch (s\<lparr>sc_step_stop := False, sc_session_stop := True\<rparr>);
                   s = set_status env RunSessionStopping (s\<lparr>sc_stop_reason := or_default reason ''session stopped''\<rparr>);
                   s = emit (EvProgress (sc_stop_reason s)) (persist s)
               in (s, release_stopped_loops s)
      | _ \<Rightarrow> (s, []))"

definition cancel_graceful_signal :: "sched_env \<Rightarrow> string \<Rightarrow> sched \<Rightarrow> sched \<times> frame list" where
  "cancel_graceful_signal env reason s =
     (if \<not> sc_step_stop s \<and> \<not> sc_session_stop s then (s, [])
      else let s = clear_frozen_batch (s\<lparr>sc_step_stop := False, sc_session_stop := False, sc_stop_reason := []\<rparr>);
               s = persist (set_status env RunRunning s);
               s = emit (EvProgress (or_default reason ''stop cancelled'')) s
           in (s, release_stopped_loops s))"

subsection \<open>Leaving the loop\<close>

definition interrupt_instance :: "int \<Rightarrow> string \<Rightarrow> instance_state \<Rightarrow> instance_state" where
  "interrupt_instance now reason st =
     (if is_status st \<noteq> InstRunning then st
      else st\<lparr>is_status := InstInterrupted, is_finished_at := now, is_duration_ms := duration now (is_started_at st),
              is_blocked_reason := reason\<rparr>)"

definition interrupt_running :: "sched_env \<Rightarrow> string \<Rightarrow> sched \<Rightarrow> sched" where
  "interrupt_running env reason s =
     (let running = filter (\<lambda>(k, st). is_status st = InstRunning) (sc_instances s);
          s = s\<lparr>sc_instances := map (\<lambda>(k, st). (k, interrupt_instance (env_now env) reason st)) (sc_instances s)\<rparr>
      in sync_progress (fold (\<lambda>(k, st). emit (EvFailed k)) running s))"

text \<open>An instance created by \<open>enqueue\<close> but never dispatched disappears; resume derives it again.\<close>

definition rollback_item :: "ready_item \<Rightarrow> sched \<Rightarrow> sched" where
  "rollback_item item s =
     (let k = instance_key_string (ri_key item) in
      case aget (sc_instances s) k of
        Some st \<Rightarrow> if is_status st = InstRunning
                   then s\<lparr>sc_instances := adel k (sc_instances s), sc_vars_by_key := adel k (sc_vars_by_key s)\<rparr> else s
      | None \<Rightarrow> s)"

definition rollback_undispatched :: "sched \<Rightarrow> sched" where
  "rollback_undispatched s = (fold rollback_item (sc_ready s) s)\<lparr>sc_ready := []\<rparr>"

definition loop_state_of :: "scope_run \<Rightarrow> graph_loop_state" where
  "loop_state_of sr = \<lparr> gl_loop_node = sr_container sr, gl_key = sr_loop_key sr, gl_iteration = sr_iter_index sr,
     gl_completed = False, gl_variables = sr_round_entry sr, gl_writers = sr_round_entry_writers sr,
     gl_entry_session = sr_round_entry_session sr \<rparr>"

definition snapshot_loop_state :: "sched \<Rightarrow> sched" where
  "snapshot_loop_state s = s\<lparr>sc_run := (sc_run s)\<lparr>gr_resume := Some ((resume_of s)
     \<lparr>rs_loop_state := map (\<lambda>(k, i). (k, loop_state_of (scope_at s i))) (sc_active_loops s)\<rparr>)\<rparr>\<rparr>"

definition settle_status :: "sched_env \<Rightarrow> run_status \<Rightarrow> sched \<Rightarrow> sched" where
  "settle_status env st s = s\<lparr>sc_run := (sc_run s)\<lparr>gr_status := st, gr_finished_at := env_now env, gr_updated_at := env_now env\<rparr>\<rparr>"

definition finish_stopped :: "sched_env \<Rightarrow> sched \<Rightarrow> sched" where
  "finish_stopped env s =
     (let s = snapshot_loop_state (settle_status env RunStopped (rollback_undispatched s));
          s = persist (set_progress_error [] (sync_progress s));
          s = emit (EvProgress (''run stopped: '' @ sc_stop_reason s)) s
      in set_job env JobStopped RunStopped [] s)"

definition finish_graceful :: "sched_env \<Rightarrow> sched \<Rightarrow> sched" where
  "finish_graceful env s =
     (let st = (if sc_session_stop s then RunSessionStopped else RunStepStopped);
          label = (if sc_session_stop s then ''run session-stopped'' else ''run step-stopped'');
          s = snapshot_loop_state (settle_status env st (rollback_undispatched s));
          s = emit (EvProgress label) (persist (sync_progress s))
      in set_job env JobStopped st [] s)"

definition awaiting_session :: "sched \<Rightarrow> string" where
  "awaiting_session s =
     (case find (\<lambda>x. x \<noteq> [])
        (map (\<lambda>k. let st = instance_at s k in
                  if is_status st = InstAwaitingInput then first_non_empty [is_display_session st, is_session st] else [])
          (sort (akeys (sc_instances s)))) of
        Some x \<Rightarrow> x | None \<Rightarrow> [])"

definition finish_awaiting :: "sched_env \<Rightarrow> sched \<Rightarrow> sched" where
  "finish_awaiting env s =
     (let s = snapshot_loop_state (settle_status env RunAwaitingInput (rollback_undispatched s));
          s = persist (set_progress_error [] (sync_progress s));
          s = emit (EvProgress ''run awaiting user input'') s
      in set_job env JobStopped RunAwaitingInput (awaiting_session s) s)"

definition finish_for_context_error :: "sched_env \<Rightarrow> bool \<Rightarrow> string \<Rightarrow> sched \<Rightarrow> sched" where
  "finish_for_context_error env deadline msg s =
     (if deadline then
        (let s = interrupt_running env ''job timed out'' s;
             rerr = run_error (gr_id (sc_run s)) msg;
             s = s\<lparr>sc_run := (sc_run s)\<lparr>gr_last_error := Some rerr\<rparr>\<rparr>;
             s = set_progress_error msg (settle_status env RunTimedOut s);
             s = emit (EvError msg) (persist (snapshot_loop_state s))
         in set_job env JobFailed RunTimedOut [] s)
      else fail_run_sched env msg s)"

text \<open>
  While the loop shuts down it waits for every worker, taking session notifications and results as
  they come; a result only attaches its session to the job.
\<close>

datatype drain_step = DrainSession instance_key string | DrainResult nat node_outcome

fun drain :: "sched_env \<Rightarrow> drain_step list \<Rightarrow> sched \<Rightarrow> sched" where
  "drain env [] s = s"
| "drain env (DrainSession key session # ds) s = drain env ds (handle_session_opened env key session s)"
| "drain env (DrainResult i outcome # ds) s =
     drain env ds
       (if i < length (sc_in_flight s)
        then let item = sc_in_flight s ! i;
                 s = s\<lparr>sc_in_flight := remove_at i (sc_in_flight s)\<rparr>
             in if is_agent (n_type (ri_node item))
                then whitelist_agent_session env (first_non_empty [no_session outcome, ri_inflow item]) s else s
        else s)"

definition utf8_text :: "nat list \<Rightarrow> string" where
  "utf8_text bs = map char_of bs"

text \<open>The message "no end reached", in UTF-8.\<close>

definition no_end_message :: string where
  "no_end_message = utf8_text [0xE6, 0x97, 0xA0, 0xE7, 0xBB, 0x88, 0xE7, 0x82, 0xB9, 0xE5, 0x88, 0xB0, 0xE8, 0xBE, 0xBE]"

definition complete_run :: "sched_env \<Rightarrow> sched \<Rightarrow> sched" where
  "complete_run env s =
     (if \<not> sc_end_reached s then fail_run_sched env no_end_message s
      else let s = persist (sync_progress (settle_status env RunCompleted s));
               s = emit (EvProgress ''run completed'') s
           in set_job env JobCompleted RunCompleted [] s)"

definition exit_loop :: "sched \<Rightarrow> sched" where
  "exit_loop s = s\<lparr>sc_exited := True\<rparr>"

definition settle :: "sched_env \<Rightarrow> sched \<Rightarrow> sched" where
  "settle env s =
     exit_loop
       (if sc_step_stop s \<or> (sc_session_stop s \<and> sc_ready s \<noteq> []) then finish_graceful env s
        else if sc_awaiting s then finish_awaiting env s
        else complete_run env s)"

definition hard_stop :: "sched_env \<Rightarrow> string \<Rightarrow> drain_step list \<Rightarrow> sched \<Rightarrow> sched" where
  "hard_stop env reason ds s =
     (let s = s\<lparr>sc_stop_reason := or_default reason ''hard stopped''\<rparr>;
          s = interrupt_running env (sc_stop_reason s) s
      in exit_loop (finish_stopped env (drain env ds s)))"

definition failed_exit :: "sched_env \<Rightarrow> drain_step list \<Rightarrow> sched \<Rightarrow> sched" where
  "failed_exit env ds s =
     exit_loop (persist (drain env ds (interrupt_running env ''cancelled after graph run failure'' (snapshot_loop_state s))))"

definition context_done :: "sched_env \<Rightarrow> bool \<Rightarrow> string \<Rightarrow> drain_step list \<Rightarrow> sched \<Rightarrow> sched" where
  "context_done env deadline msg ds s = exit_loop (finish_for_context_error env deadline msg (drain env ds s))"

subsection \<open>The machine\<close>

type_synonym machine = "frame list \<times> sched"

datatype sched_op =
    OpCall
  | OpDispatch
  | OpResult nat "string + node_outcome" node_outcome
  | OpSessionOpened instance_key string
  | OpControl control_signal "drain_step list"
  | OpSettle
  | OpFailedExit "drain_step list"
  | OpContextDone bool string "drain_step list"

definition run_call :: "sched_env \<Rightarrow> machine \<Rightarrow> machine" where
  "run_call env m =
     (case m of
        ([], s) \<Rightarrow> ([], s)
      | (f # fs, s) \<Rightarrow> if sc_failed s then ([], s)
                      else (case exec_frame env f s of (s, new) \<Rightarrow> (new @ fs, s)))"

definition swap_frames :: "sched \<times> frame list \<Rightarrow> machine" where
  "swap_frames p = (snd p, fst p)"

text \<open>An exit that has to wait for the workers happens once they have all reported.\<close>

definition when_drained :: "sched \<Rightarrow> sched \<Rightarrow> machine" where
  "when_drained s s' = ([], if sc_in_flight s' = [] then s' else s)"

definition loop_step :: "sched_env \<Rightarrow> sched_op \<Rightarrow> sched \<Rightarrow> machine" where
  "loop_step env op s =
     (case op of
        OpCall \<Rightarrow> ([], s)
      | OpDispatch \<Rightarrow> ([], dispatch s)
      | OpResult i res partial \<Rightarrow>
          if i < length (sc_in_flight s)
          then swap_frames (handle_result env (sc_in_flight s ! i) res partial (s\<lparr>sc_in_flight := remove_at i (sc_in_flight s)\<rparr>))
          else ([], s)
      | OpSessionOpened key session \<Rightarrow> ([], handle_session_opened env key session s)
      | OpControl sig ds \<Rightarrow>
          (case sig of
             CtrlHardStop reason \<Rightarrow> when_drained s (hard_stop env reason ds s)
           | CtrlCancelStop reason \<Rightarrow> swap_frames (cancel_graceful_signal env reason s)
           | _ \<Rightarrow> swap_frames (apply_graceful_signal env sig s))
      | OpSettle \<Rightarrow> ([], if sc_in_flight s = [] \<and> \<not> has_dispatchable s then settle env s else s)
      | OpFailedExit ds \<Rightarrow> ([], s)
      | OpContextDone deadline msg ds \<Rightarrow> when_drained s (context_done env deadline msg ds s))"

definition exec_op :: "sched_env \<times> sched_op \<Rightarrow> machine \<Rightarrow> machine" where
  "exec_op eop m =
     (case eop of (env, op) \<Rightarrow> case m of (fs, s) \<Rightarrow>
        if sc_exited s then m
        else if fs \<noteq> [] then (if op = OpCall then run_call env m else m)
        else if sc_failed s then
          (case op of OpFailedExit ds \<Rightarrow> when_drained s (failed_exit env ds s) | _ \<Rightarrow> m)
        else loop_step env op s)"

subsection \<open>Starting a run\<close>

definition seed_fresh :: "sched \<Rightarrow> frame list" where
  "seed_fresh s =
     (let vs = gc_variables (sc_cfg s);
          contrib = (\<lambda>n. \<lparr> us_node = n_id n, us_variables = vs, us_writers = initial_variable_writers vs,
                           us_last_msg = [], us_session = [] \<rparr>)
      in concat (map (\<lambda>n. map (\<lambda>e. FResolve 0 e True (contrib n)) (outs_of s (n_id n)))
           (filter (\<lambda>n. n_type n = NStart \<and> n_parent n = []) (gc_nodes (sc_cfg s)))))"

definition new_scheduler :: "graph_run \<Rightarrow> graph_config \<Rightarrow> sched" where
  "new_scheduler run cfg = index \<lparr> sc_run = run, sc_cfg = cfg, sc_nodes = [], sc_out = [], sc_in_degree = [],
     sc_loop_entry = [], sc_in_remaining = [], sc_any_active = [], sc_contribs = [], sc_writers_by_key = [],
     sc_instances = [], sc_edges = [], sc_vars_by_key = [], sc_scopes = (\<lambda>i. zero_scope), sc_next_scope = 1,
     sc_ready = [], sc_in_flight = [], sc_end_reached = False, sc_failed = False, sc_stop_scheduling = False,
     sc_awaiting = False, sc_step_stop = False, sc_session_stop = False, sc_stop_reason = [], sc_batch_seq = 0,
     sc_cur_batch = None, sc_active_loops = [], sc_end_hook_fired = [], sc_exited = False, sc_disk = None,
     sc_job = None, sc_whitelist = [], sc_events = [] \<rparr>"

text \<open>The configuration of the run's current version, else the one it was created with.\<close>

definition effective_config :: "graph_run \<Rightarrow> graph_config" where
  "effective_config run =
     (case find (\<lambda>v. rv_version v = gr_current_version run) (gr_versions run) of
        Some v \<Rightarrow> rv_config v | None \<Rightarrow> gr_base_config run)"

definition start_run :: "sched_env \<Rightarrow> graph_run \<Rightarrow> machine" where
  "start_run env run =
     (let s = new_scheduler run (effective_config run);
          s = s\<lparr>sc_run := (sc_run s)\<lparr>gr_status := RunRunning, gr_started_at := env_now env, gr_finished_at := 0,
                 gr_updated_at := env_now env\<rparr>\<rparr>;
          s = set_job env JobRunning RunRunning [] s
      in (seed_fresh s, s))"

end
