(* ===== verification/GraphSchedInv.thy ===== *)
theory GraphSchedInv
  imports GraphControl
begin

section \<open>Invariants of the scheduler\<close>

text \<open>
  What holds in every state the scheduler's machine reaches, whatever the workers answer and in
  whatever order results and control signals arrive: the progress counters are the numbers of
  instances with each status, the instance limit and the concurrency limit hold, a loop never runs
  more rounds than its bound, a failed run is recorded as failed, and a loop that has ended leaves
  nothing in flight and has persisted its last state.
\<close>

subsection \<open>Primitive updates and the fields they keep\<close>

lemma set_job_simps [simp]:
  "sc_run (set_job env j r x s) = sc_run s" "sc_cfg (set_job env j r x s) = sc_cfg s"
  "sc_instances (set_job env j r x s) = sc_instances s" "sc_failed (set_job env j r x s) = sc_failed s"
  "sc_stop_scheduling (set_job env j r x s) = sc_stop_scheduling s" "sc_ready (set_job env j r x s) = sc_ready s"
  "sc_in_flight (set_job env j r x s) = sc_in_flight s" "sc_scopes (set_job env j r x s) = sc_scopes s"
  "sc_exited (set_job env j r x s) = sc_exited s" "sc_disk (set_job env j r x s) = sc_disk s"
  "sc_edges (set_job env j r x s) = sc_edges s" "sc_vars_by_key (set_job env j r x s) = sc_vars_by_key s"
  by (simp_all add: set_job_def)

lemma whitelist_simps [simp]:
  "sc_run (whitelist_agent_session env x s) = sc_run s" "sc_cfg (whitelist_agent_session env x s) = sc_cfg s"
  "sc_instances (whitelist_agent_session env x s) = sc_instances s" "sc_failed (whitelist_agent_session env x s) = sc_failed s"
  "sc_stop_scheduling (whitelist_agent_session env x s) = sc_stop_scheduling s" "sc_ready (whitelist_agent_session env x s) = sc_ready s"
  "sc_in_flight (whitelist_agent_session env x s) = sc_in_flight s" "sc_scopes (whitelist_agent_session env x s) = sc_scopes s"
  "sc_exited (whitelist_agent_session env x s) = sc_exited s" "sc_disk (whitelist_agent_session env x s) = sc_disk s"
  "sc_edges (whitelist_agent_session env x s) = sc_edges s" "sc_vars_by_key (whitelist_agent_session env x s) = sc_vars_by_key s"
  by (simp_all add: whitelist_agent_session_def)

lemma lineage_simps [simp]:
  "sc_cfg (record_session_lineage k n a b s) = sc_cfg s" "sc_instances (record_session_lineage k n a b s) = sc_instances s"
  "sc_failed (record_session_lineage k n a b s) = sc_failed s" "sc_ready (record_session_lineage k n a b s) = sc_ready s"
  "sc_stop_scheduling (record_session_lineage k n a b s) = sc_stop_scheduling s"
  "sc_in_flight (record_session_lineage k n a b s) = sc_in_flight s" "sc_scopes (record_session_lineage k n a b s) = sc_scopes s"
  "sc_exited (record_session_lineage k n a b s) = sc_exited s"
  "gr_progress (sc_run (record_session_lineage k n a b s)) = gr_progress (sc_run s)"
  "gr_status (sc_run (record_session_lineage k n a b s)) = gr_status (sc_run s)"
  by (simp_all add: record_session_lineage_def Let_def)

lemma emit_fold_simps [simp]:
  "sc_run (fold (\<lambda>(a, b). emit (f a b)) xs s) = sc_run s" "sc_cfg (fold (\<lambda>(a, b). emit (f a b)) xs s) = sc_cfg s"
  "sc_instances (fold (\<lambda>(a, b). emit (f a b)) xs s) = sc_instances s" "sc_failed (fold (\<lambda>(a, b). emit (f a b)) xs s) = sc_failed s"
  "sc_stop_scheduling (fold (\<lambda>(a, b). emit (f a b)) xs s) = sc_stop_scheduling s" "sc_ready (fold (\<lambda>(a, b). emit (f a b)) xs s) = sc_ready s"
  "sc_in_flight (fold (\<lambda>(a, b). emit (f a b)) xs s) = sc_in_flight s" "sc_scopes (fold (\<lambda>(a, b). emit (f a b)) xs s) = sc_scopes s"
  "sc_exited (fold (\<lambda>(a, b). emit (f a b)) xs s) = sc_exited s"
  by (induction xs arbitrary: s) (auto simp: emit_def)

lemmas prim_defs = emit_def persist_def sync_progress_def set_progress_error_def denom_adjust_def
  set_scope_def add_live_def put_instance_def put_vars_def mark_failed_def settle_status_def set_status_def
  snapshot_loop_state_def clear_frozen_batch_def freeze_current_batch_def exit_loop_def fire_hook_def

subsection \<open>The invariants\<close>

definition counters_match :: "graph_progress option \<Rightarrow> (string \<times> instance_state) list \<Rightarrow> bool" where
  "counters_match po m =
     (case po of None \<Rightarrow> False
      | Some p \<Rightarrow> gp_completed p = int (acount (has_status InstSucceeded) m)
          \<and> gp_failed p = int (acount (has_status InstFailed) m)
          \<and> gp_skipped p = int (acount (has_status InstSkipped) m)
          \<and> gp_interrupted p = int (acount (has_status InstInterrupted) m)
          \<and> gp_running p = int (acount (has_status InstRunning) m))"

definition within_limit :: "sched \<Rightarrow> bool" where
  "within_limit s \<longleftrightarrow> int (length (sc_instances s)) \<le> effective_instance_limit (gc_run_config (sc_cfg s))"

definition counts_ok :: "sched \<Rightarrow> bool" where
  "counts_ok s \<longleftrightarrow> counters_match (gr_progress (sc_run s)) (sc_instances s) \<and> distinct (akeys (sc_instances s))
     \<and> (\<not> sc_failed s \<longrightarrow> within_limit s) \<and> (sc_failed s \<longrightarrow> gr_status (sc_run s) = RunFailed)"

definition loop_in_bounds :: "graph_run_config \<Rightarrow> scope_run \<Rightarrow> bool" where
  "loop_in_bounds rc sr \<longleftrightarrow> sr_container sr = [] \<or>
     (0 \<le> sr_iter_index sr \<and> (sr_rounds_run sr = 0 \<or> sr_rounds_run sr = sr_iter_index sr + 1)
      \<and> sr_rounds_run sr \<le> loop_max_rounds rc (sr_loop_node sr)
      \<and> sr_max_iters sr = effective_loop_max_iters rc (sr_loop_node sr))"

definition loops_ok :: "sched \<Rightarrow> bool" where
  "loops_ok s \<longleftrightarrow> (\<forall>i. loop_in_bounds (gc_run_config (sc_cfg s)) (sc_scopes s i))"

definition pool_ok :: "sched \<Rightarrow> bool" where
  "pool_ok s \<longleftrightarrow> int (length (sc_in_flight s)) \<le> concurrency_limit (rc_concurrency_limit (gc_run_config (sc_cfg s)))
     \<and> (sc_stop_scheduling s \<longrightarrow> sc_ready s = [])"

definition no_instance_running :: "sched \<Rightarrow> bool" where
  "no_instance_running s \<longleftrightarrow> list_all (\<lambda>(k, st). is_status st \<noteq> InstRunning) (sc_instances s)"

definition exit_ok :: "sched \<Rightarrow> bool" where
  "exit_ok s \<longleftrightarrow> sc_exited s \<longrightarrow>
     sc_in_flight s = [] \<and> sc_disk s = Some (sc_run s, sc_instances s, sc_edges s, sc_vars_by_key s)
     \<and> gr_status (sc_run s) \<in> {RunCompleted, RunFailed, RunStopped, RunStepStopped, RunSessionStopped, RunAwaitingInput, RunTimedOut}
     \<and> (gr_status (sc_run s) \<in> {RunStopped, RunTimedOut} \<longrightarrow> no_instance_running s)"

definition sched_ok :: "sched \<Rightarrow> bool" where
  "sched_ok s \<longleftrightarrow> counts_ok s \<and> loops_ok s \<and> pool_ok s \<and> exit_ok s"

lemma counters_match_update [simp]: "counters_match (gr_progress (update_run_progress run m)) m"
  by (simp add: counters_match_def update_run_progress_eq)

lemma counters_match_error [simp]:
  "counters_match (map_option (\<lambda>p. p\<lparr>gp_last_error := e\<rparr>) po) m = counters_match po m"
  by (cases po) (simp_all add: counters_match_def)

lemma counters_match_adjust [simp]: "counters_match (adjust_denom_total d po) m = counters_match po m"
  by (cases po) (simp_all add: counters_match_def adjust_denom_total_def Let_def)

lemma update_run_progress_status [simp]: "gr_status (update_run_progress run m) = gr_status run"
  by (simp add: update_run_progress_eq)

subsection \<open>Failing\<close>

lemma fail_run_sched_ok:
  "distinct (akeys (sc_instances s)) \<Longrightarrow> counts_ok (fail_run_sched env msg s)"
  by (simp add: counts_ok_def fail_run_sched_def Let_def prim_defs)

lemma fail_run_sched_simps [simp]:
  "sc_failed (fail_run_sched env msg s)" "sc_cfg (fail_run_sched env msg s) = sc_cfg s"
  "sc_scopes (fail_run_sched env msg s) = sc_scopes s" "sc_ready (fail_run_sched env msg s) = sc_ready s"
  "sc_in_flight (fail_run_sched env msg s) = sc_in_flight s" "sc_exited (fail_run_sched env msg s) = sc_exited s"
  "sc_stop_scheduling (fail_run_sched env msg s) = sc_stop_scheduling s"
  "gr_status (sc_run (fail_run_sched env msg s)) = RunFailed"
  "sc_disk (fail_run_sched env msg s) = Some (sc_run (fail_run_sched env msg s), sc_instances (fail_run_sched env msg s),
     sc_edges (fail_run_sched env msg s), sc_vars_by_key (fail_run_sched env msg s))"
  by (simp_all add: fail_run_sched_def Let_def prim_defs)

lemma check_run_limits_over:
  "check_run_limits env s = (True, s') \<Longrightarrow> \<exists>msg. s' = fail_run_sched env msg s"
  by (auto simp: check_run_limits_def split: option.splits)

lemma check_run_limits_within: "check_run_limits env s = (False, s') \<Longrightarrow> s' = s \<and> within_limit s"
  by (auto simp: check_run_limits_def run_limit_error_def within_limit_def Let_def split: option.splits if_splits)

subsection \<open>Accounting, handler by handler\<close>

text \<open>The accounting part: the states from which a handler persists and goes on.\<close>

definition counted :: "sched \<Rightarrow> bool" where
  "counted s \<longleftrightarrow> counters_match (gr_progress (sc_run s)) (sc_instances s) \<and> distinct (akeys (sc_instances s)) \<and> \<not> sc_failed s"

lemma counted_of: "counts_ok s \<Longrightarrow> \<not> sc_failed s \<Longrightarrow> counted s"
  by (simp add: counts_ok_def counted_def)

lemma unless_over_counts:
  assumes "counted s" "\<And>t. counts_ok t \<Longrightarrow> \<not> sc_failed t \<Longrightarrow> t = persist s \<Longrightarrow> counts_ok (fst (k t))"
  shows "counts_ok (fst (unless_over env k s))"
proof (cases "check_run_limits env s")
  case (Pair over s')
  show ?thesis
  proof (cases over)
    case True
    then show ?thesis
      using Pair check_run_limits_over [of env s s'] assms(1) fail_run_sched_ok [of s env]
      by (auto simp: unless_over_def counted_def)
  next
    case False
    then have "counts_ok (persist s')"
      using Pair check_run_limits_within [of env s s'] assms(1)
      by (auto simp: counted_def counts_ok_def persist_def within_limit_def)
    moreover have "\<not> sc_failed (persist s')"
      using False Pair check_run_limits_within [of env s s'] assms(1) by (auto simp: counted_def persist_def)
    moreover have "s' = s" using False Pair check_run_limits_within [of env s s'] by simp
    ultimately show ?thesis using False Pair assms(2) by (simp add: unless_over_def)
  qed
qed

text \<open>Updates that touch nothing the accounting reads.\<close>

definition same_counts :: "sched \<Rightarrow> sched \<Rightarrow> bool" where
  "same_counts s t \<longleftrightarrow> sc_instances t = sc_instances s \<and> gr_progress (sc_run t) = gr_progress (sc_run s)
     \<and> gr_status (sc_run t) = gr_status (sc_run s) \<and> sc_failed t = sc_failed s \<and> sc_cfg t = sc_cfg s"

lemma same_countsD: "counts_ok s \<Longrightarrow> same_counts s t \<Longrightarrow> counts_ok t"
  by (simp add: same_counts_def counts_ok_def within_limit_def)

lemma same_counted: "counted s \<Longrightarrow> same_counts s t \<Longrightarrow> counted t"
  by (simp add: same_counts_def counted_def)

lemma start_iteration_counts:
  assumes "counts_ok s"
  shows "counts_ok (fst (start_iteration env i idx s))"
proof (cases "aget (sc_loop_entry s) (sr_container (scope_at s i))")
  case None
  with assms show ?thesis
    by (simp add: start_iteration_def Let_def prim_defs fail_run_sched_ok counts_ok_def [of s])
next
  case (Some entry)
  then have "same_counts s (fst (start_iteration env i idx s))"
    by (simp add: start_iteration_def Let_def prim_defs same_counts_def)
  with assms show ?thesis by (rule same_countsD)
qed

lemma close_loop_instance_counted: "counted s \<Longrightarrow> counted (close_loop_instance env loop s)"
  by (simp add: close_loop_instance_def Let_def prim_defs counted_def)

lemma finish_loop_counts: "counted s \<Longrightarrow> counts_ok (fst (finish_loop env i s))"
  unfolding finish_loop_def Let_def
  by (rule unless_over_counts [OF close_loop_instance_counted])
    (auto simp: prim_defs same_counts_def elim!: same_countsD)

lemma fail_loop_node_counts: "distinct (akeys (sc_instances s)) \<Longrightarrow> counts_ok (fail_loop_node env i msg s)"
  by (simp add: fail_loop_node_def Let_def prim_defs counts_ok_def)

lemma close_round_same: "same_counts s (close_round i s)"
  by (simp add: close_round_def Let_def prim_defs same_counts_def split: prod.splits)

lemma finish_iteration_counts:
  assumes "counts_ok s" "\<not> sc_failed s"
  shows "counts_ok (fst (finish_iteration env i s))"
proof -
  have ok: "counts_ok (close_round i s)" "counted (close_round i s)"
    using same_countsD [OF assms(1) close_round_same] same_counted [OF counted_of [OF assms] close_round_same] by blast+
  then show ?thesis
    by (auto simp: finish_iteration_def Let_def counted_def
        intro!: finish_loop_counts start_iteration_counts fail_run_sched_ok fail_loop_node_counts
        split: loop_mode.splits sum.splits)
qed

lemma on_scope_quiesced_counts: "counts_ok s \<Longrightarrow> counts_ok (fst (on_scope_quiesced env i s))"
  by (simp add: on_scope_quiesced_def finish_iteration_counts)

lemma start_loop_counts: "counted s \<Longrightarrow> counts_ok (fst (start_loop env i node key visible writers inflow s))"
  unfolding start_loop_def Let_def
proof (rule unless_over_counts)
  fix t assume "counts_ok t" "\<not> sc_failed t"
  let ?t = "open_scope i node key visible writers inflow (add_live i 1 (emit (EvStarted (instance_key_string key)) t))"
  have "same_counts t ?t" by (simp add: open_scope_def Let_def prim_defs same_counts_def)
  then have "counts_ok ?t" "counted ?t"
    using \<open>counts_ok t\<close> \<open>\<not> sc_failed t\<close> same_countsD counted_of same_counted by blast+
  then show "counts_ok (fst (if nc_loop_mode (n_config node) = LoopFixed \<and> nc_fixed_count (n_config node) \<le> 0
      then finish_loop env (sc_next_scope t) ?t else start_iteration env (sc_next_scope t) 0 ?t))"
    by (simp add: finish_loop_counts start_iteration_counts)
qed (simp add: prim_defs counted_def)

lemma emit_counts: "counts_ok t \<Longrightarrow> counts_ok (emit ev t)"
  by (erule same_countsD) (simp add: same_counts_def emit_def)

lemma decide_if_else_counts:
  assumes "counts_ok s" "\<not> sc_failed s"
  shows "counts_ok (fst (decide_if_else env i node key visible writers inflow s))"
proof (cases "evaluate_condition (env_lower env) (nc_condition (n_config node))
    \<lparr> ci_variables = with_loop_vars env visible (scope_at s i), ci_disabled = gc_disabled_vars (sc_cfg s) \<rparr>")
  case (Inl err)
  with assms show ?thesis
    by (simp add: decide_if_else_def Let_def prim_defs) (simp add: counts_ok_def)
next
  case (Inr result)
  have "counted (sync_progress (put_vars k visible writers (put_instance k st s)))" for k st
    using counted_of [OF assms] by (simp add: counted_def prim_defs)
  with Inr show ?thesis
    by (auto simp: decide_if_else_def Let_def intro!: unless_over_counts emit_counts)
qed

lemma enqueue_counts:
  assumes "counts_ok s" "\<not> sc_failed s"
  shows "counts_ok (fst (enqueue env i node key visible writers inflow s))"
proof -
  have "counted (sync_progress (put_vars k visible writers (put_instance k st s)))" for k st
    using counted_of [OF assms] by (simp add: counted_def prim_defs)
  moreover have "counts_ok t \<Longrightarrow> counts_ok ((add_live i 1 (emit ev t))\<lparr>sc_ready := r\<rparr>)" for t ev r
    by (erule same_countsD) (simp add: same_counts_def prim_defs)
  ultimately show ?thesis
    using assms by (auto simp: enqueue_def Let_def intro!: unless_over_counts)
qed

lemma skip_instance_counted: "counted s \<Longrightarrow> counted (skip_instance env node key s)"
  by (simp add: skip_instance_def Let_def prim_defs counted_def)

lemma prune_node_counts: "counts_ok s \<Longrightarrow> \<not> sc_failed s \<Longrightarrow> counts_ok (fst (prune_node env i node key s))"
  unfolding prune_node_def Let_def
  by (auto intro!: unless_over_counts skip_instance_counted counted_of emit_counts)

lemma reach_main_end_same: "same_counts s (reach_main_end env node k s)"
  by (simp add: reach_main_end_def Let_def prim_defs same_counts_def split: option.splits)

lemma decide_counts:
  assumes "counts_ok s" "\<not> sc_failed s"
  shows "counts_ok (fst (decide env i node key visible writers inflow s))"
proof -
  have "counts_ok (reach_main_end env node k s)" for k using assms(1) reach_main_end_same by (rule same_countsD)
  moreover have "counts_ok (set_scope j sr s)" for j sr
    using assms(1) by (rule same_countsD) (simp add: same_counts_def set_scope_def)
  ultimately show ?thesis
    using assms counted_of [OF assms] prune_node_counts [OF assms] decide_if_else_counts [OF assms] enqueue_counts [OF assms]
      start_loop_counts [of s] fail_run_sched_ok [of s]
    by (simp add: decide_def Let_def counted_def split: option.split node_type.split)
qed

lemma record_edge_same: "same_counts s (record_edge env i e active contrib s)"
  by (simp add: record_edge_def Let_def emit_def same_counts_def)

lemma resolve_edge_counts:
  assumes "counts_ok s" "\<not> sc_failed s"
  shows "counts_ok (fst (resolve_edge env i e active contrib s))"
proof -
  have "counts_ok (record_edge env i e active contrib s)" "\<not> sc_failed (record_edge env i e active contrib s)"
    using same_countsD [OF assms(1) record_edge_same] record_edge_same [of s env i e active contrib] assms(2)
    by (auto simp: same_counts_def)
  then show ?thesis by (simp add: resolve_edge_def Let_def case_prod_beta decide_counts)
qed

lemma exec_frame_counts: "counts_ok s \<Longrightarrow> \<not> sc_failed s \<Longrightarrow> counts_ok (fst (exec_frame env f s))"
  by (cases f) (auto simp: exec_frame_def decide_counts resolve_edge_counts on_scope_quiesced_counts prim_defs same_counts_def elim!: same_countsD)

subsection \<open>Completions and control\<close>

lemma handle_session_opened_counts:
  assumes "counts_ok s"
  shows "counts_ok (handle_session_opened env key session s)"
proof (cases "aget (sc_instances s) (instance_key_string key)")
  case None
  with assms show ?thesis by (simp add: handle_session_opened_def Let_def counts_ok_def within_limit_def)
next
  case (Some st)
  then have "length (aput (instance_key_string key) v (sc_instances s)) = length (sc_instances s)" for v
    by (simp add: aput_known_length)
  with Some assms show ?thesis
    by (auto simp: handle_session_opened_def Let_def counts_ok_def within_limit_def prim_defs)
qed

lemma fail_instance_counts:
  "distinct (akeys (sc_instances s)) \<Longrightarrow> counts_ok (fail_instance env st key node msg fin inflow outcome s)"
  by (simp add: fail_instance_def Let_def prim_defs counts_ok_def)

lemma complete_instance_counted: "counted s \<Longrightarrow> counted (snd (complete_instance env item outcome st s))"
  by (simp add: complete_instance_def Let_def prim_defs counted_def)

lemma announce_same: "same_counts s (announce_completion node k produced s)"
  by (simp add: announce_completion_def Let_def prim_defs same_counts_def)


lemma after_completion_counts:
  assumes "counts_ok s" "\<not> sc_failed s" "aget (sc_instances s) (instance_key_string (ri_key item)) \<noteq> None"
  shows "counts_ok (fst (after_completion env item outcome st s))"
  using assms aput_known_length [OF assms(3)]
  by (auto simp: after_completion_def Let_def prim_defs counts_ok_def within_limit_def)

lemma handle_result_counts:
  assumes "counts_ok s" "\<not> sc_failed s"
  shows "counts_ok (fst (handle_result env item res partial s))"
proof (cases res)
  case (Inl msg)
  with assms show ?thesis by (simp add: handle_result_def Let_def fail_instance_counts counts_ok_def [of s])
next
  case (Inr outcome)
  let ?k = "instance_key_string (ri_key item)"
  let ?st = "(instance_at s ?k)\<lparr>is_finished_at := env_now env, is_duration_ms := duration (env_now env) (is_started_at (instance_at s ?k))\<rparr>"
  obtain st' s' where c: "complete_instance env item outcome ?st s = (st', s')" by fastforce
  have counted: "counted s'" using complete_instance_counted [OF counted_of [OF assms], of env item outcome ?st] c by simp
  have known: "aget (sc_instances s') ?k \<noteq> None"
    using c by (auto simp: complete_instance_def Let_def prim_defs)
  have "counts_ok (fst (after_completion env item outcome st' (announce_completion (ri_node item) ?k produced t)))"
    if "counts_ok t" "\<not> sc_failed t" "t = persist s'" for t produced
    using that known announce_same [of t "ri_node item" ?k produced]
    by (intro after_completion_counts) (auto simp: same_counts_def persist_def intro: same_countsD [OF that(1)])
  note go_on = this
  show ?thesis
    unfolding handle_result_def Let_def Inr sum.case c prod.case
    by (rule unless_over_counts [OF counted]) (rule go_on)
qed

lemma apply_graceful_counts: "counts_ok s \<Longrightarrow> \<not> sc_failed s \<Longrightarrow> counts_ok (fst (apply_graceful_signal env sig s))"
  by (cases sig) (auto simp: apply_graceful_signal_def Let_def prim_defs counts_ok_def within_limit_def)

lemma cancel_graceful_counts: "counts_ok s \<Longrightarrow> \<not> sc_failed s \<Longrightarrow> counts_ok (fst (cancel_graceful_signal env reason s))"
  by (auto simp: cancel_graceful_signal_def Let_def prim_defs counts_ok_def within_limit_def)

lemma interrupt_running_counts: "counts_ok s \<Longrightarrow> counts_ok (interrupt_running env reason s)"
proof -
  have "akeys (map (\<lambda>(k, st). (k, interrupt_instance now reason st)) m) = akeys m" for now and m :: "(string \<times> instance_state) list"
    by (simp add: akeys_def case_prod_beta comp_def)
  then show "counts_ok s \<Longrightarrow> ?thesis"
    by (simp add: interrupt_running_def Let_def sync_progress_def counts_ok_def within_limit_def)
qed

subsection \<open>Rounds\<close>

lemma loops_ok_cong: "sc_scopes t = sc_scopes s \<Longrightarrow> sc_cfg t = sc_cfg s \<Longrightarrow> loops_ok t = loops_ok s"
  by (simp add: loops_ok_def)

text \<open>Replacing a scope by one with the same rounds and bounds.\<close>

lemma loops_ok_set:
  "loops_ok s \<Longrightarrow> loop_in_bounds (gc_run_config (sc_cfg s)) sr \<Longrightarrow> loops_ok (set_scope i sr s)"
  by (simp add: loops_ok_def set_scope_def)

lemma loop_in_bounds_keep:
  "loop_in_bounds rc sr \<Longrightarrow> sr_container sr' = sr_container sr \<Longrightarrow> sr_rounds_run sr' = sr_rounds_run sr \<Longrightarrow>
   sr_iter_index sr' = sr_iter_index sr \<Longrightarrow>
   sr_loop_node sr' = sr_loop_node sr \<Longrightarrow> sr_max_iters sr' = sr_max_iters sr \<Longrightarrow> loop_in_bounds rc sr'"
  by (simp add: loop_in_bounds_def)

lemma loops_okD: "loops_ok s \<Longrightarrow> loop_in_bounds (gc_run_config (sc_cfg s)) (sc_scopes s i)"
  by (simp add: loops_ok_def)

lemma unless_over_loops:
  assumes "loops_ok s" "\<And>t. sc_scopes t = sc_scopes s \<Longrightarrow> sc_cfg t = sc_cfg s \<Longrightarrow> loops_ok t \<Longrightarrow> loops_ok (fst (k t))"
  shows "loops_ok (fst (unless_over env k s))"
proof (cases "check_run_limits env s")
  case (Pair over s')
  then have s': "sc_scopes s' = sc_scopes s" "sc_cfg s' = sc_cfg s"
    using check_run_limits_over [of env s s'] check_run_limits_within [of env s s'] by (cases over; auto)+
  then have "loops_ok s'" using assms(1) loops_ok_cong by blast
  moreover have "loops_ok (persist s')" using calculation by (simp add: persist_def loops_ok_def)
  ultimately show ?thesis using Pair s' assms(2) [of "persist s'"] by (simp add: unless_over_def persist_def)
qed

lemma emit_loops [simp]: "loops_ok (emit ev s) = loops_ok s"
  by (simp add: loops_ok_def emit_def)

lemma add_live_loops: "loops_ok s \<Longrightarrow> loops_ok (add_live i d s)"
  unfolding add_live_def by (rule loops_ok_set) (auto intro: loop_in_bounds_keep dest: loops_okD)

lemma fail_run_sched_loops [simp]: "loops_ok (fail_run_sched env msg s) = loops_ok s"
  by (rule loops_ok_cong) simp_all

lemma start_iteration_loops:
  assumes "loops_ok s"
    and "0 \<le> idx" "idx + 1 \<le> loop_max_rounds (gc_run_config (sc_cfg s)) (sr_loop_node (scope_at s i))"
    and "sr_max_iters (scope_at s i) = effective_loop_max_iters (gc_run_config (sc_cfg s)) (sr_loop_node (scope_at s i))"
  shows "loops_ok (fst (start_iteration env i idx s))"
  using assms
  by (simp add: start_iteration_def Let_def split: option.split)
    (simp add: loops_ok_def set_scope_def emit_def loop_in_bounds_def)

lemma close_loop_instance_keeps:
  "sc_scopes (close_loop_instance env loop s) = sc_scopes s" "sc_cfg (close_loop_instance env loop s) = sc_cfg s"
  by (simp_all add: close_loop_instance_def Let_def prim_defs)

lemma finish_loop_loops: "loops_ok s \<Longrightarrow> loops_ok (fst (finish_loop env i s))"
  unfolding finish_loop_def Let_def
  by (rule unless_over_loops) (simp_all add: loops_ok_def close_loop_instance_keeps emit_def)

lemma fail_loop_node_loops: "loops_ok (fail_loop_node env i msg s) = loops_ok s"
  by (rule loops_ok_cong) (simp_all add: fail_loop_node_def Let_def prim_defs)

lemma close_round_loops:
  assumes "loops_ok s"
  shows "loops_ok (close_round i s)"
  unfolding close_round_def Let_def case_prod_beta
  by (rule loops_ok_set [OF assms]) (rule loop_in_bounds_keep [OF loops_okD [OF assms, of i]], simp_all)

lemma close_round_scope:
  "sr_container (scope_at (close_round i s) i) = sr_container (scope_at s i)
    \<and> sr_rounds_run (scope_at (close_round i s) i) = sr_rounds_run (scope_at s i)
    \<and> sr_iter_index (scope_at (close_round i s) i) = sr_iter_index (scope_at s i)
    \<and> sr_loop_node (scope_at (close_round i s) i) = sr_loop_node (scope_at s i)
    \<and> sr_max_iters (scope_at (close_round i s) i) = sr_max_iters (scope_at s i)
    \<and> sc_cfg (close_round i s) = sc_cfg s"
  by (simp add: close_round_def Let_def case_prod_beta set_scope_def)

lemma finish_iteration_loops:
  assumes "loops_ok s" "sr_container (scope_at s i) \<noteq> []"
  shows "loops_ok (fst (finish_iteration env i s))"
proof -
  note ok = close_round_loops [OF assms(1), of i]
  have b: "0 \<le> sr_iter_index (scope_at (close_round i s) i)"
    "sr_max_iters (scope_at (close_round i s) i)
       = effective_loop_max_iters (gc_run_config (sc_cfg (close_round i s))) (sr_loop_node (scope_at (close_round i s) i))"
    using loops_okD [OF assms(1), of i] assms(2) by (simp_all add: close_round_scope loop_in_bounds_def)
  show ?thesis
    using ok b unfolding finish_iteration_def Let_def
    by (auto intro!: finish_loop_loops start_iteration_loops simp: fail_loop_node_loops loop_max_rounds_def
        split: loop_mode.splits sum.splits)
qed

lemma on_scope_quiesced_loops: "loops_ok s \<Longrightarrow> loops_ok (fst (on_scope_quiesced env i s))"
  by (simp add: on_scope_quiesced_def finish_iteration_loops)

lemma open_scope_loops: "loops_ok s \<Longrightarrow> loops_ok (open_scope i node key visible writers inflow s)"
  by (auto simp: open_scope_def Let_def loops_ok_def set_scope_def loop_in_bounds_def zero_scope_def loop_max_rounds_nonneg)

lemma open_scope_scope:
  "scope_at (open_scope i node key visible writers inflow s) (sc_next_scope s)
     = zero_scope\<lparr>sr_container := n_id node, sr_parent := i, sr_loop_node := node, sr_loop_key := key,
         sr_max_iters := effective_loop_max_iters (gc_run_config (sc_cfg s)) node,
         sr_accum := visible, sr_round_writers := writers, sr_inflow := inflow\<rparr>"
  "sc_cfg (open_scope i node key visible writers inflow s) = sc_cfg s"
  by (simp_all add: open_scope_def Let_def set_scope_def)

lemma start_loop_loops:
  assumes "loops_ok s"
  shows "loops_ok (fst (start_loop env i node key visible writers inflow s))"
  unfolding start_loop_def Let_def
proof (rule unless_over_loops)
  show "loops_ok (sync_progress (put_instance k st s\<lparr>sc_writers_by_key := w\<rparr>))" for k st w
    using assms by (simp add: loops_ok_def prim_defs)
  fix t assume "loops_ok t"
  let ?t = "open_scope i node key visible writers inflow (add_live i 1 (emit (EvStarted (instance_key_string key)) t))"
  have "loops_ok ?t" using \<open>loops_ok t\<close> by (simp add: open_scope_loops add_live_loops)
  moreover have "1 \<le> loop_max_rounds rc node" if "\<not> (nc_loop_mode (n_config node) = LoopFixed \<and> nc_fixed_count (n_config node) \<le> 0)" for rc
    using that by (auto simp: loop_max_rounds_def effective_loop_max_iters_def)
  ultimately show "loops_ok (fst (if nc_loop_mode (n_config node) = LoopFixed \<and> nc_fixed_count (n_config node) \<le> 0
      then finish_loop env (sc_next_scope t) ?t else start_iteration env (sc_next_scope t) 0 ?t))"
    using open_scope_scope(1) [of i node key visible writers inflow "add_live i 1 (emit (EvStarted (instance_key_string key)) t)"]
    by (auto simp: add_live_def set_scope_def emit_def open_scope_scope(2) intro!: finish_loop_loops start_iteration_loops)
qed

lemma quiet_loops:
  "loops_ok s \<Longrightarrow> loops_ok (sync_progress (put_vars k vs ws (put_instance k' st s)))"
  "loops_ok s \<Longrightarrow> loops_ok (skip_instance env node key s)"
  "loops_ok s \<Longrightarrow> loops_ok (reach_main_end env node k s)"
  "loops_ok s \<Longrightarrow> loops_ok (snd (complete_instance env item outcome st s))"
  "loops_ok s \<Longrightarrow> loops_ok (announce_completion node k vs s)"
  "loops_ok s \<Longrightarrow> loops_ok (fail_instance env st key node msg fin inflow outcome s)"
  "loops_ok s \<Longrightarrow> loops_ok (handle_session_opened env key session s)"
  by (simp_all add: loops_ok_def prim_defs skip_instance_def reach_main_end_def complete_instance_def
      announce_completion_def fail_instance_def handle_session_opened_def Let_def split: option.splits)

lemma decide_if_else_loops: "loops_ok s \<Longrightarrow> loops_ok (fst (decide_if_else env i node key visible writers inflow s))"
  unfolding decide_if_else_def Let_def
  by (auto intro!: unless_over_loops quiet_loops split: sum.split) (simp add: loops_ok_def prim_defs)

lemma enqueue_loops:
  assumes "loops_ok s"
  shows "loops_ok (fst (enqueue env i node key visible writers inflow s))"
proof -
  have "loops_ok ((add_live i 1 (emit ev t))\<lparr>sc_ready := r\<rparr>)" if "loops_ok t" for t ev r
    using that by (simp add: add_live_loops loops_ok_cong [of "(add_live i 1 (emit ev t))\<lparr>sc_ready := r\<rparr>" "add_live i 1 (emit ev t)"])
  note go_on = this
  show ?thesis
    using assms unfolding enqueue_def Let_def
    by (cases "sc_stop_scheduling s") (auto intro!: unless_over_loops quiet_loops go_on)
qed

lemma prune_node_loops: "loops_ok s \<Longrightarrow> loops_ok (fst (prune_node env i node key s))"
  by (auto simp: prune_node_def Let_def intro!: unless_over_loops quiet_loops)

lemma decide_loops:
  assumes "loops_ok s"
  shows "loops_ok (fst (decide env i node key visible writers inflow s))"
proof -
  have "loops_ok (set_scope i ((scope_at s i)\<lparr>sr_round_contribs := c\<rparr>) s)" for c
    using assms by (rule loops_ok_set) (rule loop_in_bounds_keep [OF loops_okD [OF assms]], simp_all)
  then show ?thesis
    using assms prune_node_loops [OF assms] decide_if_else_loops [OF assms] enqueue_loops [OF assms] start_loop_loops [OF assms]
      quiet_loops(3) [OF assms]
    by (simp add: decide_def Let_def split: option.split node_type.split)
qed

lemma record_edge_loops: "loops_ok s \<Longrightarrow> loops_ok (record_edge env i e active contrib s)"
  by (simp add: record_edge_def Let_def loops_ok_def emit_def)

lemma resolve_edge_loops: "loops_ok s \<Longrightarrow> loops_ok (fst (resolve_edge env i e active contrib s))"
  by (simp add: resolve_edge_def Let_def case_prod_beta decide_loops record_edge_loops)

lemma exec_frame_loops: "loops_ok s \<Longrightarrow> loops_ok (fst (exec_frame env f s))"
  by (cases f) (auto simp: exec_frame_def decide_loops resolve_edge_loops on_scope_quiesced_loops add_live_loops)

lemma handle_result_loops: "loops_ok s \<Longrightarrow> loops_ok (fst (handle_result env item res partial s))"
proof -
  assume s: "loops_ok s"
  have "loops_ok (fst (after_completion env item outcome st t))" if "loops_ok t" for outcome st t
  proof -
    have "loops_ok (set_scope i ((scope_at t i)\<lparr>sr_stop_loop := True\<rparr>) t)" for i
      using that by (rule loops_ok_set) (rule loop_in_bounds_keep [OF loops_okD [OF that]], simp_all)
    moreover have "loops_ok (add_live i d (t\<lparr>sc_stop_scheduling := a, sc_end_reached := b, sc_ready := r\<rparr>))" for i d a b r
      using that by (intro add_live_loops) (simp add: loops_ok_def)
    ultimately show ?thesis using that
      by (auto simp: after_completion_def Let_def) (simp_all add: loops_ok_def persist_def sync_progress_def put_instance_def)
  qed
  note after = this
  show ?thesis
    using s by (auto simp: handle_result_def Let_def case_prod_beta intro!: unless_over_loops quiet_loops after split: sum.split)
qed

subsection \<open>The pool and the ready queue\<close>

text \<open>
  Handlers leave the workers alone; they add to the ready queue only while scheduling goes on. The
  relation is transitive, so it follows the structure of the handlers.
\<close>

definition pool_kept :: "sched \<Rightarrow> sched \<Rightarrow> bool" where
  "pool_kept s t \<longleftrightarrow> sc_in_flight t = sc_in_flight s \<and> sc_cfg t = sc_cfg s \<and> sc_exited t = sc_exited s
     \<and> (sc_stop_scheduling s \<longrightarrow> sc_stop_scheduling t) \<and> (sc_stop_scheduling t \<and> sc_ready s = [] \<longrightarrow> sc_ready t = [])
     \<and> (sc_stop_scheduling s = sc_stop_scheduling t \<or> sc_ready t = [])"

lemma pool_kept_refl: "pool_kept s s"
  by (simp add: pool_kept_def)

lemma pool_kept_trans: "pool_kept s t \<Longrightarrow> pool_kept t u \<Longrightarrow> pool_kept s u"
  by (auto simp: pool_kept_def)

lemma pool_okI: "pool_ok s \<Longrightarrow> pool_kept s t \<Longrightarrow> pool_ok t"
  by (auto simp: pool_ok_def pool_kept_def)

lemma unless_over_pool:
  assumes "pool_kept r s" "\<And>t. pool_kept r t \<Longrightarrow> t = persist s \<Longrightarrow> pool_kept r (fst (k t))"
  shows "pool_kept r (fst (unless_over env k s))"
proof (cases "check_run_limits env s")
  case (Pair over s')
  show ?thesis
  proof (cases over)
    case True
    then show ?thesis
      using Pair check_run_limits_over [of env s s'] assms(1) by (auto simp: unless_over_def pool_kept_def)
  next
    case False
    then have "s' = s" using Pair check_run_limits_within [of env s s'] by simp
    moreover have "pool_kept r (persist s)" using assms(1) by (simp add: pool_kept_def persist_def)
    ultimately show ?thesis using Pair False assms(2) by (simp add: unless_over_def)
  qed
qed

lemma quiet_pool:
  "pool_kept r s \<Longrightarrow> pool_kept r (emit ev s)"
  "pool_kept r s \<Longrightarrow> pool_kept r (fail_run_sched env msg s)"
  "pool_kept r s \<Longrightarrow> pool_kept r (set_scope i sr s)"
  "pool_kept r s \<Longrightarrow> pool_kept r (add_live i d s)"
  "pool_kept r s \<Longrightarrow> pool_kept r (close_loop_instance env loop s)"
  "pool_kept r s \<Longrightarrow> pool_kept r (close_round i s)"
  "pool_kept r s \<Longrightarrow> pool_kept r (fail_loop_node env i msg s)"
  "pool_kept r s \<Longrightarrow> pool_kept r (open_scope i node key vis wr infl s)"
  "pool_kept r s \<Longrightarrow> pool_kept r (put_instance k st s)"
  "pool_kept r s \<Longrightarrow> pool_kept r (sync_progress s)"
  "pool_kept r s \<Longrightarrow> pool_kept r (put_vars k vs ws s)"
  "pool_kept r s \<Longrightarrow> pool_kept r (skip_instance env node key s)"
  "pool_kept r s \<Longrightarrow> pool_kept r (reach_main_end env node k s)"
  "pool_kept r s \<Longrightarrow> pool_kept r (snd (complete_instance env item outcome st s))"
  "pool_kept r s \<Longrightarrow> pool_kept r (announce_completion node k vs s)"
  "pool_kept r s \<Longrightarrow> pool_kept r (fail_instance env st key node msg fin infl outcome s)"
  "pool_kept r s \<Longrightarrow> pool_kept r (handle_session_opened env key session s)"
  by (simp_all add: pool_kept_def prim_defs close_loop_instance_def close_round_def fail_loop_node_def open_scope_def
      skip_instance_def reach_main_end_def complete_instance_def announce_completion_def fail_instance_def
      handle_session_opened_def Let_def case_prod_beta split: option.splits)

lemma start_iteration_pool: "pool_kept r s \<Longrightarrow> pool_kept r (fst (start_iteration env i idx s))"
  by (auto simp: start_iteration_def Let_def intro!: quiet_pool split: option.split)
    (auto simp: pool_kept_def prim_defs)

lemma finish_loop_pool: "pool_kept r s \<Longrightarrow> pool_kept r (fst (finish_loop env i s))"
  unfolding finish_loop_def Let_def by (rule unless_over_pool) (auto intro: quiet_pool)

lemma on_scope_quiesced_pool: "pool_kept r s \<Longrightarrow> pool_kept r (fst (on_scope_quiesced env i s))"
  by (auto simp: on_scope_quiesced_def finish_iteration_def Let_def
      intro!: quiet_pool finish_loop_pool start_iteration_pool split: loop_mode.split sum.split)

lemma start_loop_pool: "pool_kept r s \<Longrightarrow> pool_kept r (fst (start_loop env i node key vis wr infl s))"
  unfolding start_loop_def Let_def
  by (rule unless_over_pool)
    (auto intro!: quiet_pool finish_loop_pool start_iteration_pool, simp_all add: pool_kept_def prim_defs)

lemma enqueue_pool:
  assumes "pool_kept r s"
  shows "pool_kept r (fst (enqueue env i node key vis wr infl s))"
proof (cases "sc_stop_scheduling s")
  case True
  with assms show ?thesis by (simp add: enqueue_def)
next
  case False
  let ?prep = "\<lambda>st. sync_progress (put_vars (instance_key_string key) vis wr (put_instance (instance_key_string key) st s))"
  have "pool_kept r ((add_live i 1 (emit ev (persist (?prep st))))\<lparr>sc_ready := q\<rparr>)" for ev st q
    using assms False by (auto simp: pool_kept_def prim_defs)
  then have "pool_kept r (fst (unless_over env (\<lambda>s. ((add_live i 1 (emit (ev s) s))\<lparr>sc_ready := q s\<rparr>, [])) (?prep st)))" for ev q st
    using assms by (auto intro!: unless_over_pool quiet_pool)
  with False show ?thesis by (simp add: enqueue_def Let_def)
qed

lemma decide_pool: "pool_kept r s \<Longrightarrow> pool_kept r (fst (decide env i node key vis wr infl s))"
  unfolding decide_def decide_if_else_def prune_node_def Let_def
  by (auto intro!: quiet_pool unless_over_pool enqueue_pool start_loop_pool split: option.split node_type.split sum.split)
    (auto simp: pool_kept_def prim_defs)

lemma record_edge_pool: "pool_kept r s \<Longrightarrow> pool_kept r (record_edge env i e active contrib s)"
  by (simp add: record_edge_def Let_def pool_kept_def emit_def)

lemma exec_frame_pool: "pool_kept s (fst (exec_frame env f s))"
  by (cases f) (auto simp: exec_frame_def resolve_edge_def Let_def case_prod_beta
      intro!: on_scope_quiesced_pool quiet_pool pool_kept_refl decide_pool record_edge_pool)

lemma handle_result_pool: "pool_kept s (fst (handle_result env item res partial s))"
proof -
  have "pool_kept r (fst (after_completion env item outcome st t))" if "pool_kept r t" for outcome st r t
  proof -
    have "pool_kept r (add_live i d (t\<lparr>sc_stop_scheduling := True, sc_end_reached := b, sc_ready := []\<rparr>))" for i d b
      using that by (auto simp: pool_kept_def prim_defs)
    then show ?thesis using that
      by (auto simp: after_completion_def Let_def intro!: quiet_pool) (auto simp: pool_kept_def prim_defs)
  qed
  note after = this
  show ?thesis
    by (auto simp: handle_result_def Let_def case_prod_beta intro!: unless_over_pool quiet_pool pool_kept_refl after split: sum.split)
qed

subsection \<open>Control signals and exits\<close>

lemma counts_okD: "counts_ok s \<Longrightarrow> distinct (akeys (sc_instances s))"
  by (simp add: counts_ok_def)

lemma pool_kept_cfg: "pool_kept s t \<Longrightarrow> sc_cfg t = sc_cfg s"
  by (simp add: pool_kept_def)

lemma quiet_control:
  "pool_kept r s \<Longrightarrow> pool_kept r (fst (apply_graceful_signal env sig s))"
  "pool_kept r s \<Longrightarrow> pool_kept r (fst (cancel_graceful_signal env reason s))"
  "loops_ok s \<Longrightarrow> loops_ok (fst (apply_graceful_signal env sig s))"
  "loops_ok s \<Longrightarrow> loops_ok (fst (cancel_graceful_signal env reason s))"
  by (cases sig; simp add: apply_graceful_signal_def cancel_graceful_signal_def Let_def prim_defs pool_kept_def loops_ok_def)+

text \<open>What rolling back, interrupting and draining keep.\<close>

definition exit_kept :: "sched \<Rightarrow> sched \<Rightarrow> bool" where
  "exit_kept s t \<longleftrightarrow> sc_scopes t = sc_scopes s \<and> sc_cfg t = sc_cfg s \<and> sc_failed t = sc_failed s
     \<and> sc_stop_scheduling t = sc_stop_scheduling s \<and> (sc_ready s = [] \<longrightarrow> sc_ready t = [])
     \<and> length (sc_in_flight t) \<le> length (sc_in_flight s)
     \<and> (distinct (akeys (sc_instances s)) \<longrightarrow> distinct (akeys (sc_instances t)))
     \<and> length (sc_instances t) \<le> length (sc_instances s)"

lemma exit_kept_refl: "exit_kept s s"
  by (simp add: exit_kept_def)

lemma exit_kept_trans: "exit_kept s t \<Longrightarrow> exit_kept t u \<Longrightarrow> exit_kept s u"
  by (auto simp: exit_kept_def)

lemma interrupt_exit: "exit_kept s (interrupt_running env reason s)"
proof -
  have "akeys (map (\<lambda>(k, st). (k, interrupt_instance now reason st)) m) = akeys m" for now and m :: "(string \<times> instance_state) list"
    by (simp add: akeys_def case_prod_beta comp_def)
  then show ?thesis by (simp add: interrupt_running_def Let_def sync_progress_def exit_kept_def)
qed

lemma rollback_item_exit: "exit_kept s (rollback_item item s)"
  by (auto simp: rollback_item_def Let_def exit_kept_def akeys_def distinct_delete length_delete_le split: option.splits)

lemma rollback_exit: "exit_kept s (rollback_undispatched s)"
proof -
  have "exit_kept s (fold rollback_item items s)" for items
    by (induction items arbitrary: s) (auto intro: exit_kept_refl exit_kept_trans rollback_item_exit)
  then show ?thesis by (simp add: rollback_undispatched_def exit_kept_def)
qed

lemma session_opened_exit: "exit_kept s (handle_session_opened env key session s)"
  by (auto simp: handle_session_opened_def Let_def prim_defs exit_kept_def aput_known_length split: option.splits)

lemma drain_exit: "exit_kept s (drain env ds s)"
proof (induction env ds s rule: drain.induct)
  case (2 env key session ds s)
  then show ?case using exit_kept_trans [OF session_opened_exit] by simp
next
  case (3 env i outcome ds s)
  let ?s = "s\<lparr>sc_in_flight := remove_at i (sc_in_flight s)\<rparr>"
  let ?t = "if i < length (sc_in_flight s)
    then let item = sc_in_flight s ! i; s = ?s
         in if is_agent (n_type (ri_node item))
            then whitelist_agent_session env (first_non_empty [no_session outcome, ri_inflow item]) s else s
    else s"
  have "exit_kept s ?t" by (simp add: exit_kept_def remove_at_def Let_def)
  from exit_kept_trans [OF this "3.IH"] show ?case by (simp only: drain.simps)
qed (simp add: exit_kept_refl)

text \<open>An exit that leaves the accounting in order: the run was not failed, or it stays failed.\<close>

lemma exit_counts:
  assumes "counts_ok s" "exit_kept s t" "counters_match (gr_progress (sc_run u)) (sc_instances u)"
    and "sc_instances u = sc_instances t" "sc_cfg u = sc_cfg t" "sc_failed u = sc_failed t" "sc_failed t \<Longrightarrow> gr_status (sc_run u) = RunFailed"
  shows "counts_ok u"
  using assms by (auto simp: counts_ok_def within_limit_def exit_kept_def)

lemma finish_counts:
  assumes "counts_ok s" "\<not> sc_failed s"
  shows "counts_ok (finish_graceful env s)" "counts_ok (finish_stopped env s)" "counts_ok (finish_awaiting env s)"
    and "counts_ok (complete_run env s)"
proof -
  have r: "exit_kept s (rollback_undispatched s)" by (rule rollback_exit)
  then have nf: "\<not> sc_failed (rollback_undispatched s)" using assms(2) by (simp add: exit_kept_def)
  show "counts_ok (finish_graceful env s)"
    by (rule exit_counts [OF assms(1) r]) (use nf in \<open>simp_all add: finish_graceful_def Let_def prim_defs\<close>)
  show "counts_ok (finish_stopped env s)"
    by (rule exit_counts [OF assms(1) r]) (use nf in \<open>simp_all add: finish_stopped_def Let_def prim_defs\<close>)
  show "counts_ok (finish_awaiting env s)"
    by (rule exit_counts [OF assms(1) r]) (use nf in \<open>simp_all add: finish_awaiting_def Let_def prim_defs\<close>)
  show "counts_ok (complete_run env s)"
    using assms by (auto simp: complete_run_def Let_def counts_ok_def [of s] intro: fail_run_sched_ok)
      (simp add: counts_ok_def prim_defs within_limit_def)
qed

lemma drain_counts: "counts_ok s \<Longrightarrow> counts_ok (drain env ds s)"
proof (induction env ds s rule: drain.induct)
  case (2 env key session ds s)
  then show ?case by (simp add: handle_session_opened_counts)
next
  case (3 env i outcome ds s)
  let ?t = "if i < length (sc_in_flight s)
    then let item = sc_in_flight s ! i; s = s\<lparr>sc_in_flight := remove_at i (sc_in_flight s)\<rparr>
         in if is_agent (n_type (ri_node item))
            then whitelist_agent_session env (first_non_empty [no_session outcome, ri_inflow item]) s else s
    else s"
  have "same_counts s ?t" by (simp add: same_counts_def Let_def)
  from same_countsD [OF "3.prems" this] "3.IH" show ?case by (simp only: drain.simps)
qed simp

lemma drain_failed [simp]: "sc_failed (drain env ds s) = sc_failed s"
  using drain_exit [of s env ds] by (simp add: exit_kept_def)

lemma interrupt_failed [simp]: "sc_failed (interrupt_running env reason s) = sc_failed s"
  using interrupt_exit [of s env reason] by (simp add: exit_kept_def)

lemma exit_loop_counts [simp]: "counts_ok (exit_loop s) = counts_ok s"
  by (simp add: exit_loop_def counts_ok_def within_limit_def)

lemma settle_counts: "counts_ok s \<Longrightarrow> \<not> sc_failed s \<Longrightarrow> counts_ok (settle env s)"
  by (simp add: settle_def finish_counts)

lemma hard_stop_counts: "counts_ok s \<Longrightarrow> \<not> sc_failed s \<Longrightarrow> counts_ok (hard_stop env reason ds s)"
proof -
  assume s: "counts_ok s" "\<not> sc_failed s"
  let ?s = "s\<lparr>sc_stop_reason := or_default reason ''hard stopped''\<rparr>"
  have "counts_ok ?s" by (rule same_countsD [OF s(1)]) (simp add: same_counts_def)
  then show ?thesis
    using s(2) by (simp add: hard_stop_def Let_def finish_counts drain_counts interrupt_running_counts)
qed

lemma failed_exit_counts: "counts_ok s \<Longrightarrow> counts_ok (failed_exit env ds s)"
proof -
  assume "counts_ok s"
  then have "counts_ok (snapshot_loop_state s)"
    by (rule same_countsD) (simp add: same_counts_def snapshot_loop_state_def)
  then have "counts_ok (drain env ds (interrupt_running env r (snapshot_loop_state s)))" for r
    by (simp add: drain_counts interrupt_running_counts)
  then have "counts_ok (persist (drain env ds (interrupt_running env r (snapshot_loop_state s))))" for r
    by (rule same_countsD) (simp add: same_counts_def persist_def)
  then show ?thesis by (simp add: failed_exit_def)
qed

lemma context_done_counts:
  assumes "counts_ok s" "\<not> sc_failed s"
  shows "counts_ok (context_done env deadline msg ds s)"
proof (cases deadline)
  case True
  let ?i = "interrupt_running env ''job timed out'' (drain env ds s)"
  have "counts_ok ?i" "\<not> sc_failed ?i" using assms by (simp_all add: interrupt_running_counts drain_counts)
  then show ?thesis
    using True by (simp add: context_done_def finish_for_context_error_def Let_def prim_defs)
      (simp add: counts_ok_def within_limit_def)
next
  case False
  then show ?thesis
    using fail_run_sched_ok [OF counts_okD [OF drain_counts [OF assms(1)]]]
    by (simp add: context_done_def finish_for_context_error_def)
qed

text \<open>Exits keep scopes, bounds and the stop flag, and never grow the pool.\<close>

lemma exit_keeps:
  "exit_kept s t \<Longrightarrow> loops_ok s \<Longrightarrow> loops_ok t" "exit_kept s t \<Longrightarrow> pool_ok s \<Longrightarrow> pool_ok t"
  by (auto simp: exit_kept_def loops_ok_def pool_ok_def)

lemma exits_ok:
  assumes "loops_ok s" "pool_ok s"
  shows "loops_ok (settle env s) \<and> pool_ok (settle env s)"
    and "loops_ok (hard_stop env reason ds s) \<and> pool_ok (hard_stop env reason ds s)"
    and "loops_ok (failed_exit env ds s) \<and> pool_ok (failed_exit env ds s)"
    and "loops_ok (context_done env deadline msg ds s) \<and> pool_ok (context_done env deadline msg ds s)"
proof -
  have r: "loops_ok (rollback_undispatched t) \<and> pool_ok (rollback_undispatched t)" if "loops_ok t" "pool_ok t" for t
    using exit_keeps [OF rollback_exit] that by blast
  have i: "loops_ok (interrupt_running env x t) \<and> pool_ok (interrupt_running env x t)" if "loops_ok t" "pool_ok t" for x t
    using exit_keeps [OF interrupt_exit] that by blast
  have d: "loops_ok (drain env ds t) \<and> pool_ok (drain env ds t)" if "loops_ok t" "pool_ok t" for t
    using exit_keeps [OF drain_exit] that by blast
  show "loops_ok (settle env s) \<and> pool_ok (settle env s)"
    using r [OF assms] assms
    by (simp add: settle_def finish_graceful_def finish_awaiting_def complete_run_def Let_def prim_defs)
      (simp add: loops_ok_def pool_ok_def)
  have "loops_ok (finish_stopped env t) \<and> pool_ok (finish_stopped env t)" if "loops_ok t" "pool_ok t" for t
    using r [OF that] by (simp add: finish_stopped_def Let_def prim_defs) (simp add: loops_ok_def pool_ok_def)
  moreover have "loops_ok (s\<lparr>sc_stop_reason := x\<rparr>)" "pool_ok (s\<lparr>sc_stop_reason := x\<rparr>)" for x
    using assms by (simp_all add: loops_ok_def pool_ok_def)
  ultimately have "loops_ok (finish_stopped env (drain env ds (interrupt_running env y (s\<lparr>sc_stop_reason := x\<rparr>))))
      \<and> pool_ok (finish_stopped env (drain env ds (interrupt_running env y (s\<lparr>sc_stop_reason := x\<rparr>))))" for x y
    using i d by blast
  then show "loops_ok (hard_stop env reason ds s) \<and> pool_ok (hard_stop env reason ds s)"
    by (simp add: hard_stop_def Let_def exit_loop_def) (simp add: loops_ok_def pool_ok_def)
  have "loops_ok (snapshot_loop_state s)" "pool_ok (snapshot_loop_state s)"
    using assms by (simp_all add: loops_ok_def pool_ok_def snapshot_loop_state_def)
  then have "loops_ok (drain env ds (interrupt_running env y (snapshot_loop_state s)))
      \<and> pool_ok (drain env ds (interrupt_running env y (snapshot_loop_state s)))" for y
    using i d by blast
  then show "loops_ok (failed_exit env ds s) \<and> pool_ok (failed_exit env ds s)"
    by (simp add: failed_exit_def exit_loop_def persist_def) (simp add: loops_ok_def pool_ok_def)
  have "loops_ok (interrupt_running env y (drain env ds s)) \<and> pool_ok (interrupt_running env y (drain env ds s))" for y
    using i d assms by blast
  then show "loops_ok (context_done env deadline msg ds s) \<and> pool_ok (context_done env deadline msg ds s)"
    using d [OF assms]
    by (cases deadline) (simp_all add: context_done_def finish_for_context_error_def Let_def prim_defs, simp_all add: loops_ok_def pool_ok_def)
qed

text \<open>What a state that has left the loop looks like.\<close>

lemma interrupt_none_running: "no_instance_running (interrupt_running env reason s)"
proof -
  have "sc_instances (interrupt_running env reason s)
      = map (\<lambda>(k, st). (k, interrupt_instance (env_now env) reason st)) (sc_instances s)"
    by (simp add: interrupt_running_def Let_def sync_progress_def)
  then show ?thesis by (auto simp: no_instance_running_def list_all_iff interrupt_instance_def split: if_splits)
qed

lemma session_opened_none_running:
  "no_instance_running s \<Longrightarrow> no_instance_running (handle_session_opened env key session s)"
proof -
  assume "no_instance_running s"
  then have "\<forall>st. aget (sc_instances s) k = Some st \<longrightarrow> is_status st \<noteq> InstRunning" for k
    by (auto simp: no_instance_running_def list_all_iff dest: map_of_SomeD)
  then show ?thesis using \<open>no_instance_running s\<close>
    by (auto simp: handle_session_opened_def Let_def no_instance_running_def split: option.splits)
qed

lemma drain_none_running: "no_instance_running s \<Longrightarrow> no_instance_running (drain env ds s)"
proof (induction env ds s rule: drain.induct)
  case (3 env i outcome ds s)
  then show ?case by (simp add: Let_def no_instance_running_def)
qed (simp_all add: session_opened_none_running)

lemma rollback_none_running: "no_instance_running s \<Longrightarrow> no_instance_running (rollback_undispatched s)"
proof -
  have "no_instance_running s \<Longrightarrow> no_instance_running (fold rollback_item items s)" for items
  proof (induction items arbitrary: s)
    case (Cons item items)
    have "no_instance_running (rollback_item item s)"
      using Cons.prems
      by (auto simp: rollback_item_def Let_def no_instance_running_def list_all_iff AList.delete_eq split: option.splits)
    then show ?case using Cons.IH by simp
  qed simp
  then show "no_instance_running s \<Longrightarrow> ?thesis" by (simp add: rollback_undispatched_def no_instance_running_def)
qed

lemma rollback_in_flight [simp]: "sc_in_flight (rollback_undispatched s) = sc_in_flight s"
proof -
  have "sc_in_flight (fold rollback_item items s) = sc_in_flight s" for items
    by (induction items arbitrary: s) (simp_all add: rollback_item_def Let_def split: option.split)
  then show ?thesis by (simp add: rollback_undispatched_def)
qed

lemma interrupt_in_flight [simp]: "sc_in_flight (interrupt_running env reason s) = sc_in_flight s"
  by (simp add: interrupt_running_def Let_def sync_progress_def)

lemma exit_okI:
  "sc_in_flight s = [] \<Longrightarrow> sc_disk s = Some (sc_run s, sc_instances s, sc_edges s, sc_vars_by_key s) \<Longrightarrow>
   gr_status (sc_run s) \<in> {RunCompleted, RunFailed, RunStepStopped, RunSessionStopped, RunAwaitingInput}
     \<or> gr_status (sc_run s) \<in> {RunStopped, RunTimedOut} \<and> no_instance_running s \<Longrightarrow> exit_ok s"
  by (auto simp: exit_ok_def)

lemma settle_exit: "sc_in_flight s = [] \<Longrightarrow> exit_ok (settle env s)"
  by (rule exit_okI)
    (auto simp: settle_def finish_graceful_def finish_awaiting_def complete_run_def Let_def prim_defs)

lemma hard_stop_exit:
  assumes "sc_in_flight (hard_stop env reason ds s) = []"
  shows "exit_ok (hard_stop env reason ds s)"
proof (rule exit_okI [OF assms])
  let ?d = "drain env ds (interrupt_running env (or_default reason ''hard stopped'') (s\<lparr>sc_stop_reason := or_default reason ''hard stopped''\<rparr>))"
  have "no_instance_running (rollback_undispatched ?d)"
    by (intro rollback_none_running drain_none_running interrupt_none_running)
  then show "gr_status (sc_run (hard_stop env reason ds s)) \<in> {RunCompleted, RunFailed, RunStepStopped, RunSessionStopped, RunAwaitingInput}
      \<or> gr_status (sc_run (hard_stop env reason ds s)) \<in> {RunStopped, RunTimedOut} \<and> no_instance_running (hard_stop env reason ds s)"
    by (simp add: hard_stop_def finish_stopped_def Let_def prim_defs no_instance_running_def)
qed (simp add: hard_stop_def finish_stopped_def Let_def prim_defs)

lemma failed_exit_exit:
  assumes "counts_ok s" "sc_failed s" "sc_in_flight (failed_exit env ds s) = []"
  shows "exit_ok (failed_exit env ds s)"
proof (rule exit_okI [OF assms(3)])
  have "counts_ok (failed_exit env ds s)" "sc_failed (failed_exit env ds s)"
    using assms failed_exit_counts by (simp_all add: failed_exit_def exit_loop_def persist_def snapshot_loop_state_def)
  then show "gr_status (sc_run (failed_exit env ds s)) \<in> {RunCompleted, RunFailed, RunStepStopped, RunSessionStopped, RunAwaitingInput}
      \<or> gr_status (sc_run (failed_exit env ds s)) \<in> {RunStopped, RunTimedOut} \<and> no_instance_running (failed_exit env ds s)"
    by (simp add: counts_ok_def)
qed (simp add: failed_exit_def prim_defs)

lemma context_done_exit:
  assumes "sc_in_flight (context_done env deadline msg ds s) = []"
  shows "exit_ok (context_done env deadline msg ds s)"
proof (rule exit_okI [OF assms])
  have "no_instance_running (interrupt_running env ''job timed out'' (drain env ds s))" by (rule interrupt_none_running)
  then show "gr_status (sc_run (context_done env deadline msg ds s)) \<in> {RunCompleted, RunFailed, RunStepStopped, RunSessionStopped, RunAwaitingInput}
      \<or> gr_status (sc_run (context_done env deadline msg ds s)) \<in> {RunStopped, RunTimedOut} \<and> no_instance_running (context_done env deadline msg ds s)"
    by (cases deadline) (simp_all add: context_done_def finish_for_context_error_def Let_def prim_defs no_instance_running_def)
qed (cases deadline, simp_all add: context_done_def finish_for_context_error_def Let_def prim_defs)

subsection \<open>The machine keeps them all\<close>

lemma sched_ok_split: "sched_ok s \<longleftrightarrow> counts_ok s \<and> loops_ok s \<and> pool_ok s \<and> exit_ok s"
  by (simp add: sched_ok_def)

text \<open>A handler's result: the accounting and the bounds kept, the pool kept, the loop not left.\<close>

lemma handled:
  assumes "sched_ok s" "\<not> sc_exited s" "counts_ok t" "loops_ok t" "pool_kept s t"
  shows "sched_ok t"
  using assms pool_okI [of s t] by (auto simp: sched_ok_def exit_ok_def pool_kept_def)

definition machine_ok :: "machine \<Rightarrow> bool" where
  "machine_ok m \<longleftrightarrow> sched_ok (snd m)"

lemma run_call_ok:
  assumes "sched_ok s" "\<not> sc_exited s"
  shows "machine_ok (run_call env (fs, s))"
proof (cases "fs = [] \<or> sc_failed s")
  case True
  then show ?thesis using assms by (cases fs) (auto simp: run_call_def machine_ok_def)
next
  case False
  then obtain f fs' where fs: "fs = f # fs'" "\<not> sc_failed s" by (cases fs) auto
  have "sched_ok (fst (exec_frame env f s))"
    using assms fs by (intro handled [OF assms] exec_frame_counts exec_frame_loops exec_frame_pool) (auto simp: sched_ok_def)
  with fs show ?thesis by (simp add: run_call_def machine_ok_def case_prod_beta)
qed

lemma when_drained_ok: "sched_ok s \<Longrightarrow> (sc_in_flight t = [] \<Longrightarrow> sched_ok t) \<Longrightarrow> machine_ok (when_drained s t)"
  by (simp add: when_drained_def machine_ok_def)

lemma dispatch_ok:
  assumes "sched_ok s" "\<not> sc_exited s"
  shows "sched_ok (dispatch s)"
proof (cases "next_dispatchable_index s")
  case (Some i)
  then have "sc_ready s \<noteq> []" by (auto simp: next_dispatchable_index_def)
  with assms Some show ?thesis
    by (auto simp: dispatch_def sched_ok_def counts_ok_def within_limit_def loops_ok_def pool_ok_def exit_ok_def)
qed (use assms in \<open>simp add: dispatch_def\<close>)

lemma result_ok:
  assumes "sched_ok s" "\<not> sc_exited s" "\<not> sc_failed s" "i < length (sc_in_flight s)"
  shows "sched_ok (fst (handle_result env item res partial (s\<lparr>sc_in_flight := remove_at i (sc_in_flight s)\<rparr>)))"
proof -
  let ?s = "s\<lparr>sc_in_flight := remove_at i (sc_in_flight s)\<rparr>"
  have s: "sched_ok ?s" "\<not> sc_exited ?s" "\<not> sc_failed ?s"
    using assms by (auto simp: sched_ok_def counts_ok_def within_limit_def loops_ok_def pool_ok_def exit_ok_def remove_at_def)
  then show ?thesis
    by (intro handled [OF s(1,2)] handle_result_counts handle_result_loops handle_result_pool) (auto simp: sched_ok_def)
qed

lemma loop_step_ok:
  assumes "sched_ok s" "\<not> sc_exited s" "\<not> sc_failed s"
  shows "machine_ok (loop_step env op s)"
proof -
  have ok: "counts_ok s" "loops_ok s" "pool_ok s" using assms(1) by (simp_all add: sched_ok_def)
  show ?thesis
  proof (cases op)
    case (OpResult i res partial)
    then show ?thesis using result_ok [OF assms] assms(1) by (simp add: loop_step_def machine_ok_def swap_frames_def)
  next
    case (OpSessionOpened key session)
    have "sched_ok (handle_session_opened env key session s)"
      by (rule handled [OF assms(1,2)]) (simp_all add: ok handle_session_opened_counts quiet_loops quiet_pool pool_kept_refl)
    then show ?thesis by (simp add: OpSessionOpened loop_step_def machine_ok_def)
  next
    case (OpControl sig ds)
    have "sched_ok (fst (apply_graceful_signal env sig s))" "sched_ok (fst (cancel_graceful_signal env r s))" for sig r
      by (rule handled [OF assms(1,2)];
          simp add: ok assms(3) apply_graceful_counts cancel_graceful_counts quiet_control pool_kept_refl)+
    moreover have "machine_ok (when_drained s (hard_stop env r ds s))" for r
      using when_drained_ok [OF assms(1)] hard_stop_counts [OF ok(1) assms(3)] exits_ok(2) [OF ok(2,3)] hard_stop_exit
      by (simp add: sched_ok_def)
    ultimately show ?thesis
      by (cases sig) (simp_all add: OpControl loop_step_def machine_ok_def swap_frames_def)
  next
    case OpSettle
    then show ?thesis
      using assms(1) settle_counts [OF ok(1) assms(3)] exits_ok(1) [OF ok(2,3)] settle_exit
      by (simp add: loop_step_def machine_ok_def sched_ok_def)
  next
    case (OpContextDone deadline msg ds)
    then show ?thesis
      using when_drained_ok [OF assms(1)] context_done_counts [OF ok(1) assms(3)] exits_ok(4) [OF ok(2,3)] context_done_exit
      by (simp add: loop_step_def sched_ok_def)
  qed (use assms dispatch_ok [OF assms(1,2)] in \<open>simp_all add: loop_step_def machine_ok_def\<close>)
qed

lemma exec_op_ok: "machine_ok m \<Longrightarrow> machine_ok (exec_op eop m)"
proof -
  assume m: "machine_ok m"
  obtain env op fs s where e: "eop = (env, op)" "m = (fs, s)" by (metis prod.exhaust)
  have s: "sched_ok s" using m e by (simp add: machine_ok_def)
  have "machine_ok (when_drained s (failed_exit env ds s))" if "sc_failed s" for ds
    using s that when_drained_ok [OF s] failed_exit_counts [of s] exits_ok(3) [of s] failed_exit_exit [of s]
    by (simp add: sched_ok_def)
  then show ?thesis
    using m s run_call_ok [OF s, of env fs] loop_step_ok [OF s, of env op]
    by (auto simp: exec_op_def e split: sched_op.split)
qed

text \<open>A run as \<open>StartRun\<close> creates it: its progress has been computed and counts nothing.\<close>

definition fresh_run :: "graph_run \<Rightarrow> bool" where
  "fresh_run run \<longleftrightarrow> initial_graph_progress (effective_config run) \<noteq> None
     \<and> gr_progress run = initial_graph_progress (effective_config run)"

definition started :: "machine \<Rightarrow> bool" where
  "started m \<longleftrightarrow> (\<exists>env run. fresh_run run \<and> m = start_run env run)"

lemma new_scheduler_simps [simp]:
  "sc_run (new_scheduler run cfg) = run" "sc_cfg (new_scheduler run cfg) = cfg" "sc_instances (new_scheduler run cfg) = []"
  "sc_scopes (new_scheduler run cfg) = (\<lambda>i. zero_scope)" "sc_in_flight (new_scheduler run cfg) = []"
  "sc_ready (new_scheduler run cfg) = []" "\<not> sc_failed (new_scheduler run cfg)" "\<not> sc_exited (new_scheduler run cfg)"
  by (simp_all add: new_scheduler_def index_def Let_def case_prod_beta)

lemma started_ok: "started m \<Longrightarrow> machine_ok m"
  by (auto simp: started_def fresh_run_def start_run_def Let_def machine_ok_def sched_ok_def counts_ok_def within_limit_def
      loops_ok_def pool_ok_def exit_ok_def akeys_def counters_match_def initial_graph_progress_def zero_progress_def
      loop_in_bounds_def zero_scope_def concurrency_limit_def effective_instance_limit_def default_instance_limit_def)

interpretation sched: guarded_system started exec_op machine_ok
  by unfold_locales (rule started_ok, assumption, rule exec_op_ok)


end
