(* ===== verification/GraphTrace.thy ===== *)
theory GraphTrace
  imports GraphSchedInv GraphValidated
begin

section \<open>Two runs, call by call\<close>

text \<open>
  Concrete runs of the scheduler's machine, evaluated in the kernel. The simplifier is kept to
  call-by-value (weak congruence rules) and the constant parts of the state stay folded, so that each
  handler call is a short computation; between groups of calls only the fields that the next calls
  read are carried over.
\<close>

subsection \<open>Two configurations to run\<close>

definition demo_env :: sched_env where
  "demo_env = \<lparr> env_now = 0, env_current_time = [], env_lower = id, env_error_text = (\<lambda>e. []),
     env_begin_shell = (\<lambda>script. None), env_end_hook_script = None, env_has_jobs = False \<rparr>"

definition demo_run :: "graph_config \<Rightarrow> graph_run" where
  "demo_run cfg = \<lparr> gr_id = ''r'', gr_job_id = ''j'', gr_status = RunPending, gr_base_config = cfg, gr_versions = [],
     gr_progress = initial_graph_progress cfg, gr_resume = None, gr_current_version = 1, gr_started_at = 0,
     gr_finished_at = 0, gr_updated_at = 0, gr_last_error = None, gr_archived = [], gr_retry_versions = [] \<rparr>"

definition solo :: graph_config where
  "solo = mk_config
     [mk_node ''s'' NStart [] empty_node_config, mk_node ''w'' NShell [] empty_node_config, mk_node ''e'' NEnd [] empty_node_config]
     [mk_edge ''1'' ''s'' ''w'', mk_edge ''2'' ''w'' ''e'']"

definition repeat :: "int \<Rightarrow> node_config" where
  "repeat n = empty_node_config\<lparr>nc_loop_mode := LoopFixed, nc_fixed_count := n\<rparr>"

text \<open>A loop of one round whose body is a loop of no rounds.\<close>

definition nested :: graph_config where
  "nested = mk_config
     [mk_node ''s'' NStart [] empty_node_config, mk_node ''L'' NLoop [] (repeat 1), mk_node ''w'' NShell [] empty_node_config,
      mk_node ''e'' NEnd [] empty_node_config, mk_node ''ls'' NStart ''L'' empty_node_config,
      mk_node ''N'' NLoop ''L'' (repeat 0), mk_node ''le'' NEnd ''L'' empty_node_config,
      mk_node ''ns'' NStart ''N'' empty_node_config, mk_node ''x'' NShell ''N'' empty_node_config,
      mk_node ''ne'' NEnd ''N'' empty_node_config]
     [mk_edge ''1'' ''s'' ''L'', mk_edge ''2'' ''L'' ''w'', mk_edge ''3'' ''w'' ''e'',
      mk_edge ''4'' ''ls'' ''N'', mk_edge ''5'' ''N'' ''le'', mk_edge ''6'' ''ns'' ''x'', mk_edge ''7'' ''x'' ''ne'']"

subsection \<open>Evaluating a call\<close>

fun calls :: "nat \<Rightarrow> machine \<Rightarrow> machine" where
  "calls 0 m = m"
| "calls (Suc n) m = calls n (exec_op (demo_env, OpCall) m)"

lemma calls_numeral: "calls (numeral k) m = calls (pred_numeral k) (exec_op (demo_env, OpCall) m)"
  by (simp add: numeral_eq_Suc)

lemma calls_add: "calls (j + k) m = calls k (calls j m)"
  by (induction j arbitrary: m) simp_all

lemma calls_fold: "calls n m = fold exec_op (replicate n (demo_env, OpCall)) m"
  by (induction n arbitrary: m) simp_all

lemma demo_env_simps:
  "env_now demo_env = 0" "env_begin_shell demo_env x = None" "env_end_hook_script demo_env = None"
  "\<not> env_has_jobs demo_env" "env_lower demo_env = id" "env_current_time demo_env = []"
  by (simp_all add: demo_env_def)

lemma demo_run_simps:
  "gr_id (demo_run c) = ''r''" "gr_current_version (demo_run c) = 1" "gr_versions (demo_run c) = []"
  "gr_base_config (demo_run c) = c" "gr_archived (demo_run c) = []" "gr_retry_versions (demo_run c) = []"
  by (simp_all add: demo_run_def)

lemma update_progress_simps:
  "gr_id (update_run_progress r m) = gr_id r" "gr_current_version (update_run_progress r m) = gr_current_version r"
  "gr_archived (update_run_progress r m) = gr_archived r" "gr_retry_versions (update_run_progress r m) = gr_retry_versions r"
  by (simp_all add: update_run_progress_eq)

lemma mk_simps:
  "n_id (mk_node i t p c) = i" "n_type (mk_node i t p c) = t" "n_parent (mk_node i t p c) = p"
  "n_config (mk_node i t p c) = c" "n_title (mk_node i t p c) = []" "e_id (mk_edge j a b) = j"
  "e_source (mk_edge j a b) = a" "e_target (mk_edge j a b) = b" "e_source_port (mk_edge j a b) = PortDefault"
  "gc_nodes (mk_config ns es) = ns" "gc_edges (mk_config ns es) = es" "gc_variables (mk_config ns es) = []"
  "gc_disabled_vars (mk_config ns es) = []" "gc_run_config (mk_config ns es) = empty_run_config"
  by (simp_all add: mk_node_def mk_edge_def mk_config_def)

lemma empty_config_simps:
  "nc_loop_mode (repeat n) = LoopFixed" "nc_fixed_count (repeat n) = n" "nc_max_iterations (repeat n) = 0"
  "nc_script empty_node_config = []" "effective_instance_limit empty_run_config = 100000"
  "effective_snapshot_byte_limit empty_run_config = 1073741824" "rc_default_loop_max_iters empty_run_config = 0"
  by (simp_all add: repeat_def empty_node_config_def empty_run_config_def effective_instance_limit_def
      effective_snapshot_byte_limit_def default_instance_limit_def default_snapshot_byte_limit_def)

lemma json_text_size_Nil: "json_text_size [] = 0"
  by (simp add: json_text_size.simps)

lemma json_text_size_ascii:
  "of_char c < (0x80::nat) \<Longrightarrow> json_text_size (c # cs) = json_rune_size (of_char c) 1 + json_text_size cs"
  by (subst json_text_size.simps) (simp add: Let_def)

lemma itoa_0: "itoa 0 = ''0''"
  by code_simp

lemma new_instance_simps: "is_status (new_instance n k st v) = st" "is_started_at (new_instance n k st v) = 0"
  by (simp_all add: new_instance_def zero_instance_def)

lemma unless_over_weak: "s = t \<Longrightarrow> unless_over env k s = unless_over env k t"
  by simp

lemma prod_case_weak: "p = q \<Longrightarrow> case_prod f p = case_prod f q"
  by simp

lemmas by_value = let_weak_cong if_weak_cong unless_over_weak option.case_cong_weak prod_case_weak sum.case_cong_weak
  node_type.case_cong_weak frame.case_cong_weak loop_mode.case_cong_weak sched_op.case_cong_weak

lemmas run_simps = demo_env_simps demo_run_simps update_progress_simps mk_simps empty_config_simps json_text_size_Nil
  json_text_size_ascii itoa_0 new_instance_simps calls_numeral
  exec_op_def run_call_def exec_frame_def resolve_edge_def record_edge_def target_key_def scope_key_def
  instance_key_string_def contribs_at_def remaining_at_def degree_of_def node_at_def emit_def decide_def start_loop_def
  put_instance_def sync_progress_def check_run_limits_def unless_over_def persist_def run_limit_error_def open_scope_def
  add_live_def set_scope_def start_iteration_def finish_loop_def close_loop_instance_def put_vars_def on_scope_quiesced_def
  finish_iteration_def close_round_def upstream_of_def enqueue_def runtime_vars_def loop_iteration_vars_def
  iteration_string_def merge_visible_snapshots_def merge_upstream_def merge_entry_def pick_inflow_session_def pick_step_def
  overlay_current_initial_variables_def instance_at_def loop_max_rounds_def effective_loop_max_iters_def resolve_all_def
  edge_state_key_def outs_of_def json_rune_size_def graph_snapshot_bytes_def json_map_size_def duration_def
  denom_adjust_def last_assistant_key_def Let_def

text \<open>The scheduler just started on a configuration without initial variables, its index folded.\<close>

definition out_index :: "graph_config \<Rightarrow> (string \<times> graph_edge list) list" where
  "out_index cfg = fst (fold index_edge (filter (indexable (nodes_by_id cfg)) (gc_edges cfg)) ([], []))"

definition degree_index :: "graph_config \<Rightarrow> (string \<times> int) list" where
  "degree_index cfg = snd (fold index_edge (filter (indexable (nodes_by_id cfg)) (gc_edges cfg)) ([], []))"

definition entry_index :: "graph_config \<Rightarrow> (string \<times> string) list" where
  "entry_index cfg = fold (\<lambda>n m. if n_parent n \<noteq> [] \<and> n_type n = NStart then aput (n_parent n) (n_id n) m else m)
     (gc_nodes cfg) []"

definition just_started :: "graph_config \<Rightarrow> sched" where
  "just_started cfg = \<lparr> sc_run = (demo_run cfg)\<lparr>gr_status := RunRunning\<rparr>, sc_cfg = cfg, sc_nodes = nodes_by_id cfg,
     sc_out = out_index cfg, sc_in_degree = degree_index cfg, sc_loop_entry = entry_index cfg, sc_in_remaining = [],
     sc_any_active = [], sc_contribs = [], sc_writers_by_key = [], sc_instances = [], sc_edges = [], sc_vars_by_key = [],
     sc_scopes = (\<lambda>i. zero_scope), sc_next_scope = 1, sc_ready = [], sc_in_flight = [], sc_end_reached = False,
     sc_failed = False, sc_stop_scheduling = False, sc_awaiting = False, sc_step_stop = False, sc_session_stop = False,
     sc_stop_reason = [], sc_batch_seq = 0, sc_cur_batch = None, sc_active_loops = [], sc_end_hook_fired = [],
     sc_exited = False, sc_disk = None, sc_job = None, sc_whitelist = [], sc_events = [] \<rparr>"

lemma start_demo: "start_run demo_env (demo_run cfg) = (seed_fresh (just_started cfg), just_started cfg)"
proof -
  have "snd (start_run demo_env (demo_run cfg)) = just_started cfg"
    by (simp add: start_run_def just_started_def new_scheduler_def effective_config_def index_def Let_def case_prod_beta
        set_job_def demo_env_simps demo_run_simps out_index_def degree_index_def entry_index_def) (simp add: demo_run_def)
  then show ?thesis by (auto simp: start_run_def Let_def)
qed

subsection \<open>A loop whose body is a loop of no rounds\<close>

lemma nested_lookups:
  "aget (out_index nested) ''s'' = Some [mk_edge ''1'' ''s'' ''L'']" "aget (out_index nested) ''L'' = Some [mk_edge ''2'' ''L'' ''w'']"
  "aget (out_index nested) ''ls'' = Some [mk_edge ''4'' ''ls'' ''N'']" "aget (out_index nested) ''N'' = Some [mk_edge ''5'' ''N'' ''le'']"
  "aget (out_index nested) ''w'' = Some [mk_edge ''3'' ''w'' ''e'']"
  "aget (degree_index nested) ''L'' = Some 1" "aget (degree_index nested) ''w'' = Some 1" "aget (degree_index nested) ''N'' = Some 1"
  "aget (degree_index nested) ''le'' = Some 1" "aget (entry_index nested) ''L'' = Some ''ls''"
  "aget (nodes_by_id nested) ''L'' = Some (mk_node ''L'' NLoop [] (repeat 1))"
  "aget (nodes_by_id nested) ''N'' = Some (mk_node ''N'' NLoop ''L'' (repeat 0))"
  "aget (nodes_by_id nested) ''w'' = Some (mk_node ''w'' NShell [] empty_node_config)"
  "aget (nodes_by_id nested) ''le'' = Some (mk_node ''le'' NEnd ''L'' empty_node_config)"
  by code_simp+

lemma nested_config: "gc_run_config nested = empty_run_config" "gc_variables nested = []" "gc_disabled_vars nested = []"
  by (simp_all add: nested_def mk_simps)

lemma nested_seed: "seed_fresh (just_started nested) = [FResolve 0 (mk_edge ''1'' ''s'' ''L'') True (upstream_of ''s'' [] [] [])]"
proof -
  have "filter (\<lambda>n. n_type n = NStart \<and> n_parent n = []) (gc_nodes nested) = [mk_node ''s'' NStart [] empty_node_config]"
    by code_simp
  then show ?thesis
    by (simp add: seed_fresh_def just_started_def Let_def nested_config outs_of_def nested_lookups mk_simps upstream_of_def
        initial_variable_writers_def)
qed

abbreviation last_msg :: "string \<Rightarrow> vars" where
  "last_msg w \<equiv> [(''_last_assistant_msg'', w)]"

text \<open>What stays the same through the run, and the scope of the outer loop.\<close>

definition steady :: "sched \<Rightarrow> bool" where
  "steady s \<longleftrightarrow> sc_cfg s = nested \<and> sc_nodes s = nodes_by_id nested \<and> sc_out s = out_index nested
     \<and> sc_in_degree s = degree_index nested \<and> sc_loop_entry s = entry_index nested \<and> \<not> sc_failed s
     \<and> \<not> sc_stop_scheduling s \<and> \<not> sc_step_stop s \<and> \<not> sc_session_stop s \<and> \<not> sc_exited s \<and> sc_in_flight s = []
     \<and> sr_container (sc_scopes s 0) = [] \<and> sr_prefix (sc_scopes s 0) = []"

definition outer_scope :: "int \<Rightarrow> string \<Rightarrow> upstream list \<Rightarrow> scope_run" where
  "outer_scope live w cs = \<lparr>sr_container = ''L'', sr_prefix = [\<lparr>li_loop_node = ''L'', li_index = 0\<rparr>], sr_parent = 0,
     sr_live = live, sr_loop_node = mk_node ''L'' NLoop [] (repeat 1), sr_loop_key = \<lparr>ik_node = ''L'', ik_iterations = []\<rparr>,
     sr_iter_index = 0, sr_rounds_run = 1, sr_max_iters = 100, sr_accum = last_msg [], sr_inflow = [], sr_round_entry = last_msg [],
     sr_round_entry_session = [], sr_round_writers = last_msg w, sr_round_entry_writers = last_msg ''s'', sr_round_contribs = cs,
     sr_stop_loop = False\<rparr>"

text \<open>After the inner loop has finished, after the outer loop has, and after its successor is ready.\<close>

definition inner_finished :: "machine \<Rightarrow> bool" where
  "inner_finished m \<longleftrightarrow> (case m of (fs, s) \<Rightarrow>
     fs = [FResolve 1 (mk_edge ''5'' ''N'' ''le'') True (upstream_of ''N'' (last_msg []) (last_msg ''ls'') []),
           FLiveDown 1, FQuiesce 1, FQuiesce 1]
     \<and> steady s \<and> sc_scopes s 1 = outer_scope 1 ''s'' [] \<and> akeys (sc_instances s) = [''L'', ''L#0/N''] \<and> sc_ready s = []
     \<and> sc_vars_by_key s = [(''L#0/N'', last_msg [])] \<and> akeys (sc_contribs s) = [''L'', ''L#0/N'']
     \<and> akeys (sc_in_remaining s) = [''L'', ''L#0/N''])"

definition outer_finished :: "machine \<Rightarrow> bool" where
  "outer_finished m \<longleftrightarrow> (case m of (fs, s) \<Rightarrow>
     fs = [FResolve 0 (mk_edge ''2'' ''L'' ''w'') True (upstream_of ''L'' (last_msg []) (last_msg ''le'') []),
           FLiveDown 0, FQuiesce 0, FQuiesce 1]
     \<and> steady s \<and> sc_scopes s 1 = outer_scope 0 ''le'' [upstream_of ''le'' (last_msg []) (last_msg ''N'') []]
     \<and> akeys (sc_instances s) = [''L'', ''L#0/N''] \<and> sc_ready s = []
     \<and> sc_vars_by_key s = [(''L#0/N'', last_msg []), (''L'', last_msg [])] \<and> ''w'' \<notin> set (akeys (sc_contribs s))
     \<and> ''w'' \<notin> set (akeys (sc_in_remaining s)))"

definition successor_ready :: "machine \<Rightarrow> bool" where
  "successor_ready m \<longleftrightarrow> (case m of (fs, s) \<Rightarrow>
     fs = [FQuiesce 1] \<and> steady s \<and> sc_scopes s 1 = outer_scope 0 ''le'' [upstream_of ''le'' (last_msg []) (last_msg ''N'') []]
     \<and> akeys (sc_instances s) = [''L'', ''L#0/N'', ''w''] \<and> is_status (instance_at s ''w'') = InstRunning
     \<and> sc_vars_by_key s = [(''L#0/N'', last_msg []), (''L'', last_msg []), (''w'', last_msg [])] \<and> aget (sc_in_remaining s) ''w'' = Some 0
     \<and> contribs_at s ''w'' = [upstream_of ''L'' (last_msg []) (last_msg ''le'') []]
     \<and> map (instance_key_string \<circ> ri_key) (sc_ready s) = [''w''])"

definition successor_ready_twice :: "machine \<Rightarrow> bool" where
  "successor_ready_twice m \<longleftrightarrow> (case m of (fs, s) \<Rightarrow>
     fs = [FLiveDown 0, FQuiesce 0] \<and> steady s \<and> map (instance_key_string \<circ> ri_key) (sc_ready s) = [''w'', ''w''])"

lemmas nested_run = run_simps nested_lookups nested_config steady_def outer_scope_def

lemma inner_loop_finishes: "inner_finished (calls 2 (start_run demo_env (demo_run nested)))"
  unfolding start_demo nested_seed
  by (simp add: just_started_def zero_scope_def nested_run inner_finished_def akeys_def cong: by_value)

lemma outer_loop_finishes:
  assumes "inner_finished m"
  shows "outer_finished (calls 3 m)"
proof -
  obtain fs s where m: "m = (fs, s)" by fastforce
  note s = assms [unfolded m inner_finished_def prod.case]
  then have keys: "akeys (sc_instances s) = [''L'', ''L#0/N'']" by blast
  have fresh: "aget (sc_instances s) ''L#0/le'' = None" "aget (sc_contribs s) ''L#0/le'' = None" "aget (sc_in_remaining s) ''L#0/le'' = None"
    using s by (simp_all add: aget_by_keys)
  obtain st where st: "aget (sc_instances s) ''L'' = Some st"
    using aget_by_keys [OF keys, of "''L''"] by auto
  note rest = fresh st keys akeys_length [OF keys]
  show ?thesis
    using s rest unfolding m outer_finished_def
    by (simp add: nested_run aput_known_length akeys_aput_known cong: by_value)
qed

lemma successor_becomes_ready:
  assumes "outer_finished m"
  shows "successor_ready (calls 3 m)"
proof -
  obtain fs s where m: "m = (fs, s)" by fastforce
  note s = assms [unfolded m outer_finished_def prod.case]
  then have keys: "akeys (sc_instances s) = [''L'', ''L#0/N'']" by blast
  have fresh: "aget (sc_instances s) ''w'' = None" "aget (sc_contribs s) ''w'' = None" "aget (sc_in_remaining s) ''w'' = None"
    using s by (simp_all add: aget_by_keys [OF keys] akeys_aget_iff)
  have new: "akeys (aput ''w'' st (sc_instances s)) = [''L'', ''L#0/N'', ''w'']" for st
    using akeys_aput_fresh [OF keys] by simp
  show ?thesis
    using s fresh new akeys_length [OF new] unfolding m successor_ready_def
    by (simp add: nested_run cong: by_value)
qed

lemma outer_loop_finishes_again:
  assumes "successor_ready m"
  shows "successor_ready_twice (calls 2 m)"
proof -
  obtain fs s where m: "m = (fs, s)" by fastforce
  note s = assms [unfolded m successor_ready_def prod.case]
  then have keys: "akeys (sc_instances s) = [''L'', ''L#0/N'', ''w'']" by blast
  obtain st sl where st: "aget (sc_instances s) ''w'' = Some st" "aget (sc_instances s) ''L'' = Some sl"
    using aget_by_keys [OF keys, of "''w''"] aget_by_keys [OF keys, of "''L''"] by auto
  have con: "aget (sc_contribs s) ''w'' = Some [upstream_of ''L'' (last_msg []) (last_msg ''le'') []]"
    using s by (auto simp: contribs_at_def split: option.splits)
  show ?thesis
    using s st con akeys_length [OF keys] unfolding m successor_ready_twice_def
    by (simp add: nested_run aput_known_length cong: by_value)
qed

lemma both_dispatched:
  assumes "successor_ready_twice m"
  shows "map (instance_key_string \<circ> ri_key) (sc_in_flight (snd (fold exec_op
           [(demo_env, OpCall), (demo_env, OpCall), (demo_env, OpDispatch), (demo_env, OpDispatch)] m))) = [''w'', ''w'']"
proof -
  obtain fs s where m: "m = (fs, s)" by fastforce
  note s = assms [unfolded m successor_ready_twice_def prod.case]
  then obtain a b where ab: "sc_ready s = [a, b]" "instance_key_string (ri_key a) = ''w''" "instance_key_string (ri_key b) = ''w''"
    by (auto simp: map_eq_Cons_conv)
  show ?thesis
    using s ab unfolding m
    by (simp add: exec_op_def run_call_def exec_frame_def add_live_def set_scope_def on_scope_quiesced_def loop_step_def dispatch_def
        next_dispatchable_index_def can_dispatch_def remove_at_def steady_def concurrency_limit_def nested_config empty_run_config_def)
qed

lemma nested_runs_successor_twice:
  "map (instance_key_string \<circ> ri_key) (sc_in_flight (snd (fold exec_op
     (replicate 12 (demo_env, OpCall) @ replicate 2 (demo_env, OpDispatch)) (start_run demo_env (demo_run nested))))) = [''w'', ''w'']"
proof -
  let ?m = "start_run demo_env (demo_run nested)" and ?c = "(demo_env, OpCall)" and ?d = "(demo_env, OpDispatch)"
  have "successor_ready_twice (calls (2 + (3 + (3 + 2))) ?m)"
    unfolding calls_add
    by (intro outer_loop_finishes_again successor_becomes_ready outer_loop_finishes inner_loop_finishes)
  then have "successor_ready_twice (fold exec_op (replicate 10 ?c) ?m)" by (simp add: calls_fold)
  from both_dispatched [OF this]
  have "map (instance_key_string \<circ> ri_key) (sc_in_flight (snd (fold exec_op (replicate 10 ?c @ [?c, ?c, ?d, ?d]) ?m))) = [''w'', ''w'']"
    by simp
  moreover have "replicate 10 ?c @ [?c, ?c, ?d, ?d] = replicate 12 ?c @ replicate 2 ?d"
    by (simp add: numeral_eq_Suc)
  ultimately show ?thesis by simp
qed

subsection \<open>A run stopped by its deadline\<close>

lemma solo_lookups:
  "aget (out_index solo) ''s'' = Some [mk_edge ''1'' ''s'' ''w'']" "aget (out_index solo) ''w'' = Some [mk_edge ''2'' ''w'' ''e'']"
  "aget (degree_index solo) ''w'' = Some 1"
  "aget (nodes_by_id solo) ''w'' = Some (mk_node ''w'' NShell [] empty_node_config)"
  by code_simp+

lemma solo_config: "gc_run_config solo = empty_run_config" "gc_variables solo = []" "gc_disabled_vars solo = []"
  by (simp_all add: solo_def mk_simps)

lemma solo_seed: "seed_fresh (just_started solo) = [FResolve 0 (mk_edge ''1'' ''s'' ''w'') True (upstream_of ''s'' [] [] [])]"
proof -
  have "filter (\<lambda>n. n_type n = NStart \<and> n_parent n = []) (gc_nodes solo) = [mk_node ''s'' NStart [] empty_node_config]"
    by code_simp
  then show ?thesis
    by (simp add: seed_fresh_def just_started_def Let_def solo_config outs_of_def solo_lookups mk_simps upstream_of_def
        initial_variable_writers_def)
qed

definition late_run :: "(sched_env \<times> sched_op) list" where
  "late_run = [(demo_env, OpCall), (demo_env, OpContextDone True ''late'' [])]"

lemma late_run_exits: "sc_exited (snd (fold exec_op late_run (start_run demo_env (demo_run solo))))"
proof -
  obtain fs s where m: "calls (Suc 0) (start_run demo_env (demo_run solo)) = (fs, s)" by fastforce
  have "case calls (Suc 0) (start_run demo_env (demo_run solo)) of (fs, s) \<Rightarrow>
      fs = [] \<and> sc_in_flight s = [] \<and> \<not> sc_failed s \<and> \<not> sc_exited s"
    unfolding start_demo solo_seed
    by (simp add: just_started_def zero_scope_def run_simps solo_lookups solo_config cong: by_value)
  with m show ?thesis
    by (simp add: late_run_def exec_op_def loop_step_def when_drained_def context_done_def finish_for_context_error_def
        prim_defs Let_def)
qed

lemma solo_fresh: "fresh_run (demo_run solo)"
proof -
  have "initial_graph_progress solo \<noteq> None" by code_simp
  then show ?thesis by (simp add: fresh_run_def effective_config_def demo_run_def)
qed

end
