(* ===== verification/GraphRuns.thy ===== *)
theory GraphRuns
  imports GraphTrace
begin

section \<open>Properties of whole runs\<close>

text \<open>
  What the scheduler guarantees of a run from \<open>StartRun\<close> on, whatever the workers answer and in
  whatever order results, control signals and time-outs arrive: a run is \<open>fold exec_op\<close> over the
  environment's choices. Then what a single decision guarantees: routing, joins and dispatch.
\<close>

subsection \<open>The configuration of a run does not change\<close>

lemma settle_cfg: "sc_cfg (settle env s) = sc_cfg s"
proof -
  have "sc_cfg (rollback_undispatched s) = sc_cfg s" using rollback_exit [of s] by (simp add: exit_kept_def)
  then show ?thesis
    by (simp add: settle_def finish_graceful_def finish_awaiting_def complete_run_def Let_def prim_defs)
qed

lemma drain_cfg: "sc_cfg (drain env ds s) = sc_cfg s"
  using drain_exit [of s env ds] by (simp add: exit_kept_def)

lemma interrupt_cfg: "sc_cfg (interrupt_running env reason s) = sc_cfg s"
  using interrupt_exit [of s env reason] by (simp add: exit_kept_def)

lemma exits_cfg:
  "sc_cfg (hard_stop env reason ds s) = sc_cfg s"
  "sc_cfg (failed_exit env ds s) = sc_cfg s"
  "sc_cfg (context_done env deadline msg ds s) = sc_cfg s"
proof -
  have "sc_cfg (rollback_undispatched t) = sc_cfg t" for t using rollback_exit [of t] by (simp add: exit_kept_def)
  then show "sc_cfg (hard_stop env reason ds s) = sc_cfg s"
    by (simp add: hard_stop_def finish_stopped_def Let_def prim_defs drain_cfg interrupt_cfg)
  show "sc_cfg (failed_exit env ds s) = sc_cfg s"
    by (simp add: failed_exit_def prim_defs drain_cfg interrupt_cfg)
  show "sc_cfg (context_done env deadline msg ds s) = sc_cfg s"
    by (simp add: context_done_def finish_for_context_error_def Let_def prim_defs drain_cfg interrupt_cfg)
qed

lemma exec_op_cfg: "sc_cfg (snd (exec_op eop m)) = sc_cfg (snd m)"
proof -
  obtain env op fs s where e: "eop = (env, op)" "m = (fs, s)" by (metis prod.exhaust)
  have frame: "sc_cfg (fst (exec_frame env f s)) = sc_cfg s" for f using exec_frame_pool [of s env f] by (simp add: pool_kept_def)
  have result: "sc_cfg (fst (handle_result env item res partial (s\<lparr>sc_in_flight := x\<rparr>))) = sc_cfg s" for item res partial x
    using handle_result_pool [of "s\<lparr>sc_in_flight := x\<rparr>" env item res partial] by (simp add: pool_kept_def)
  have control: "sc_cfg (fst (apply_graceful_signal env sig s)) = sc_cfg s" "sc_cfg (fst (cancel_graceful_signal env r s)) = sc_cfg s" for sig r
    using quiet_control(1,2) [OF pool_kept_refl [of s]] by (simp_all add: pool_kept_def)
  have drained: "sc_cfg t = sc_cfg s \<Longrightarrow> sc_cfg (snd (when_drained s t)) = sc_cfg s" for t by (simp add: when_drained_def)
  have "sc_cfg (snd (run_call env (fs, s))) = sc_cfg s"
    using frame by (auto simp: run_call_def case_prod_beta split: list.split)
  moreover have "sc_cfg (snd (loop_step env op s)) = sc_cfg s"
    using result control
    by (auto simp: loop_step_def dispatch_def swap_frames_def handle_session_opened_def Let_def prim_defs drained exits_cfg settle_cfg
        split: sched_op.split control_signal.split option.split)
  ultimately show ?thesis by (auto simp: exec_op_def e drained exits_cfg split: sched_op.split)
qed

lemma run_cfg: "sc_cfg (snd (fold exec_op ops m)) = sc_cfg (snd m)"
  by (induction ops arbitrary: m) (simp_all add: exec_op_cfg)

lemma start_run_cfg: "sc_cfg (snd (start_run env run)) = effective_config run"
  by (simp add: start_run_def Let_def)

lemma run_ok: "fresh_run run \<Longrightarrow> sched_ok (snd (fold exec_op ops (start_run env run)))"
  using sched.run_invar [of "start_run env run" ops] by (auto simp: started_def machine_ok_def)

subsection \<open>Invariants of every run\<close>

text \<open>C1: In every state a run reaches, no instance is recorded twice, and the progress counters shown to
  the user (completed, failed, skipped, interrupted, running) are exactly the numbers of instances
  with each status.\<close>

theorem run_counters_exact:
  assumes "fresh_run run"
  shows "case snd (fold exec_op ops (start_run env run)) of s \<Rightarrow>
    distinct (akeys (sc_instances s)) \<and>
    (\<exists>p. gr_progress (sc_run s) = Some p
       \<and> gp_completed p = int (acount (has_status InstSucceeded) (sc_instances s))
       \<and> gp_failed p = int (acount (has_status InstFailed) (sc_instances s))
       \<and> gp_skipped p = int (acount (has_status InstSkipped) (sc_instances s))
       \<and> gp_interrupted p = int (acount (has_status InstInterrupted) (sc_instances s))
       \<and> gp_running p = int (acount (has_status InstRunning) (sc_instances s)))"
  using run_ok [OF assms, of ops env]
  by (auto simp: sched_ok_def counts_ok_def counters_match_def split: option.splits)

theorem run_counters_exact_witness:
  "distinct (akeys (sc_instances (snd (fold exec_op late_run (start_run demo_env (demo_run solo))))))"
  using run_counters_exact [OF solo_fresh, of late_run demo_env] by simp

text \<open>C2: A run stays within its limits in every state it reaches: never more workers than the concurrency
  limit, which is at most 16; never more instances than the instance limit unless the run has
  failed, and a failed run is recorded as failed; and no loop activation runs more rounds than its
  bound.\<close>

theorem run_bounded:
  assumes "fresh_run run"
  shows "case (snd (fold exec_op ops (start_run env run)), gc_run_config (effective_config run)) of (s, rc) \<Rightarrow>
    int (length (sc_in_flight s)) \<le> concurrency_limit (rc_concurrency_limit rc)
    \<and> concurrency_limit (rc_concurrency_limit rc) \<le> 16
    \<and> (int (length (sc_instances s)) \<le> effective_instance_limit rc \<or> sc_failed s \<and> gr_status (sc_run s) = RunFailed)
    \<and> (\<forall>i. sr_container (sc_scopes s i) \<noteq> [] \<longrightarrow> sr_rounds_run (sc_scopes s i) \<le> loop_max_rounds rc (sr_loop_node (sc_scopes s i)))"
  using run_ok [OF assms, of ops env]
  by (auto simp: sched_ok_def counts_ok_def within_limit_def loops_ok_def loop_in_bounds_def pool_ok_def run_cfg start_run_cfg
      concurrency_limit_def)

theorem run_bounded_witness:
  "int (length (sc_in_flight (snd (fold exec_op late_run (start_run demo_env (demo_run solo)))))) \<le> 16"
  using run_bounded [OF solo_fresh, of late_run demo_env] by simp



subsection \<open>A successor that runs twice\<close>

text \<open>C28: A loop of one round whose body is a loop of no rounds passes the validator, and its run dispatches
  the loop's successor twice: the inner loop ends while the outer loop's round is still being
  started, the round then ends, and the check at the end of the round's start ends it again. Both
  workers run the same instance at the same time.\<close>

theorem nested_loop_runs_successor_twice:
  "validate_config nested = [] \<and>
   map (instance_key_string \<circ> ri_key) (sc_in_flight (snd (fold exec_op
     (replicate 12 (demo_env, OpCall) @ replicate 2 (demo_env, OpDispatch)) (start_run demo_env (demo_run nested))))) = [''w'', ''w'']"
proof
  show "validate_config nested = []" by code_simp
qed (rule nested_runs_successor_twice)

end
