(* ===== verification/GraphDecisions.thy ===== *)
theory GraphDecisions
  imports GraphTrace
begin

section \<open>What a single decision guarantees\<close>

text \<open>
  Joins, dispatch, failure and the ways a run can end: properties of the handlers that hold in any
  state, whatever came before.
\<close>

subsection \<open>Joins\<close>

text \<open>An arrival at a node: the edge, whether it is active, and what an active edge contributes.\<close>

type_synonym arrival = "graph_edge \<times> bool \<times> upstream"

definition record_arrival :: "sched_env \<Rightarrow> nat \<Rightarrow> arrival \<Rightarrow> sched \<Rightarrow> sched" where
  "record_arrival env i a s = (case a of (e, active, contrib) \<Rightarrow> record_edge env i e active contrib s)"

definition resolve_arrival :: "sched_env \<Rightarrow> nat \<Rightarrow> arrival \<Rightarrow> sched \<Rightarrow> sched \<times> frame list" where
  "resolve_arrival env i a s = (case a of (e, active, contrib) \<Rightarrow> resolve_edge env i e active contrib s)"

definition active_inputs :: "arrival list \<Rightarrow> upstream list" where
  "active_inputs as = map (\<lambda>(e, active, contrib). contrib) (filter (\<lambda>(e, active, contrib). active) as)"

lemma active_inputs_snoc:
  "active_inputs (as @ [(e, active, contrib)]) = active_inputs as @ (if active then [contrib] else [])"
  by (simp add: active_inputs_def)

definition join_key :: "sched \<Rightarrow> nat \<Rightarrow> string \<Rightarrow> instance_key" where
  "join_key s i t = scope_key (sr_prefix (scope_at s i)) t"

text \<open>The bookkeeping of one join after some arrivals.\<close>

definition join_recorded :: "sched \<Rightarrow> nat \<Rightarrow> string \<Rightarrow> arrival list \<Rightarrow> sched \<Rightarrow> bool" where
  "join_recorded s i t as u \<longleftrightarrow>
     (let k = instance_key_string (join_key s i t) in
      sc_scopes u = sc_scopes s \<and> sc_nodes u = sc_nodes s \<and> sc_in_degree u = sc_in_degree s
      \<and> contribs_at u k = active_inputs as
      \<and> remaining_at u k t = degree_of s t - int (length as)
      \<and> (k \<in> set (sc_any_active u) \<longleftrightarrow> active_inputs as \<noteq> []))"

lemma record_edge_fields:
  "sc_scopes (record_edge env i e active contrib u) = sc_scopes u" "sc_nodes (record_edge env i e active contrib u) = sc_nodes u"
  "sc_in_degree (record_edge env i e active contrib u) = sc_in_degree u"
  "contribs_at (record_edge env i e active contrib u) (instance_key_string (target_key u i e))
     = contribs_at u (instance_key_string (target_key u i e)) @ (if active then [contrib] else [])"
  "remaining_at (record_edge env i e active contrib u) (instance_key_string (target_key u i e)) (e_target e)
     = remaining_at u (instance_key_string (target_key u i e)) (e_target e) - 1"
  "instance_key_string (target_key u i e) \<in> set (sc_any_active (record_edge env i e active contrib u))
     \<longleftrightarrow> active \<or> instance_key_string (target_key u i e) \<in> set (sc_any_active u)"
  by (simp_all add: record_edge_def Let_def emit_def contribs_at_def remaining_at_def degree_of_def split: option.split)

lemma record_arrival_step:
  assumes "join_recorded s i t as u" "e_target e = t"
  shows "join_recorded s i t (as @ [(e, active, contrib)]) (record_arrival env i (e, active, contrib) u)"
proof -
  have "target_key u i e = join_key s i t" using assms by (simp add: join_recorded_def target_key_def join_key_def Let_def)
  then show ?thesis
    using assms record_edge_fields [where env = env and i = i and e = e and active = active and contrib = contrib and u = u]
    by (auto simp: join_recorded_def record_arrival_def Let_def active_inputs_snoc)
qed

definition fresh_join :: "sched \<Rightarrow> nat \<Rightarrow> string \<Rightarrow> bool" where
  "fresh_join s i t \<longleftrightarrow>
     (let k = instance_key_string (join_key s i t)
      in aget (sc_in_remaining s) k = None \<and> aget (sc_contribs s) k = None \<and> k \<notin> set (sc_any_active s))"

lemma record_arrivals:
  assumes "fresh_join s i t" "\<forall>a \<in> set as. e_target (fst a) = t"
  shows "join_recorded s i t as (fold (record_arrival env i) as s)"
  using assms(2)
proof (induction as rule: rev_induct)
  case Nil
  then show ?case
    using assms(1) by (auto simp: fresh_join_def join_recorded_def contribs_at_def remaining_at_def active_inputs_def Let_def degree_of_def)
next
  case (snoc a as)
  then show ?case using record_arrival_step by (cases a) auto
qed

lemma resolve_arrival_waits:
  assumes "join_recorded s i t as u" "e_target (fst a) = t" "int (length as) + 1 < degree_of s t"
  shows "resolve_arrival env i a u = (record_arrival env i a u, [])"
proof -
  obtain e active contrib where a: "a = (e, active, contrib)" by (metis prod.exhaust)
  have "join_recorded s i t (as @ [a]) (record_arrival env i a u)"
    using record_arrival_step assms a by simp
  then have "remaining_at (record_edge env i e active contrib u) (instance_key_string (target_key u i e)) (e_target e) > 0"
    using assms a by (simp add: join_recorded_def record_arrival_def join_key_def target_key_def Let_def)
  with a show ?thesis by (simp add: resolve_arrival_def record_arrival_def resolve_edge_def Let_def)
qed

lemma resolve_arrival_decides:
  assumes "join_recorded s i t as u" "e_target (fst a) = t" "degree_of s t = int (length as) + 1"
  shows "resolve_arrival env i a u =
    (case merge_visible_snapshots (active_inputs (as @ [a])) of
       (visible, writers) \<Rightarrow> decide env i (node_at s t) (join_key s i t) visible writers
          (pick_inflow_session (active_inputs (as @ [a]))) (record_arrival env i a u))"
proof -
  obtain e active contrib where a: "a = (e, active, contrib)" by (metis prod.exhaust)
  have r: "join_recorded s i t (as @ [a]) (record_arrival env i a u)"
    using record_arrival_step assms a by simp
  then have "\<not> remaining_at (record_edge env i e active contrib u) (instance_key_string (target_key u i e)) (e_target e) > 0"
    "node_at (record_edge env i e active contrib u) t = node_at s t"
    "contribs_at (record_edge env i e active contrib u) (instance_key_string (target_key u i e)) = active_inputs (as @ [a])"
    "target_key u i e = join_key s i t"
    using assms a by (simp_all add: join_recorded_def record_arrival_def join_key_def target_key_def Let_def node_at_def)
  with a assms(2) show ?thesis by (simp add: resolve_arrival_def record_arrival_def resolve_edge_def Let_def)
qed

text \<open>C18: A join is decided exactly once, when its last in-edge resolves. Every earlier in-edge is only
  recorded and leaves no work. The last one decides the node from the merged snapshots of the active
  in-edges alone, and prunes it when none is active; the decision's inputs are the same for every
  order in which the in-edges resolve.\<close>

theorem join_decides_on_last_input:
  assumes "fresh_join s i t" "\<forall>a \<in> set (as @ [b]). e_target (fst a) = t" "degree_of s t = int (length (as @ [b]))"
    and "distinct (map us_node (active_inputs (as @ [b])))"
  shows "(\<forall>n < length as. resolve_arrival env i (as ! n) (fold (record_arrival env i) (take n as) s)
        = (fold (record_arrival env i) (take (Suc n) as) s, []))
    \<and> (\<forall>cs. mset cs = mset (as @ [b]) \<longrightarrow> resolve_arrival env i b (fold (record_arrival env i) as s) =
        decide env i (node_at s t) (join_key s i t) (fst (merge_visible_snapshots (active_inputs cs)))
          (snd (merge_visible_snapshots (active_inputs cs))) (pick_inflow_session (active_inputs cs))
          (fold (record_arrival env i) (as @ [b]) s))
    \<and> (instance_key_string (join_key s i t) \<in> set (sc_any_active (fold (record_arrival env i) (as @ [b]) s))
        \<longleftrightarrow> active_inputs (as @ [b]) \<noteq> [])"
proof (intro conjI allI impI)
  fix n assume n: "n < length as"
  have "join_recorded s i t (take n as) (fold (record_arrival env i) (take n as) s)"
    by (rule record_arrivals [OF assms(1)]) (use assms(2) in \<open>auto dest: in_set_takeD\<close>)
  then have "resolve_arrival env i (as ! n) (fold (record_arrival env i) (take n as) s)
      = (record_arrival env i (as ! n) (fold (record_arrival env i) (take n as) s), [])"
    by (rule resolve_arrival_waits) (use assms n in auto)
  then show "resolve_arrival env i (as ! n) (fold (record_arrival env i) (take n as) s)
      = (fold (record_arrival env i) (take (Suc n) as) s, [])"
    using n by (simp add: take_Suc_conv_app_nth)
next
  fix cs assume "mset cs = mset (as @ [b])"
  then have perm: "mset (active_inputs (as @ [b])) = mset (active_inputs cs)"
    unfolding active_inputs_def mset_map mset_filter by simp
  have "join_recorded s i t as (fold (record_arrival env i) as s)"
    by (rule record_arrivals [OF assms(1)]) (use assms(2) in auto)
  from resolve_arrival_decides [OF this, of b env] assms(2,3)
    merge_arrival_order [OF perm assms(4)] pick_arrival_order [OF perm assms(4)]
  show "resolve_arrival env i b (fold (record_arrival env i) as s) =
      decide env i (node_at s t) (join_key s i t) (fst (merge_visible_snapshots (active_inputs cs)))
        (snd (merge_visible_snapshots (active_inputs cs))) (pick_inflow_session (active_inputs cs))
        (fold (record_arrival env i) (as @ [b]) s)"
    by (simp add: case_prod_beta)
qed (use record_arrivals [OF assms(1,2), of env] in \<open>simp add: join_recorded_def Let_def\<close>)

theorem join_decides_on_last_input_witness:
  "resolve_arrival demo_env 0 (mk_edge ''1'' ''s'' ''w'', True, empty_upstream) (just_started solo) =
     decide demo_env 0 (node_at (just_started solo) ''w'') (join_key (just_started solo) 0 ''w'')
       (fst (merge_visible_snapshots [empty_upstream])) (snd (merge_visible_snapshots [empty_upstream]))
       (pick_inflow_session [empty_upstream])
       (record_arrival demo_env 0 (mk_edge ''1'' ''s'' ''w'', True, empty_upstream) (just_started solo))"
proof -
  let ?b = "(mk_edge ''1'' ''s'' ''w'', True, empty_upstream)"
  have "fresh_join (just_started solo) 0 ''w''" by (simp add: fresh_join_def just_started_def Let_def)
  moreover have "degree_of (just_started solo) ''w'' = 1" by (simp add: degree_of_def just_started_def solo_lookups)
  ultimately show ?thesis
    using join_decides_on_last_input [of "just_started solo" 0 "''w''" "[]" ?b demo_env]
    by (simp add: active_inputs_def mk_simps)
qed

subsection \<open>Dispatch\<close>

text \<open>C25: Dispatching either changes nothing, because no ready item may run or every worker slot is taken,
  or moves exactly one item to the workers: the first in the queue that may run, the others keeping
  their order. Under a step stop it is a member of the frozen batch; under a session stop it is not
  an agent that would open a new session.\<close>

theorem dispatch_takes_first_allowed:
  "dispatch s = s \<and> (\<forall>x \<in> set (sc_ready s). \<not> can_dispatch s x) \<or>
   dispatch s = s \<and> concurrency_limit (rc_concurrency_limit (gc_run_config (sc_cfg s))) \<le> int (length (sc_in_flight s)) \<or>
   (\<exists>pre item post. sc_ready s = pre @ item # post
      \<and> dispatch s = s\<lparr>sc_ready := pre @ post, sc_in_flight := sc_in_flight s @ [item]\<rparr>
      \<and> int (length (sc_in_flight s)) < concurrency_limit (rc_concurrency_limit (gc_run_config (sc_cfg s)))
      \<and> list_all (\<lambda>x. \<not> can_dispatch s x) pre
      \<and> (if sc_step_stop s then \<exists>b. sc_cur_batch s = Some b \<and> instance_key_string (ri_key item) \<in> set (akeys (rb_members b))
         else if sc_session_stop s \<and> is_agent (n_type (ri_node item))
         then nc_session_strategy (n_config (ri_node item)) = StrategyInherit
           \<or> resume_carry_session (ri_run item) (ri_key item) (ri_node item) \<noteq> []
         else True))"
proof (cases "next_dispatchable_index s")
  case None
  then have "dispatch s = s" "\<forall>x \<in> set (sc_ready s). \<not> can_dispatch s x"
    unfolding dispatch_def by (simp_all add: next_dispatchable_index_def flip: first_index_None)
  then show ?thesis by blast
next
  case (Some n)
  show ?thesis
  proof (cases "int (length (sc_in_flight s)) < concurrency_limit (rc_concurrency_limit (gc_run_config (sc_cfg s)))")
    case False
    with Some have "dispatch s = s" by (simp add: dispatch_def)
    with False show ?thesis by linarith
  next
    case True
    from Some have n: "n < length (sc_ready s)" "can_dispatch s (sc_ready s ! n)" "\<forall>x \<in> set (take n (sc_ready s)). \<not> can_dispatch s x"
      using first_index_Some by (auto simp: next_dispatchable_index_def)
    have "sc_ready s = take n (sc_ready s) @ sc_ready s ! n # drop (Suc n) (sc_ready s)"
      by (rule id_take_nth_drop [OF n(1)])
    moreover have "dispatch s = s\<lparr>sc_ready := take n (sc_ready s) @ drop (Suc n) (sc_ready s), sc_in_flight := sc_in_flight s @ [sc_ready s ! n]\<rparr>"
      using Some True by (simp add: dispatch_def remove_at_def)
    moreover have "if sc_step_stop s
        then \<exists>b. sc_cur_batch s = Some b \<and> instance_key_string (ri_key (sc_ready s ! n)) \<in> set (akeys (rb_members b))
        else if sc_session_stop s \<and> is_agent (n_type (ri_node (sc_ready s ! n)))
        then nc_session_strategy (n_config (ri_node (sc_ready s ! n))) = StrategyInherit
          \<or> resume_carry_session (ri_run (sc_ready s ! n)) (ri_key (sc_ready s ! n)) (ri_node (sc_ready s ! n)) \<noteq> []
        else True"
      using n(2) by (auto simp: can_dispatch_def akeys_aget_iff split: if_splits option.splits)
    ultimately show ?thesis using True n(3) unfolding list_all_iff by blast
  qed
qed

theorem dispatch_takes_first_allowed_witness: "dispatch (just_started solo) = just_started solo"
  using dispatch_takes_first_allowed [of "just_started solo"] by (auto simp: just_started_def)

subsection \<open>A worker that fails\<close>

definition silent :: node_outcome where
  "silent = \<lparr> no_output = [], no_produced = [], no_stop_loop = False, no_stop_workflow = False, no_session = [] \<rparr>"

lemma failed_frozen:
  assumes "sc_failed s" "\<forall>(env, op) \<in> set ops. \<forall>ds. op \<noteq> OpFailedExit ds"
  shows "fold exec_op ops ([], s) = ([], s)"
  using assms(2)
proof (induction ops)
  case (Cons eop ops)
  obtain env op where e: "eop = (env, op)" by (metis prod.exhaust)
  with Cons.prems have "exec_op eop ([], s) = ([], s)"
    using assms(1) by (auto simp: exec_op_def split: sched_op.split)
  with Cons show ?case by simp
qed simp

text \<open>C19: A worker's error fails the instance and the run, with the worker's message on both, and activates
  nothing downstream; from then on no result, signal or time-out changes anything until the loop
  leaves through its failure exit.\<close>

theorem worker_failure_fails_run:
  assumes "\<not> sc_failed s" "\<not> sc_exited s" "i < length (sc_in_flight s)" "\<forall>(env, op) \<in> set ops. \<forall>ds. op \<noteq> OpFailedExit ds"
  shows "case fold exec_op ((env, OpResult i (Inl message) partial) # ops) ([], s) of (fs, t) \<Rightarrow>
    fs = [] \<and> sc_failed t \<and> gr_status (sc_run t) = RunFailed \<and> sc_ready t = sc_ready s
    \<and> sc_in_flight t = remove_at i (sc_in_flight s) \<and> sc_edges t = sc_edges s
    \<and> map_option re_message (gr_last_error (sc_run t)) = Some message
    \<and> (case aget (sc_instances t) (instance_key_string (ri_key (sc_in_flight s ! i))) of None \<Rightarrow> False
       | Some st \<Rightarrow> is_status st = InstFailed \<and> map_option re_message (is_error st) = Some message)"
proof -
  let ?item = "sc_in_flight s ! i"
  let ?m = "exec_op (env, OpResult i (Inl message) partial) ([], s)"
  have step: "?m = ([], snd ?m) \<and> sc_failed (snd ?m) \<and> gr_status (sc_run (snd ?m)) = RunFailed \<and> sc_ready (snd ?m) = sc_ready s
      \<and> sc_in_flight (snd ?m) = remove_at i (sc_in_flight s) \<and> sc_edges (snd ?m) = sc_edges s
      \<and> map_option re_message (gr_last_error (sc_run (snd ?m))) = Some message
      \<and> (case aget (sc_instances (snd ?m)) (instance_key_string (ri_key ?item)) of None \<Rightarrow> False
         | Some st \<Rightarrow> is_status st = InstFailed \<and> map_option re_message (is_error st) = Some message)"
    using assms(1-3)
    by (simp add: exec_op_def loop_step_def swap_frames_def handle_result_def fail_instance_def Let_def prim_defs
        runtime_error_of_def update_run_progress_eq)
  obtain t where t: "?m = ([], t)" using step by metis
  note facts = step [unfolded t snd_conv]
  then have "fold exec_op ops ([], t) = ([], t)" using failed_frozen [OF _ assms(4)] by blast
  then have "fold exec_op ((env, OpResult i (Inl message) partial) # ops) ([], s) = ([], t)" using t by simp
  with facts show ?thesis by (simp only: prod.case)
qed

definition busy :: sched where
  "busy = (just_started solo)\<lparr>sc_in_flight := [\<lparr> ri_node = mk_node ''w'' NShell [] empty_node_config, ri_out_edges = [],
     ri_run = demo_run solo, ri_run_config = empty_run_config, ri_disabled = [], ri_key = scope_key [] ''w'',
     ri_visible = [], ri_writers = [], ri_scope = 0, ri_inflow = [], ri_loop_vars = [] \<rparr>]\<rparr>"

theorem worker_failure_fails_run_witness:
  "gr_status (sc_run (snd (fold exec_op [(demo_env, OpResult 0 (Inl ''exit 1'') silent), (demo_env, OpSettle)] ([], busy)))) = RunFailed"
proof -
  have "case fold exec_op [(demo_env, OpResult 0 (Inl ''exit 1'') silent), (demo_env, OpSettle)] ([], busy) of
      (fs, t) \<Rightarrow> gr_status (sc_run t) = RunFailed"
    using worker_failure_fails_run [of busy 0 "[(demo_env, OpSettle)]" "''exit 1''" demo_env silent] 
    by (simp add: busy_def just_started_def case_prod_beta del: fold_simps)
  then show ?thesis by (simp only: case_prod_beta)
qed

subsection \<open>A run can always end\<close>

lemma drain_all: "sc_in_flight (drain env (replicate (length (sc_in_flight s)) (DrainResult 0 outcome)) s) = []"
proof (induction "length (sc_in_flight s)" arbitrary: s)
  case (Suc n)
  let ?t = "let item = sc_in_flight s ! 0; s = s\<lparr>sc_in_flight := remove_at 0 (sc_in_flight s)\<rparr>
    in if is_agent (n_type (ri_node item)) then whitelist_agent_session env (first_non_empty [no_session outcome, ri_inflow item]) s else s"
  have "sc_in_flight ?t = remove_at 0 (sc_in_flight s)" by (simp add: Let_def)
  then have len: "length (sc_in_flight ?t) = n" using Suc(2) by (simp add: remove_at_def)
  have "drain env (replicate (length (sc_in_flight s)) (DrainResult 0 outcome)) s
      = drain env (replicate (length (sc_in_flight ?t)) (DrainResult 0 outcome)) ?t"
    using Suc(2) len by (simp flip: Suc(2))
  then show ?case using Suc(1) [of ?t] len by simp
qed simp

lemma hard_stop_leaves:
  "sc_in_flight (hard_stop env reason (replicate (length (sc_in_flight s)) (DrainResult 0 silent)) s) = []
   \<and> sc_exited (hard_stop env reason (replicate (length (sc_in_flight s)) (DrainResult 0 silent)) s)"
  using drain_all [of env "interrupt_running env (or_default reason ''hard stopped'') (s\<lparr>sc_stop_reason := or_default reason ''hard stopped''\<rparr>)" silent]
  by (simp add: hard_stop_def finish_stopped_def Let_def prim_defs)

lemma failed_exit_leaves:
  "sc_in_flight (failed_exit env (replicate (length (sc_in_flight s)) (DrainResult 0 silent)) s) = []
   \<and> sc_exited (failed_exit env (replicate (length (sc_in_flight s)) (DrainResult 0 silent)) s)"
  using drain_all [of env "interrupt_running env ''cancelled after graph run failure'' (snapshot_loop_state s)" silent]
  by (simp add: failed_exit_def prim_defs)

lemma settle_exits: "sc_exited (settle env s)"
  by (simp add: settle_def exit_loop_def)

lemma concurrency_limit_pos: "0 < concurrency_limit c"
  by (simp add: concurrency_limit_def)

text \<open>C21: The loop is never stuck between two handlers. It can always be ended by one step, a hard stop or, for
  a failed run, the failure exit; and a run that has not failed and has no worker in flight either
  dispatches a ready item or settles.\<close>

theorem run_never_stuck:
  assumes "\<not> sc_exited s"
  shows "(\<exists>op. sc_exited (snd (exec_op (env, op) ([], s)))) \<and>
    (\<not> sc_failed s \<and> sc_in_flight s = [] \<longrightarrow>
       (\<exists>op \<in> {OpDispatch, OpSettle}. sc_exited (snd (exec_op (env, op) ([], s))) \<or> sc_in_flight (snd (exec_op (env, op) ([], s))) \<noteq> []))"
proof (intro conjI impI)
  let ?ds = "replicate (length (sc_in_flight s)) (DrainResult 0 silent)"
  show "\<exists>op. sc_exited (snd (exec_op (env, op) ([], s)))"
  proof (cases "sc_failed s")
    case True
    then show ?thesis
      using assms failed_exit_leaves [of env s]
      by (intro exI [of _ "OpFailedExit ?ds"]) (simp add: exec_op_def when_drained_def)
  next
    case False
    then show ?thesis
      using assms hard_stop_leaves [of env "[]" s]
      by (intro exI [of _ "OpControl (CtrlHardStop []) ?ds"]) (simp add: exec_op_def loop_step_def when_drained_def)
  qed
next
  assume s: "\<not> sc_failed s \<and> sc_in_flight s = []"
  show "\<exists>op \<in> {OpDispatch, OpSettle}. sc_exited (snd (exec_op (env, op) ([], s))) \<or> sc_in_flight (snd (exec_op (env, op) ([], s))) \<noteq> []"
  proof (cases "has_dispatchable s")
    case True
    then have "sc_in_flight (dispatch s) \<noteq> []"
      using s concurrency_limit_pos by (auto simp: dispatch_def has_dispatchable_def)
    then show ?thesis using assms s by (auto simp: exec_op_def loop_step_def)
  next
    case False
    then show ?thesis using assms s settle_exits by (auto simp: exec_op_def loop_step_def)
  qed
qed

theorem run_never_stuck_witness: "\<exists>op. sc_exited (snd (exec_op (demo_env, op) ([], just_started solo)))"
  using run_never_stuck [of "just_started solo" demo_env] by (simp add: just_started_def)

subsection \<open>Instance keys\<close>

text \<open>C30: When no identifier contains a slash, two instances with the same key text are the same node in the
  same rounds, so that no two instances share an entry of the run's maps.\<close>

theorem instance_keys_identify_instances:
  assumes "slash_free k" "slash_free k'"
  shows "instance_key_string k = instance_key_string k' \<longleftrightarrow> k = k'"
  using instance_key_string_inject [OF assms] by blast

theorem instance_keys_identify_instances_witness:
  "instance_key_string (scope_key [\<lparr> li_loop_node = ''L'', li_index = 0 \<rparr>] ''b'') \<noteq> instance_key_string (scope_key [] ''b'')"
  using instance_keys_identify_instances [of "scope_key [\<lparr> li_loop_node = ''L'', li_index = 0 \<rparr>] ''b''" "scope_key [] ''b''"]
  by (simp add: slash_free_def scope_key_def)

end
