(* ===== verification/GraphEvents.thy ===== *)
theory GraphEvents
  imports Prelude
begin

section \<open>The event buffer of a live run\<close>

text \<open>
  \<open>services/graph/event_buffer.go\<close> and \<open>event_buffer_reader.go\<close>: an append-only log of events with
  several readers, each with its own cursor, and garbage collection behind the slowest cursor. Every
  method runs under the buffer's mutex, so each is one step here; a blocked \<open>Read\<close> is an attempt that
  finds nothing and is tried again when the buffer is signalled. Sequence numbers are Go's \<open>uint64\<close>,
  as naturals below \<open>2 ^ 64\<close> with the increment written modulo that bound. The iteration order of Go's
  map decides which of several equally slow readers is dropped: \<open>choice\<close> stands for it. Readers are
  shared mutable objects in the code: here a reader is a number, \<open>eb_handles\<close> its object and \<open>eb_live\<close>
  the set \<open>readers\<close> of the buffer. The garbage-collection counters and the log lines are left out.
\<close>

record 'e buffered_event =
  be_seq :: nat
  be_event :: 'e
  be_released :: bool

record graph_reader =
  rd_cursor :: nat
  rd_closed :: bool

record 'e event_buffer =
  eb_events :: "'e buffered_event list"
  eb_next :: nat
  eb_head :: nat
  eb_handles :: "(nat \<times> graph_reader) list"
  eb_live :: "nat list"
  eb_closed :: bool
  eb_terminal :: bool
  eb_suspended :: bool
  eb_suspended_at :: int
  eb_left_at :: "int option"

definition replay_gap_limit :: nat where "replay_gap_limit = 1000"
definition buffer_hardcap :: nat where "buffer_hardcap = 50000"
definition gc_grace_period :: int where "gc_grace_period = 30 * 10 ^ 9"
definition gc_suspension_timeout :: int where "gc_suspension_timeout = 300 * 10 ^ 9"
definition max_seq :: nat where "max_seq = 2 ^ 64 - 1"

definition new_buffer :: "'e event_buffer" where
  "new_buffer = \<lparr> eb_events = [], eb_next = 0, eb_head = 0, eb_handles = [], eb_live = [], eb_closed = False,
     eb_terminal = False, eb_suspended = False, eb_suspended_at = 0, eb_left_at = None \<rparr>"

definition reader_at :: "'e event_buffer \<Rightarrow> nat \<Rightarrow> graph_reader" where
  "reader_at b r = (case aget (eb_handles b) r of Some rd \<Rightarrow> rd | None \<Rightarrow> \<lparr> rd_cursor = 0, rd_closed = True \<rparr>)"

definition set_reader :: "nat \<Rightarrow> graph_reader \<Rightarrow> 'e event_buffer \<Rightarrow> 'e event_buffer" where
  "set_reader r rd b = b\<lparr>eb_handles := aput r rd (eb_handles b)\<rparr>"

definition cursors :: "'e event_buffer \<Rightarrow> nat list" where
  "cursors b = map (\<lambda>r. rd_cursor (reader_at b r)) (eb_live b)"

definition min_cursor :: "'e event_buffer \<Rightarrow> nat" where
  "min_cursor b = fold min (cursors b) max_seq"

subsection \<open>Garbage collection\<close>

definition mark_released :: "nat \<Rightarrow> 'e buffered_event list \<Rightarrow> 'e buffered_event list" where
  "mark_released c es = map (\<lambda>e. if be_seq e \<le> c then e\<lparr>be_released := True\<rparr> else e) es"

text \<open>The forced marking of the hard-cap guard stops at the first event some reader still needs.\<close>

fun force_release :: "nat \<Rightarrow> 'e buffered_event list \<Rightarrow> 'e buffered_event list \<times> nat" where
  "force_release c [] = ([], 0)"
| "force_release c (e # es) =
     (if be_seq e > c then (e # es, 0)
      else case force_release c es of (es', n) \<Rightarrow>
        if be_released e then (e # es', n) else (e\<lparr>be_released := True\<rparr> # es', Suc n))"

definition slowest :: "nat \<Rightarrow> 'e event_buffer \<Rightarrow> nat option" where
  "slowest choice b =
     (let stuck = filter (\<lambda>r. rd_cursor (reader_at b r) = min_cursor b \<and> rd_cursor (reader_at b r) < max_seq) (eb_live b)
      in if stuck = [] then None else Some (stuck ! (choice mod length stuck)))"

definition evict_slowest :: "nat \<Rightarrow> 'e event_buffer \<Rightarrow> 'e event_buffer" where
  "evict_slowest choice b =
     (case slowest choice b of
        None \<Rightarrow> b
      | Some r \<Rightarrow>
          let b = set_reader r ((reader_at b r)\<lparr>rd_closed := True\<rparr>) b;
              b = b\<lparr>eb_live := remove1 r (eb_live b)\<rparr>
          in b\<lparr>eb_events := fst (force_release (min_cursor b) (eb_events b))\<rparr>)"

definition hardcap_guard :: "nat \<Rightarrow> nat \<Rightarrow> 'e event_buffer \<Rightarrow> 'e event_buffer" where
  "hardcap_guard choice c b =
     (if length (eb_events b) \<le> buffer_hardcap then b
      else case force_release c (eb_events b) of (es, forced) \<Rightarrow>
        if forced > 0 then b\<lparr>eb_events := es\<rparr> else evict_slowest choice b)"

definition drop_released :: "'e event_buffer \<Rightarrow> 'e event_buffer" where
  "drop_released b =
     (let gone = takeWhile be_released (eb_events b)
      in if gone = [] then b
         else b\<lparr>eb_head := be_seq (last gone), eb_events := dropWhile be_released (eb_events b)\<rparr>)"

definition gc_waits_for_reader :: "int \<Rightarrow> 'e event_buffer \<Rightarrow> bool" where
  "gc_waits_for_reader now b \<longleftrightarrow> eb_suspended b \<and> eb_live b = [] \<and> length (eb_events b) \<le> buffer_hardcap
     \<and> now - eb_suspended_at b < gc_suspension_timeout"

definition gc_in_grace :: "int \<Rightarrow> 'e event_buffer \<Rightarrow> bool" where
  "gc_in_grace now b \<longleftrightarrow> eb_live b = [] \<and> length (eb_events b) \<le> buffer_hardcap
     \<and> (case eb_left_at b of Some t \<Rightarrow> now - t < gc_grace_period | None \<Rightarrow> False)"

definition gc_locked :: "int \<Rightarrow> nat \<Rightarrow> 'e event_buffer \<Rightarrow> 'e event_buffer" where
  "gc_locked now choice b =
     (if eb_terminal b \<or> gc_waits_for_reader now b then b
      else let b = (if eb_suspended b \<and> eb_live b = [] \<and> length (eb_events b) \<le> buffer_hardcap
                    then b\<lparr>eb_suspended := False\<rparr> else b)
           in if gc_in_grace now b then b
              else let c = min_cursor b;
                       b = b\<lparr>eb_events := mark_released c (eb_events b)\<rparr>
                   in drop_released (hardcap_guard choice c b))"

subsection \<open>The buffer's methods\<close>

definition publish :: "int \<Rightarrow> nat \<Rightarrow> 'e \<Rightarrow> 'e event_buffer \<Rightarrow> nat \<times> 'e event_buffer" where
  "publish now choice ev b =
     (if eb_closed b then (0, b)
      else let seq = (eb_next b + 1) mod 2 ^ 64;
               b = b\<lparr>eb_next := seq,
                     eb_events := eb_events b @ [\<lparr> be_seq = seq, be_event = ev, be_released = False \<rparr>]\<rparr>
           in (seq, gc_locked now choice b))"

definition mark_terminal :: "'e event_buffer \<Rightarrow> 'e event_buffer" where
  "mark_terminal b = b\<lparr>eb_terminal := True\<rparr>"

definition resume_gc :: "int \<Rightarrow> 'e event_buffer \<Rightarrow> 'e event_buffer" where
  "resume_gc now b =
     (let b = b\<lparr>eb_terminal := False\<rparr>
      in if eb_live b = [] then b\<lparr>eb_suspended := True, eb_suspended_at := now\<rparr> else b)"

definition close_buffer :: "'e event_buffer \<Rightarrow> 'e event_buffer" where
  "close_buffer b = b\<lparr>eb_closed := True, eb_events := []\<rparr>"

definition snapshot_seq :: "'e event_buffer \<Rightarrow> nat" where
  "snapshot_seq b = eb_next b"

definition subscribe :: "nat \<Rightarrow> 'e event_buffer \<Rightarrow> nat option \<times> 'e event_buffer" where
  "subscribe start b =
     (if eb_closed b \<or> start < eb_head b \<or> eb_next b < start \<or> eb_next b - start > replay_gap_limit then (None, b)
      else let r = length (eb_handles b);
               b = set_reader r \<lparr> rd_cursor = start, rd_closed = False \<rparr> b
           in (Some r, b\<lparr>eb_live := r # eb_live b, eb_left_at := None, eb_suspended := False\<rparr>))"

subsection \<open>The reader's methods\<close>

definition events_after :: "nat \<Rightarrow> 'e buffered_event list \<Rightarrow> 'e buffered_event list" where
  "events_after c es = dropWhile (\<lambda>e. be_seq e \<le> c) es"

datatype 'e read_result = ReadClosed | ReadBlocked | ReadEntries "(nat \<times> 'e) list"

definition try_read :: "nat \<Rightarrow> int \<Rightarrow> 'e event_buffer \<Rightarrow> 'e read_result \<times> 'e event_buffer" where
  "try_read r max_n b =
     (let rd = reader_at b r; n = nat (if max_n \<le> 0 then 1 else max_n)
      in if rd_closed rd \<or> eb_closed b then (ReadClosed, b)
         else if \<not> rd_cursor rd < eb_next b then (ReadBlocked, b)
         else let out = take n (events_after (rd_cursor rd) (eb_events b))
              in if out \<noteq> [] then (ReadEntries (map (\<lambda>e. (be_seq e, be_event e)) out), b)
                 else (ReadBlocked, set_reader r (rd\<lparr>rd_cursor := eb_next b\<rparr>) b))"

definition ack :: "int \<Rightarrow> nat \<Rightarrow> nat \<Rightarrow> nat \<Rightarrow> 'e event_buffer \<Rightarrow> 'e event_buffer" where
  "ack now choice r seq b =
     (let rd = reader_at b r;
          b = (if rd_cursor rd < seq then set_reader r (rd\<lparr>rd_cursor := seq\<rparr>) b else b)
      in gc_locked now choice b)"

definition close_reader :: "int \<Rightarrow> nat \<Rightarrow> nat \<Rightarrow> 'e event_buffer \<Rightarrow> 'e event_buffer" where
  "close_reader now choice r b =
     (let rd = reader_at b r
      in if rd_closed rd then b
         else let b = set_reader r (rd\<lparr>rd_closed := True\<rparr>) b;
                  b = b\<lparr>eb_live := remove1 r (eb_live b)\<rparr>;
                  b = (if eb_live b = [] \<and> \<not> eb_terminal b then b\<lparr>eb_left_at := Some now\<rparr> else b)
              in gc_locked now choice b)"

subsection \<open>The events kept, as a suffix of the history\<close>

text \<open>The events after position \<open>k\<close> of the history, with their sequence numbers.\<close>

definition log_from :: "nat \<Rightarrow> 'e list \<Rightarrow> (nat \<times> 'e) list" where
  "log_from k h = map (\<lambda>i. (Suc i, h ! i)) [k..<length h]"

definition kept :: "nat \<Rightarrow> 'e list \<Rightarrow> 'e buffered_event list" where
  "kept k h = map (\<lambda>(i, ev). \<lparr> be_seq = i, be_event = ev, be_released = False \<rparr>) (log_from k h)"

lemma log_from_end: "length h \<le> k \<Longrightarrow> log_from k h = []"
  by (simp add: log_from_def)

lemma log_from_step: "k < length h \<Longrightarrow> log_from k h = (Suc k, h ! k) # log_from (Suc k) h"
  by (simp add: log_from_def upt_conv_Cons)

lemma log_from_snoc: "k \<le> length h \<Longrightarrow> log_from k (h @ [ev]) = log_from k h @ [(Suc (length h), ev)]"
  by (simp add: log_from_def nth_append)

lemma kept_end: "length h \<le> k \<Longrightarrow> kept k h = []"
  by (simp add: kept_def log_from_end)

lemma kept_step: "k < length h \<Longrightarrow> kept k h = \<lparr> be_seq = Suc k, be_event = h ! k, be_released = False \<rparr> # kept (Suc k) h"
  by (simp add: kept_def log_from_step)

lemma kept_snoc: "k \<le> length h \<Longrightarrow> kept k (h @ [ev]) = kept k h @ [\<lparr> be_seq = Suc (length h), be_event = ev, be_released = False \<rparr>]"
  by (simp add: kept_def log_from_snoc)

lemma length_kept: "length (kept k h) = length h - k"
  by (simp add: kept_def log_from_def)

lemma kept_unreleased: "e \<in> set (kept k h) \<Longrightarrow> \<not> be_released e"
  by (auto simp: kept_def)

lemma kept_beyond: "e \<in> set (kept k h) \<Longrightarrow> k < be_seq e"
  by (auto simp: kept_def log_from_def)

text \<open>Walks along the kept events go by the distance to the end of the history.\<close>

lemma kept_induct [case_names end_reached step]:
  assumes "\<And>k. length h \<le> k \<Longrightarrow> P k" "\<And>k. k < length h \<Longrightarrow> P (Suc k) \<Longrightarrow> P k"
  shows "P k"
proof (induction "length h - k" arbitrary: k)
  case 0
  then show ?case using assms(1) by simp
next
  case (Suc n)
  then show ?case using assms(2) [of k] by simp
qed

lemma mark_nothing: "c \<le> k \<Longrightarrow> mark_released c (kept k h) = kept k h"
  by (auto simp: mark_released_def intro!: map_idI dest: kept_beyond)

lemma events_after_kept: "events_after c (kept k h) = kept (max k (min c (length h))) h"
proof (induction k rule: kept_induct [where h = h])
  case (end_reached k)
  then show ?case by (simp add: kept_end events_after_def)
next
  case (step k)
  show ?case
  proof (cases "Suc k \<le> c")
    case True
    then have "max k (min c (length h)) = max (Suc k) (min c (length h))" using step(1) by simp
    then show ?thesis using step True by (simp add: kept_step events_after_def)
  next
    case False
    then have "max k (min c (length h)) = k" by simp
    then show ?thesis using step(1) False by (simp add: kept_step events_after_def)
  qed
qed

lemma drop_marked: "dropWhile be_released (mark_released c (kept k h)) = kept (max k (min c (length h))) h"
proof (induction k rule: kept_induct [where h = h])
  case (end_reached k)
  then show ?case by (simp add: kept_end mark_released_def)
next
  case (step k)
  show ?case
  proof (cases "Suc k \<le> c")
    case True
    then have "max k (min c (length h)) = max (Suc k) (min c (length h))" using step(1) by simp
    then show ?thesis using step True by (simp add: kept_step mark_released_def)
  next
    case False
    then have "max k (min c (length h)) = k" "mark_released c (kept k h) = kept k h" by (simp_all add: mark_nothing)
    then show ?thesis using step(1) by (simp add: kept_step)
  qed
qed

lemma marked_prefix:
  "takeWhile be_released (mark_released c (kept k h)) = [] \<and> (c \<le> k \<or> length h \<le> k) \<or>
   takeWhile be_released (mark_released c (kept k h)) \<noteq> [] \<and> k < min c (length h)
     \<and> be_seq (last (takeWhile be_released (mark_released c (kept k h)))) = min c (length h)"
proof (induction k rule: kept_induct [where h = h])
  case (end_reached k)
  then show ?case by (simp add: kept_end mark_released_def)
next
  case (step k)
  show ?case
  proof (cases "Suc k \<le> c")
    case True
    then show ?thesis using step by (cases "Suc k = c") (auto simp: kept_step mark_released_def kept_end)
  next
    case False
    then have "mark_released c (kept k h) = kept k h" by (simp add: mark_nothing)
    then show ?thesis using step(1) False by (simp add: kept_step)
  qed
qed

lemma force_release_marked:
  "c \<le> d \<Longrightarrow> fst (force_release d (mark_released c (kept k h))) = mark_released d (kept k h)
     \<and> (c = d \<longrightarrow> snd (force_release d (mark_released c (kept k h))) = 0)"
proof (induction k rule: kept_induct [where h = h])
  case (end_reached k)
  then show ?case by (simp add: kept_end mark_released_def)
next
  case (step k)
  show ?case
  proof (cases "Suc k \<le> d")
    case True
    then show ?thesis
      using step by (cases "Suc k \<le> c") (auto simp: kept_step mark_released_def case_prod_beta)
  next
    case False
    then have "mark_released c (kept k h) = kept k h" "mark_released d (kept k h) = kept k h"
      using step(3) by (simp_all add: mark_nothing)
    then show ?thesis using step(1) False by (simp add: kept_step)
  qed
qed

subsection \<open>The invariant\<close>

text \<open>The parts of the invariant that do not mention the events.\<close>

definition readers_ok :: "'e list \<Rightarrow> 'e event_buffer \<Rightarrow> bool" where
  "readers_ok h b \<longleftrightarrow> eb_next b = length h \<and> eb_head b \<le> length h
     \<and> akeys (eb_handles b) = [0..<length (eb_handles b)] \<and> distinct (eb_live b)
     \<and> (\<forall>r. r \<in> set (eb_live b) \<longleftrightarrow> r < length (eb_handles b) \<and> \<not> rd_closed (reader_at b r))
     \<and> (\<forall>r \<in> set (eb_live b). eb_head b \<le> rd_cursor (reader_at b r))"

definition retained :: "'e list \<Rightarrow> 'e event_buffer \<Rightarrow> 'e buffered_event list" where
  "retained h b = (if eb_closed b then [] else kept (eb_head b) h)"

definition buffer_ok :: "'e list \<Rightarrow> 'e event_buffer \<Rightarrow> bool" where
  "buffer_ok h b \<longleftrightarrow> readers_ok h b \<and> eb_events b = retained h b"

text \<open>A buffer whose events up to \<open>c\<close> are marked; no live reader needs them.\<close>

definition marked :: "'e list \<Rightarrow> nat \<Rightarrow> 'e event_buffer \<Rightarrow> bool" where
  "marked h c b \<longleftrightarrow> readers_ok h b \<and> eb_events b = mark_released c (retained h b)
     \<and> (\<forall>r \<in> set (eb_live b). c \<le> rd_cursor (reader_at b r))"

lemma fold_min_le: "fold min xs m \<le> m" "x \<in> set xs \<Longrightarrow> fold min xs m \<le> x" for m :: nat
proof (induction xs arbitrary: m)
  case (Cons y xs)
  { case 1 show ?case using Cons.IH(1) [of "min y m"] by simp }
  { case 2 show ?case using 2 Cons.IH(1) [of "min y m"] Cons.IH(2) [of "min y m"] by auto }
qed simp_all

lemma fold_min_ge: "c \<le> m \<Longrightarrow> \<forall>x \<in> set xs. c \<le> x \<Longrightarrow> c \<le> fold min xs m" for m :: nat
  by (induction xs arbitrary: m) simp_all

lemma min_cursor_le: "r \<in> set (eb_live b) \<Longrightarrow> min_cursor b \<le> rd_cursor (reader_at b r)"
  by (simp add: min_cursor_def cursors_def fold_min_le)

lemma reader_at_set [simp]: "reader_at (set_reader r rd b) r' = (if r' = r then rd else reader_at b r')"
  by (simp add: reader_at_def set_reader_def)

lemma reader_at_fields [simp]:
  "reader_at (b\<lparr>eb_events := es\<rparr>) r = reader_at b r" "reader_at (b\<lparr>eb_head := n\<rparr>) r = reader_at b r"
  "reader_at (b\<lparr>eb_live := rs\<rparr>) r = reader_at b r" "reader_at (b\<lparr>eb_suspended := x\<rparr>) r = reader_at b r"
  "reader_at (b\<lparr>eb_left_at := t\<rparr>) r = reader_at b r" "reader_at (b\<lparr>eb_next := n\<rparr>) r = reader_at b r"
  "reader_at (b\<lparr>eb_terminal := x\<rparr>) r = reader_at b r" "reader_at (b\<lparr>eb_closed := x\<rparr>) r = reader_at b r"
  "reader_at (b\<lparr>eb_suspended_at := i\<rparr>) r = reader_at b r"
  by (simp_all add: reader_at_def)

lemma set_reader_fields [simp]:
  "eb_events (set_reader r rd b) = eb_events b" "eb_next (set_reader r rd b) = eb_next b" "eb_head (set_reader r rd b) = eb_head b"
  "eb_live (set_reader r rd b) = eb_live b" "eb_closed (set_reader r rd b) = eb_closed b" "eb_terminal (set_reader r rd b) = eb_terminal b"
  "eb_suspended (set_reader r rd b) = eb_suspended b" "eb_left_at (set_reader r rd b) = eb_left_at b"
  "eb_handles (set_reader r rd b) = aput r rd (eb_handles b)" "retained h (set_reader r rd b) = retained h b"
  by (simp_all add: set_reader_def retained_def)

lemma handles_known:
  assumes "akeys m = [0..<length m]" "r < length m"
  shows "akeys (aput r rd m) = [0..<length m] \<and> length (aput r rd m) = length m"
  using akeys_aput_known [OF assms(1), of r rd] akeys_length [OF akeys_aput_known [OF assms(1), of r rd]] assms(2) by simp

text \<open>Closing a live reader, and moving a reader's cursor forward.\<close>

lemma readers_ok_close:
  assumes "readers_ok h b" "r \<in> set (eb_live b)"
  shows "readers_ok h ((set_reader r ((reader_at b r)\<lparr>rd_closed := True\<rparr>) b)\<lparr>eb_live := remove1 r (eb_live b)\<rparr>)"
proof -
  have r: "r < length (eb_handles b)" "distinct (eb_live b)" "akeys (eb_handles b) = [0..<length (eb_handles b)]"
    using assms by (auto simp: readers_ok_def)
  from handles_known [OF r(3,1)] assms r(2) show ?thesis by (auto simp: readers_ok_def)
qed

lemma readers_ok_forward:
  assumes "readers_ok h b" "r < length (eb_handles b)" "rd_cursor (reader_at b r) \<le> c"
  shows "readers_ok h (set_reader r ((reader_at b r)\<lparr>rd_cursor := c\<rparr>) b)"
proof -
  have "akeys (eb_handles b) = [0..<length (eb_handles b)]" using assms(1) by (simp add: readers_ok_def)
  moreover have "\<not> rd_closed (reader_at b r) \<longrightarrow> eb_head b \<le> c"
    using assms unfolding readers_ok_def by (meson order_trans)
  ultimately show ?thesis
    using handles_known [OF _ assms(2)] assms(1) by (auto simp: readers_ok_def)
qed

lemma readers_ok_fields [simp]:
  "readers_ok h (b\<lparr>eb_events := es\<rparr>) = readers_ok h b" "readers_ok h (b\<lparr>eb_suspended := x\<rparr>) = readers_ok h b"
  "readers_ok h (b\<lparr>eb_left_at := t\<rparr>) = readers_ok h b" "readers_ok h (b\<lparr>eb_terminal := x\<rparr>) = readers_ok h b"
  "readers_ok h (b\<lparr>eb_closed := x\<rparr>) = readers_ok h b" "readers_ok h (b\<lparr>eb_suspended_at := i\<rparr>) = readers_ok h b"
  by (simp_all add: readers_ok_def)

lemma drop_marked_ok:
  assumes "marked h c b"
  shows "buffer_ok h (drop_released b)"
proof (cases "eb_closed b")
  case True
  with assms have "eb_events b = []" by (simp add: marked_def retained_def mark_released_def)
  with assms True show ?thesis by (simp add: drop_released_def marked_def buffer_ok_def retained_def)
next
  case False
  let ?k = "eb_head b" and ?es = "eb_events b"
  from assms False have es: "?es = mark_released c (kept ?k h)" by (simp add: marked_def retained_def)
  have rest: "dropWhile be_released ?es = kept (max ?k (min c (length h))) h" by (simp add: es drop_marked)
  show ?thesis
  proof (cases "takeWhile be_released ?es = []")
    case True
    then have "c \<le> ?k \<or> length h \<le> ?k" using marked_prefix [of c ?k h] es by simp
    then have "?es = kept ?k h"
    proof
      assume "length h \<le> ?k"
      then show ?thesis using es by (simp add: kept_end mark_released_def)
    qed (simp add: es mark_nothing)
    with True assms False show ?thesis by (simp add: drop_released_def marked_def buffer_ok_def retained_def)
  next
    case nonempty: False
    then have "?k < min c (length h)" "be_seq (last (takeWhile be_released ?es)) = min c (length h)"
      using marked_prefix [of c ?k h] es by auto
    with nonempty rest assms False show ?thesis
      by (auto simp: drop_released_def marked_def buffer_ok_def retained_def readers_ok_def Let_def)
  qed
qed

lemma slowest_live: "slowest choice b = Some r \<Longrightarrow> r \<in> set (eb_live b)"
proof -
  define stuck where "stuck = filter (\<lambda>r. rd_cursor (reader_at b r) = min_cursor b \<and> rd_cursor (reader_at b r) < max_seq) (eb_live b)"
  assume "slowest choice b = Some r"
  then have r: "stuck \<noteq> []" "r = stuck ! (choice mod length stuck)"
    unfolding slowest_def Let_def stuck_def [symmetric] by (simp_all split: if_splits)
  from r(1) have "choice mod length stuck < length stuck" by simp
  then have "r \<in> set stuck" unfolding r(2) by (rule nth_mem)
  then show ?thesis unfolding stuck_def by simp
qed

lemma min_cursor_fields [simp]: "min_cursor (b\<lparr>eb_events := es\<rparr>) = min_cursor b"
  by (simp add: min_cursor_def cursors_def)

text \<open>After the first marking there is nothing left to force: the guard goes on to the slowest reader.\<close>

lemma forced_marked:
  assumes "marked h c b" "c \<le> d"
  shows "fst (force_release d (eb_events b)) = mark_released d (retained h b)"
    and "c = d \<Longrightarrow> snd (force_release d (eb_events b)) = 0"
  using assms(1) force_release_marked [OF assms(2), of "eb_head b" h] by (auto simp: marked_def retained_def mark_released_def)

lemma guard_unmarked:
  assumes "marked h (min_cursor b) b"
  shows "hardcap_guard choice (min_cursor b) b = (if length (eb_events b) \<le> buffer_hardcap then b else evict_slowest choice b)"
  using forced_marked(2) [OF assms order_refl refl] by (simp add: hardcap_guard_def case_prod_beta)

lemma evict_marked:
  assumes "marked h (min_cursor b) b"
  shows "marked h (min_cursor (evict_slowest choice b)) (evict_slowest choice b)"
proof (cases "slowest choice b")
  case None
  with assms show ?thesis by (simp add: evict_slowest_def)
next
  case (Some r)
  note live = slowest_live [OF Some]
  let ?b = "(set_reader r ((reader_at b r)\<lparr>rd_closed := True\<rparr>) b)\<lparr>eb_live := remove1 r (eb_live b)\<rparr>"
  let ?d = "min_cursor ?b"
  have "distinct (eb_live b)" using assms by (simp add: marked_def readers_ok_def)
  then have "min_cursor b \<le> ?d"
    unfolding min_cursor_def cursors_def by (intro fold_min_ge) (auto simp: fold_min_le)
  have "marked h ?d (?b\<lparr>eb_events := fst (force_release ?d (eb_events b))\<rparr>)"
    using readers_ok_close [OF _ live, of h] assms forced_marked(1) [OF assms \<open>min_cursor b \<le> ?d\<close>] min_cursor_le [of _ ?b]
    by (simp add: marked_def) (simp add: retained_def)
  then show ?thesis using Some by (simp add: evict_slowest_def Let_def)
qed

lemma guard_marked:
  "marked h (min_cursor b) b \<Longrightarrow> marked h (min_cursor (hardcap_guard choice (min_cursor b) b)) (hardcap_guard choice (min_cursor b) b)"
  using evict_marked [of h b choice] by (cases "length (eb_events b) \<le> buffer_hardcap") (simp_all add: guard_unmarked)

lemma gc_ok: "buffer_ok h b \<Longrightarrow> buffer_ok h (gc_locked now choice b)"
proof -
  assume ok: "buffer_ok h b"
  define b1 where "b1 = (if eb_suspended b \<and> eb_live b = [] \<and> length (eb_events b) \<le> buffer_hardcap then b\<lparr>eb_suspended := False\<rparr> else b)"
  have ok1: "buffer_ok h b1" using ok by (auto simp: b1_def buffer_ok_def readers_ok_def retained_def)
  let ?b2 = "b1\<lparr>eb_events := mark_released (min_cursor b1) (eb_events b1)\<rparr>"
  have "marked h (min_cursor b1) ?b2"
    using ok1 min_cursor_le [of _ b1] by (auto simp: marked_def buffer_ok_def readers_ok_def retained_def)
  then have "marked h (min_cursor (hardcap_guard choice (min_cursor b1) ?b2)) (hardcap_guard choice (min_cursor b1) ?b2)"
    using guard_marked [of h ?b2] by simp
  from drop_marked_ok [OF this] show ?thesis
    using ok ok1 by (auto simp: gc_locked_def b1_def [symmetric] Let_def)
qed

subsection \<open>Every method keeps it\<close>

datatype 'e buffer_op =
    BPublish int nat 'e | BTerminal | BResume int | BClose | BSubscribe nat | BRead nat int
  | BAck int nat nat nat | BCloseReader int nat nat

text \<open>One method call, with the history of published events beside the buffer.\<close>

definition exec_buffer :: "'e buffer_op \<Rightarrow> 'e list \<times> 'e event_buffer \<Rightarrow> 'e list \<times> 'e event_buffer" where
  "exec_buffer op hb =
     (case hb of (h, b) \<Rightarrow>
        case op of
          BPublish now choice ev \<Rightarrow> (if eb_closed b then h else h @ [ev], snd (publish now choice ev b))
        | BTerminal \<Rightarrow> (h, mark_terminal b)
        | BResume now \<Rightarrow> (h, resume_gc now b)
        | BClose \<Rightarrow> (h, close_buffer b)
        | BSubscribe start \<Rightarrow> (h, snd (subscribe start b))
        | BRead r n \<Rightarrow> (h, snd (try_read r n b))
        | BAck now choice r seq \<Rightarrow> (h, ack now choice r seq b)
        | BCloseReader now choice r \<Rightarrow> (h, close_reader now choice r b))"

lemma publish_ok:
  assumes "buffer_ok h b" "\<not> eb_closed b" "length h < max_seq"
  shows "buffer_ok (h @ [ev]) (snd (publish now choice ev b))"
proof -
  have "(eb_next b + 1) mod 2 ^ 64 = Suc (length h)"
    using assms by (simp add: buffer_ok_def readers_ok_def max_seq_def)
  moreover have "buffer_ok (h @ [ev]) (b\<lparr>eb_next := Suc (length h),
      eb_events := eb_events b @ [\<lparr> be_seq = Suc (length h), be_event = ev, be_released = False \<rparr>]\<rparr>)"
    using assms(1,2) by (auto simp: buffer_ok_def readers_ok_def retained_def kept_snoc)
  ultimately show ?thesis using assms(2) gc_ok by (simp add: publish_def Let_def)
qed

lemma subscribe_ok:
  assumes "buffer_ok h b"
  shows "buffer_ok h (snd (subscribe start b))"
proof -
  let ?n = "length (eb_handles b)"
  have keys: "akeys (eb_handles b) = [0..<?n]" using assms by (simp add: buffer_ok_def readers_ok_def)
  have grown: "akeys (aput ?n rd (eb_handles b)) = [0..<Suc ?n] \<and> length (aput ?n rd (eb_handles b)) = Suc ?n" for rd
    using akeys_aput_fresh [OF keys, of ?n rd] akeys_length [OF akeys_aput_fresh [OF keys, of ?n rd]] by simp
  have "?n \<notin> set (eb_live b)" using assms by (auto simp: buffer_ok_def readers_ok_def)
  with assms grown show ?thesis
    by (auto simp: subscribe_def buffer_ok_def readers_ok_def retained_def Let_def less_Suc_eq)
qed

lemma read_ok:
  assumes "buffer_ok h b"
  shows "buffer_ok h (snd (try_read r n b))"
proof (cases "r < length (eb_handles b)")
  case True
  with assms have "readers_ok h (set_reader r ((reader_at b r)\<lparr>rd_cursor := eb_next b\<rparr>) b)"
    if "rd_cursor (reader_at b r) < eb_next b"
    using that by (intro readers_ok_forward) (auto simp: buffer_ok_def)
  with assms show ?thesis by (auto simp: try_read_def Let_def buffer_ok_def)
next
  case False
  then have "aget (eb_handles b) r = None" using assms aget_by_keys [of "eb_handles b"] by (auto simp: buffer_ok_def readers_ok_def)
  then have "rd_closed (reader_at b r)" by (simp add: reader_at_def)
  with assms show ?thesis by (simp add: try_read_def Let_def)
qed

lemma ack_ok:
  assumes "buffer_ok h b" "r < length (eb_handles b)"
  shows "buffer_ok h (ack now choice r seq b)"
proof -
  have "readers_ok h (set_reader r ((reader_at b r)\<lparr>rd_cursor := seq\<rparr>) b)" if "rd_cursor (reader_at b r) < seq"
    using assms that by (intro readers_ok_forward) (auto simp: buffer_ok_def)
  with assms(1) have "buffer_ok h (if rd_cursor (reader_at b r) < seq then set_reader r ((reader_at b r)\<lparr>rd_cursor := seq\<rparr>) b else b)"
    by (simp add: buffer_ok_def)
  then show ?thesis unfolding ack_def Let_def by (rule gc_ok)
qed

lemma close_reader_ok:
  assumes "buffer_ok h b"
  shows "buffer_ok h (close_reader now choice r b)"
proof (cases "rd_closed (reader_at b r)")
  case False
  then have "aget (eb_handles b) r \<noteq> None" by (auto simp: reader_at_def split: option.splits)
  then have "r \<in> set (eb_live b)"
    using assms False aget_by_keys [of "eb_handles b" _ r] by (auto simp: buffer_ok_def readers_ok_def)
  with assms readers_ok_close [of h b r] False show ?thesis
    unfolding close_reader_def Let_def
    by (simp only: if_False) (rule gc_ok, auto simp: buffer_ok_def retained_def)
qed (use assms in \<open>simp add: close_reader_def Let_def\<close>)

lemma quiet_ok:
  assumes "buffer_ok h b"
  shows "buffer_ok h (mark_terminal b)" "buffer_ok h (resume_gc now b)" "buffer_ok h (close_buffer b)"
  using assms by (auto simp: buffer_ok_def retained_def mark_terminal_def resume_gc_def close_buffer_def Let_def)

text \<open>Handlers hold readers that \<open>Subscribe\<close> gave out; an acknowledgement names one of them.\<close>

definition exec_issued :: "'e buffer_op \<Rightarrow> 'e list \<times> 'e event_buffer \<Rightarrow> 'e list \<times> 'e event_buffer" where
  "exec_issued op hb =
     (case op of BAck now choice r seq \<Rightarrow> if r < length (eb_handles (snd hb)) then exec_buffer op hb else hb
      | _ \<Rightarrow> exec_buffer op hb)"

definition fresh_buffer :: "'e list \<times> 'e event_buffer \<Rightarrow> bool" where
  "fresh_buffer hb \<longleftrightarrow> hb = ([], new_buffer)"

definition buffer_invar :: "'e list \<times> 'e event_buffer \<Rightarrow> bool" where
  "buffer_invar hb \<longleftrightarrow> (length (fst hb) \<le> max_seq \<longrightarrow> buffer_ok (fst hb) (snd hb))"

lemma new_buffer_ok: "fresh_buffer hb \<Longrightarrow> buffer_invar hb"
  by (auto simp: fresh_buffer_def buffer_invar_def new_buffer_def buffer_ok_def readers_ok_def retained_def kept_end akeys_def
      reader_at_def)

lemma exec_buffer_ok: "buffer_invar hb \<Longrightarrow> buffer_invar (exec_issued op hb)"
proof -
  assume inv: "buffer_invar hb"
  obtain h b where hb: "hb = (h, b)" by fastforce
  have publish: "length (h @ [ev]) \<le> max_seq \<Longrightarrow> \<not> eb_closed b \<Longrightarrow> buffer_ok (h @ [ev]) (snd (publish now choice ev b))" for now choice ev
    using inv publish_ok [of h b ev now choice] by (simp add: buffer_invar_def hb)
  show ?thesis
    using inv publish subscribe_ok [of h b] read_ok [of h b] ack_ok [of h b] close_reader_ok [of h b] quiet_ok [of h b]
    by (cases op) (auto simp: buffer_invar_def hb exec_issued_def exec_buffer_def publish_def)
qed

interpretation events: guarded_system fresh_buffer exec_issued buffer_invar
  by unfold_locales (rule new_buffer_ok, assumption, rule exec_buffer_ok)

subsection \<open>Properties\<close>

lemma events_reached: "fresh_buffer hb \<Longrightarrow> length (fst (fold exec_issued ops hb)) \<le> max_seq \<Longrightarrow>
  buffer_ok (fst (fold exec_issued ops hb)) (snd (fold exec_issued ops hb))"
  using events.run_invar [of hb ops] by (simp add: buffer_invar_def)

lemma reader_sees_the_log_aux:
  assumes "fold exec_issued ops ([], new_buffer) = (h, b)" "length h \<le> max_seq"
    and "\<not> eb_closed b" "\<not> rd_closed (reader_at b r)"
  shows "try_read r n b =
    (if rd_cursor (reader_at b r) < length h
     then (ReadEntries (take (nat (if n \<le> 0 then 1 else n)) (log_from (rd_cursor (reader_at b r)) h)), b)
     else (ReadBlocked, b))"
proof -
  let ?c = "rd_cursor (reader_at b r)" and ?n = "nat (if n \<le> 0 then 1 else n)"
  have ok: "buffer_ok h b"
    using events_reached [of "([], new_buffer)" ops] assms(1,2) by (simp add: fresh_buffer_def)
  have "aget (eb_handles b) r \<noteq> None" using assms(4) by (auto simp: reader_at_def split: option.splits)
  then have "r \<in> set (eb_live b)"
    using ok assms(4) aget_by_keys [of "eb_handles b" _ r] by (auto simp: buffer_ok_def readers_ok_def)
  then have head: "eb_head b \<le> ?c" and "next": "eb_next b = length h"
    using ok by (auto simp: buffer_ok_def readers_ok_def)
  have rest: "map (\<lambda>e. (be_seq e, be_event e)) (events_after ?c (eb_events b)) = log_from ?c h" if "?c < length h"
  proof -
    have "max (eb_head b) (min ?c (length h)) = ?c" using head that by simp
    then have "events_after ?c (eb_events b) = kept ?c h"
      using ok assms(3) by (simp add: buffer_ok_def retained_def events_after_kept)
    then show ?thesis by (simp add: kept_def comp_def case_prod_beta)
  qed
  have "take ?n (events_after ?c (eb_events b)) \<noteq> []" if "?c < length h"
    using rest [OF that] log_from_step [OF that] by (cases "events_after ?c (eb_events b)") auto
  with rest "next" assms(3,4) show ?thesis by (simp add: try_read_def Let_def flip: take_map)
qed

text \<open>C0: The buffer implements the plain event log. In every state the methods can reach, an open reader of an
  open buffer with cursor \<open>c\<close> gets exactly the next events of the log after \<open>c\<close>, with their sequence
  numbers, in order and without a gap, up to the number it asks for, and blocks only when it has seen
  them all; garbage collection is never observed by a reader.\<close>

theorem reader_sees_the_log:
  assumes "fold exec_issued ops ([], new_buffer) = (h, b)" "length h \<le> max_seq"
    and "\<not> eb_closed b" "\<not> rd_closed (reader_at b r)"
  shows "try_read r n b =
    (if rd_cursor (reader_at b r) < length h
     then (ReadEntries (take (nat (if n \<le> 0 then 1 else n)) (log_from (rd_cursor (reader_at b r)) h)), b)
     else (ReadBlocked, b))"
  by (rule reader_sees_the_log_aux [OF assms])

text \<open>C26: A client that resumes where it stopped is accepted exactly when the buffer is open and still holds
  every event it missed, and it missed at most a thousand; once accepted it gets all of them. A new
  client that starts at the current tail is always accepted by an open buffer.\<close>

theorem resuming_reader_misses_nothing:
  assumes "fold exec_issued ops ([], new_buffer) = (h, b)" "length h \<le> max_seq"
  shows "(fst (subscribe start b) \<noteq> None \<longleftrightarrow>
      \<not> eb_closed b \<and> eb_head b \<le> start \<and> start \<le> length h \<and> length h - start \<le> replay_gap_limit)
    \<and> (case subscribe start b of (None, b') \<Rightarrow> b' = b
       | (Some r, b') \<Rightarrow> start < length h \<longrightarrow> try_read r 1000 b' = (ReadEntries (log_from start h), b'))
    \<and> (\<not> eb_closed b \<longrightarrow> fst (subscribe (snapshot_seq b) b) \<noteq> None)"
proof (intro conjI)
  have ok: "buffer_ok h b"
    using events_reached [of "([], new_buffer)" ops] assms by (simp add: fresh_buffer_def)
  then have n: "eb_next b = length h" "eb_head b \<le> length h" by (auto simp: buffer_ok_def readers_ok_def)
  show "fst (subscribe start b) \<noteq> None \<longleftrightarrow>
      \<not> eb_closed b \<and> eb_head b \<le> start \<and> start \<le> length h \<and> length h - start \<le> replay_gap_limit"
    using n by (auto simp: subscribe_def Let_def)
  show "\<not> eb_closed b \<longrightarrow> fst (subscribe (snapshot_seq b) b) \<noteq> None"
    using n by (auto simp: subscribe_def Let_def snapshot_seq_def)
  show "case subscribe start b of (None, b') \<Rightarrow> b' = b
      | (Some r, b') \<Rightarrow> start < length h \<longrightarrow> try_read r 1000 b' = (ReadEntries (log_from start h), b')"
  proof (cases "subscribe start b")
    case (Pair res b')
    show ?thesis
    proof (cases res)
      case None
      with Pair show ?thesis by (auto simp: subscribe_def Let_def split: if_splits)
    next
      case (Some r)
      with Pair n have sub: "\<not> eb_closed b'" "\<not> rd_closed (reader_at b' r)" "rd_cursor (reader_at b' r) = start"
        "length h - start \<le> 1000"
        by (auto simp: subscribe_def Let_def replay_gap_limit_def split: if_splits)
      have "fold exec_issued (ops @ [BSubscribe start]) ([], new_buffer) = (h, b')"
        using assms(1) Pair by (simp add: exec_issued_def exec_buffer_def)
      from reader_sees_the_log_aux [OF this assms(2) sub(1,2), of 1000] sub
      show ?thesis using Pair Some by (simp add: log_from_def)
    qed
  qed
qed

definition small_log :: "nat buffer_op list" where
  "small_log = [BSubscribe 0, BPublish 0 0 7, BPublish 0 0 8, BAck 0 0 0 1, BPublish 0 0 9]"

lemma small_log_state: "fold exec_issued small_log ([], new_buffer) =
  ([7, 8, 9], \<lparr> eb_events = [\<lparr> be_seq = 2, be_event = 8, be_released = False \<rparr>, \<lparr> be_seq = 3, be_event = 9, be_released = False \<rparr>], eb_next = 3, eb_head = 1, eb_handles = [(0, \<lparr> rd_cursor = 1, rd_closed = False \<rparr>)],
     eb_live = [0], eb_closed = False, eb_terminal = False, eb_suspended = False, eb_suspended_at = 0, eb_left_at = None \<rparr>)"
  by (simp add: small_log_def exec_issued_def exec_buffer_def subscribe_def publish_def ack_def new_buffer_def set_reader_def
      reader_at_def gc_locked_def gc_waits_for_reader_def gc_in_grace_def min_cursor_def cursors_def mark_released_def
      hardcap_guard_def drop_released_def replay_gap_limit_def buffer_hardcap_def max_seq_def Let_def)

theorem reader_sees_the_log_witness:
  "fst (try_read 0 5 (snd (fold exec_issued small_log ([], new_buffer)))) = ReadEntries [(2, 8), (3, 9)]"
proof -
  let ?b = "snd (fold exec_issued small_log ([], new_buffer))"
  have "reader_at ?b 0 = \<lparr> rd_cursor = 1, rd_closed = False \<rparr>" "\<not> eb_closed ?b" by (simp_all add: small_log_state reader_at_def)
  moreover have "fold exec_issued small_log ([], new_buffer) = ([7, 8, 9], ?b)" by (simp add: small_log_state)
  moreover have "log_from 1 [7, 8, 9 :: nat] = [(2, 8), (3, 9)]" by (simp add: log_from_def upt_rec numeral_nat)
  ultimately show ?thesis
    using reader_sees_the_log [of small_log "[7, 8, 9]" ?b 0 5] by (simp add: max_seq_def)
qed

theorem resuming_reader_misses_nothing_witness:
  "fst (subscribe 2 (snd (fold exec_issued small_log ([], new_buffer)))) \<noteq> None
   \<and> fst (subscribe 0 (snd (fold exec_issued small_log ([], new_buffer)))) = None"
proof -
  let ?b = "snd (fold exec_issued small_log ([], new_buffer))"
  have "fold exec_issued small_log ([], new_buffer) = ([7, 8, 9], ?b)" "eb_head ?b = 1" "\<not> eb_closed ?b"
    by (simp_all add: small_log_state)
  then show ?thesis
    using resuming_reader_misses_nothing [of small_log "[7, 8, 9]" ?b 2] resuming_reader_misses_nothing [of small_log "[7, 8, 9]" ?b 0]
    by (simp add: max_seq_def replay_gap_limit_def)
qed

subsection \<open>Memory\<close>

lemma length_drop_released: "length (eb_events (drop_released b)) \<le> length (eb_events b)"
  by (simp add: drop_released_def Let_def length_dropWhile_le)

lemma drop_released_live [simp]: "eb_live (drop_released b) = eb_live b"
  by (simp add: drop_released_def Let_def)

lemma length_mark [simp]: "length (mark_released c es) = length es"
  by (simp add: mark_released_def)

lemma drop_all_released: "dropWhile be_released (eb_events b) = [] \<Longrightarrow> eb_events (drop_released b) = []"
  by (cases "eb_events b") (auto simp: drop_released_def split: if_split_asm)

lemma all_marked_gone:
  assumes "marked h max_seq b" "length h \<le> max_seq"
  shows "eb_events (drop_released b) = []"
proof (rule drop_all_released, cases "eb_closed b")
  case True
  with assms show "dropWhile be_released (eb_events b) = []" by (simp add: marked_def retained_def mark_released_def)
next
  case False
  with assms have "eb_events b = mark_released max_seq (kept (eb_head b) h)" by (simp add: marked_def retained_def)
  with assms(2) show "dropWhile be_released (eb_events b) = []" by (simp add: drop_marked kept_end)
qed

lemma fold_min_mem: "fold min xs m \<in> insert m (set xs)" for m :: nat
proof (induction xs arbitrary: m)
  case (Cons x xs)
  show ?case using Cons [of "min x m"] by (auto simp: min_def split: if_splits)
qed simp

lemma slowest_None: "slowest choice b = None \<Longrightarrow> min_cursor b = max_seq"
proof (rule ccontr)
  assume none: "slowest choice b = None" and "min_cursor b \<noteq> max_seq"
  then have "min_cursor b < max_seq" "min_cursor b \<in> set (cursors b)"
    using fold_min_le(1) [of "cursors b" max_seq] fold_min_mem [of "cursors b" max_seq] by (auto simp: min_cursor_def)
  with none show False by (auto simp: slowest_def Let_def cursors_def filter_empty_conv split: if_splits)
qed

text \<open>Over the hard cap, a collection either empties the buffer or drops exactly one of several readers.\<close>

lemma guard_over_cap:
  assumes "marked h (min_cursor b) b" "buffer_hardcap < length (eb_events b)" "length h \<le> max_seq"
  shows "eb_events (drop_released (hardcap_guard choice (min_cursor b) b)) = []
    \<or> Suc (length (eb_live (hardcap_guard choice (min_cursor b) b))) = length (eb_live b)
      \<and> eb_live (hardcap_guard choice (min_cursor b) b) \<noteq> []
      \<and> length (eb_events (hardcap_guard choice (min_cursor b) b)) = length (eb_events b)"
proof (cases "slowest choice b")
  case None
  then show ?thesis
    using all_marked_gone [of h b] slowest_None [OF None] assms
    unfolding guard_unmarked [OF assms(1)] by (simp add: evict_slowest_def)
next
  case (Some r)
  let ?g = "hardcap_guard choice (min_cursor b) b"
  let ?b = "(set_reader r ((reader_at b r)\<lparr>rd_closed := True\<rparr>) b)\<lparr>eb_live := remove1 r (eb_live b)\<rparr>"
  have g: "?g = ?b\<lparr>eb_events := fst (force_release (min_cursor ?b) (eb_events b))\<rparr>"
    using Some assms(1,2) by (simp add: guard_unmarked evict_slowest_def Let_def)
  note m = guard_marked [OF assms(1), of choice]
  show ?thesis
  proof (cases "eb_live ?g = []")
    case True
    then have "min_cursor ?g = max_seq" by (simp add: min_cursor_def cursors_def)
    then show ?thesis using all_marked_gone [of h ?g] m assms(3) by simp
  next
    case False
    have "length (eb_events ?g) = length (eb_events b)"
    proof -
      have "retained h ?g = retained h b" by (simp add: g retained_def)
      then show ?thesis using m assms(1) by (simp add: marked_def)
    qed
    moreover have "0 < length (eb_live b)" using slowest_live [OF Some] by auto
    ultimately show ?thesis using False slowest_live [OF Some] by (simp add: g length_remove1)
  qed
qed

lemma gc_length:
  assumes "buffer_ok h b" "length h \<le> max_seq" "\<not> eb_terminal b"
  shows "length (eb_events (gc_locked now choice b)) \<le> buffer_hardcap \<and> length (eb_live (gc_locked now choice b)) \<le> length (eb_live b)
    \<or> length (eb_events (gc_locked now choice b)) \<le> length (eb_events b)
      \<and> Suc (length (eb_live (gc_locked now choice b))) = length (eb_live b)"
proof -
  define b1 where "b1 = (if eb_suspended b \<and> eb_live b = [] \<and> length (eb_events b) \<le> buffer_hardcap then b\<lparr>eb_suspended := False\<rparr> else b)"
  define b2 where "b2 = b1\<lparr>eb_events := mark_released (min_cursor b1) (eb_events b1)\<rparr>"
  have b1: "eb_live b1 = eb_live b" "eb_events b1 = eb_events b" by (simp_all add: b1_def)
  have ok1: "buffer_ok h b1" using assms(1) by (auto simp: b1_def buffer_ok_def retained_def)
  have m: "marked h (min_cursor b2) b2"
    using ok1 min_cursor_le [of _ b1] by (auto simp: b2_def marked_def buffer_ok_def retained_def)
  have b2: "eb_live b2 = eb_live b" "length (eb_events b2) = length (eb_events b)" "min_cursor b2 = min_cursor b1"
    by (simp_all add: b2_def b1)
  show ?thesis
  proof (cases "gc_waits_for_reader now b \<or> gc_in_grace now b1")
    case True
    then have "length (eb_events b) \<le> buffer_hardcap" by (auto simp: gc_waits_for_reader_def gc_in_grace_def b1)
    moreover have "gc_locked now choice b \<in> {b, b1}"
      using True by (auto simp: gc_locked_def b1_def [symmetric] Let_def)
    ultimately show ?thesis using b1 by auto
  next
    case False
    then have gc: "gc_locked now choice b = drop_released (hardcap_guard choice (min_cursor b2) b2)"
      using assms(3) b2(3) unfolding gc_locked_def b1_def [symmetric] Let_def b2_def [symmetric] by simp
    show ?thesis
    proof (cases "length (eb_events b2) \<le> buffer_hardcap")
      case True
      then show ?thesis
        using length_drop_released [of b2] b2 unfolding gc by (simp add: hardcap_guard_def)
    next
      case False
      let ?g = "hardcap_guard choice (min_cursor b2) b2"
      have evicted: "length (eb_live ?g) \<le> length (eb_live b2)"
        by (auto simp: guard_unmarked [OF m] evict_slowest_def Let_def length_remove1 split: option.split)
      from False have "buffer_hardcap < length (eb_events b2)" by simp
      from guard_over_cap [OF m this assms(2), of choice]
      show ?thesis
      proof
        assume "Suc (length (eb_live ?g)) = length (eb_live b2) \<and> eb_live ?g \<noteq> [] \<and> length (eb_events ?g) = length (eb_events b2)"
        then show ?thesis using length_drop_released [of ?g] b2 unfolding gc by simp
      qed (use evicted b2 in \<open>simp_all add: gc\<close>)
    qed
  qed
qed

lemma gc_flags [simp]: "eb_closed (gc_locked now choice b) = eb_closed b" "eb_terminal (gc_locked now choice b) = eb_terminal b"
  by (auto simp: gc_locked_def Let_def drop_released_def hardcap_guard_def evict_slowest_def case_prod_beta split: option.split)

definition publish_all :: "(int \<times> nat \<times> 'e) list \<Rightarrow> 'e event_buffer \<Rightarrow> 'e event_buffer" where
  "publish_all evs b = fold (\<lambda>(now, choice, ev) b. snd (publish now choice ev b)) evs b"

lemma publish_step:
  assumes "buffer_ok h b" "length h < max_seq" "\<not> eb_closed b" "\<not> eb_terminal b"
    and "length (eb_live b) \<le> n" "length (eb_events b) \<le> buffer_hardcap \<or> length (eb_events b) + length (eb_live b) \<le> buffer_hardcap + n"
  shows "case snd (publish now choice ev b) of b' \<Rightarrow>
    buffer_ok (h @ [ev]) b' \<and> \<not> eb_closed b' \<and> \<not> eb_terminal b' \<and> length (eb_live b') \<le> n
    \<and> (length (eb_events b') \<le> buffer_hardcap \<or> length (eb_events b') + length (eb_live b') \<le> buffer_hardcap + n)"
proof -
  define b1 where "b1 = b\<lparr>eb_next := (eb_next b + 1) mod 2 ^ 64, eb_events := eb_events b
      @ [\<lparr> be_seq = (eb_next b + 1) mod 2 ^ 64, be_event = ev, be_released = False \<rparr>]\<rparr>"
  have p: "snd (publish now choice ev b) = gc_locked now choice b1"
    using assms(3) by (simp add: publish_def Let_def b1_def)
  have ok: "buffer_ok (h @ [ev]) (gc_locked now choice b1)"
    using publish_ok [OF assms(1,3,2), of ev now choice] p by simp
  have next': "(eb_next b + 1) mod 2 ^ 64 = Suc (length h)"
    using assms(1,2) by (simp add: buffer_ok_def readers_ok_def max_seq_def)
  have "buffer_ok (h @ [ev]) b1"
    using assms(1,3) next' by (auto simp: b1_def buffer_ok_def readers_ok_def retained_def kept_snoc)
  from gc_length [OF this, of now choice] assms(2,3,4,5,6) ok
  show ?thesis by (auto simp: p b1_def)
qed

text \<open>C27: While a run is live, events published without anyone subscribing in between never make the buffer
  hold more than the hard cap plus the number of readers connected at the start: each event over the
  cap disconnects one of the readers that hold the buffer back.\<close>

theorem buffer_memory_bounded:
  assumes "fold exec_issued ops ([], new_buffer) = (h, b)" "length h + length evs \<le> max_seq"
    and "\<not> eb_closed b" "\<not> eb_terminal b" "length (eb_events b) \<le> buffer_hardcap"
  shows "length (eb_events (publish_all evs b)) \<le> buffer_hardcap + length (eb_live b)"
proof -
  have "buffer_ok h b" using events_reached [of "([], new_buffer)" ops] assms(1,2) by (simp add: fresh_buffer_def)
  moreover have "length (eb_events (publish_all evs b)) \<le> buffer_hardcap + n"
    if "buffer_ok h b" "length h + length evs \<le> max_seq" "\<not> eb_closed b" "\<not> eb_terminal b" "length (eb_live b) \<le> n"
      "length (eb_events b) \<le> buffer_hardcap \<or> length (eb_events b) + length (eb_live b) \<le> buffer_hardcap + n" for n
    using that
  proof (induction evs arbitrary: h b)
    case (Cons e evs)
    obtain now choice ev where e: "e = (now, choice, ev)" by (metis prod.exhaust)
    have "length h < max_seq" using Cons.prems(2) by simp
    from publish_step [OF Cons.prems(1) this Cons.prems(3-6), where now = now and choice = choice and ev = ev] Cons.prems(2)
    have "length (eb_events (publish_all evs (snd (publish now choice ev b)))) \<le> buffer_hardcap + n"
      by (intro Cons.IH [of "h @ [ev]"]) auto
    then show ?case by (simp add: publish_all_def e)
  qed (auto simp: publish_all_def)
  ultimately show ?thesis using assms(2-5) by blast
qed

theorem buffer_memory_bounded_witness:
  "length (eb_events (publish_all [(0, 0, 1), (0, 0, 2)] (snd (fold exec_issued small_log ([], new_buffer))))) \<le> 50001"
proof -
  let ?b = "snd (fold exec_issued small_log ([], new_buffer))"
  have "fold exec_issued small_log ([], new_buffer) = ([7, 8, 9], ?b)" "\<not> eb_closed ?b" "\<not> eb_terminal ?b"
    "length (eb_events ?b) = 2" "length (eb_live ?b) = 1"
    by (simp_all add: small_log_state)
  then show ?thesis
    using buffer_memory_bounded [of small_log "[7, 8, 9]" ?b "[(0, 0, 1), (0, 0, 2)]"]
    by (simp add: max_seq_def buffer_hardcap_def)
qed

subsection \<open>A reader dropped for events nobody needs\<close>

text \<open>Within the grace period after the last reader left, events pile up to the hard cap.\<close>

definition waiting :: "nat \<Rightarrow> 'e list \<Rightarrow> 'e event_buffer" where
  "waiting n h = \<lparr> eb_events = kept 0 h, eb_next = length h, eb_head = 0, eb_handles = [(0, \<lparr> rd_cursor = 0, rd_closed = True \<rparr>)],
     eb_live = [], eb_closed = False, eb_terminal = False, eb_suspended = False, eb_suspended_at = 0, eb_left_at = Some 0 \<rparr>"

lemma waiting_start: "fold exec_issued [BSubscribe 0, BCloseReader 0 0 0] ([], new_buffer) = ([], waiting 0 [])"
  by (simp add: exec_issued_def exec_buffer_def subscribe_def new_buffer_def set_reader_def reader_at_def close_reader_def
      gc_locked_def gc_waits_for_reader_def gc_in_grace_def gc_grace_period_def waiting_def kept_end replay_gap_limit_def Let_def)

lemma waiting_publish:
  assumes "length h < buffer_hardcap"
  shows "exec_issued (BPublish 0 0 ev) (h, waiting n h) = (h @ [ev], waiting n (h @ [ev]))"
proof -
  have "Suc (length h) mod 18446744073709551616 = Suc (length h)" using assms by (simp add: buffer_hardcap_def)
  with assms show ?thesis
    by (simp add: exec_issued_def exec_buffer_def publish_def waiting_def gc_locked_def gc_waits_for_reader_def gc_in_grace_def
        gc_grace_period_def kept_snoc length_kept Let_def)
qed

lemma waiting_publishes: "n \<le> buffer_hardcap \<Longrightarrow>
  fold exec_issued (replicate n (BPublish 0 0 ev)) ([], waiting 0 []) = (replicate n ev, waiting 0 (replicate n ev))"
proof (induction n)
  case (Suc n)
  have "fold exec_issued (replicate (Suc n) (BPublish 0 0 ev)) ([], waiting 0 [])
      = exec_issued (BPublish 0 0 ev) (fold exec_issued (replicate n (BPublish 0 0 ev)) ([], waiting 0 []))"
    by (simp add: funpow_swap1)
  with Suc waiting_publish [of "replicate n ev" ev 0] show ?case by (simp add: replicate_append_same)
qed simp

text \<open>The hard cap drops a reader that holds nothing back. Fifty thousand events pile up during the grace
  period after the only reader left; a new reader connects at the current tail, so that every kept
  event can be collected; the next event nevertheless disconnects that reader, because the count of
  forced releases is taken after the ordinary marking has already released them.\<close>

theorem hardcap_drops_reader_at_tail:
  "case fold exec_issued ([BSubscribe 0, BCloseReader 0 0 0] @ replicate 50000 (BPublish 0 0 ev) @ [BSubscribe 50000])
     ([], new_buffer) of (h, b) \<Rightarrow>
     rd_cursor (reader_at b 1) = snapshot_seq b \<and> \<not> rd_closed (reader_at b 1)
     \<and> rd_closed (reader_at (snd (publish 0 0 ev b)) 1)"
proof -
  let ?h = "replicate 50000 ev" and ?new = "\<lparr> rd_cursor = 50000, rd_closed = False \<rparr>"
  let ?b = "(set_reader 1 ?new (waiting 0 ?h))\<lparr>eb_live := [1], eb_left_at := None\<rparr>"
  have "fold exec_issued ([BSubscribe 0, BCloseReader 0 0 0] @ replicate 50000 (BPublish 0 0 ev) @ [BSubscribe 50000]) ([], new_buffer)
      = exec_issued (BSubscribe 50000) (?h, waiting 0 ?h)"
    unfolding fold_append comp_def waiting_start
    using waiting_publishes [of 50000 ev] by (simp add: buffer_hardcap_def)
  also have "\<dots> = (?h, ?b)"
    by (simp add: exec_issued_def exec_buffer_def subscribe_def waiting_def set_reader_def replay_gap_limit_def Let_def)
  finally have run: "fold exec_issued ([BSubscribe 0, BCloseReader 0 0 0] @ replicate 50000 (BPublish 0 0 ev) @ [BSubscribe 50000])
      ([], new_buffer) = (?h, ?b)" .
  define b1 where "b1 = ?b\<lparr>eb_next := 50001, eb_events := kept 0 (?h @ [ev])\<rparr>"
  have p: "snd (publish 0 0 ev ?b) = gc_locked 0 0 b1"
    by (simp add: publish_def b1_def waiting_def kept_snoc Let_def)
  have live: "eb_live b1 = [1]" "reader_at b1 1 = ?new" "min_cursor b1 = 50000" "\<not> eb_terminal b1" "\<not> eb_suspended b1"
    by (simp_all add: b1_def min_cursor_def cursors_def waiting_def max_seq_def)
  define b2 where "b2 = b1\<lparr>eb_events := mark_released 50000 (eb_events b1)\<rparr>"
  have gc: "gc_locked 0 0 b1 = drop_released (hardcap_guard 0 50000 b2)"
    using live by (simp add: gc_locked_def gc_waits_for_reader_def gc_in_grace_def b2_def Let_def)
  have "snd (force_release 50000 (mark_released 50000 (kept 0 (?h @ [ev])))) = 0"
    using force_release_marked [of 50000 50000 0 "?h @ [ev]"] by simp
  moreover have "slowest 0 b2 = Some 1"
    using live by (simp add: slowest_def b2_def max_seq_def Let_def)
  ultimately have "rd_closed (reader_at (hardcap_guard 0 50000 b2) 1)"
    by (simp add: hardcap_guard_def b2_def b1_def length_kept buffer_hardcap_def evict_slowest_def case_prod_beta Let_def)
  moreover have "reader_at (drop_released g) r = reader_at g r" for g :: "'a event_buffer" and r
    by (simp add: drop_released_def Let_def)
  ultimately have "rd_closed (reader_at (snd (publish 0 0 ev ?b)) 1)" unfolding p gc by (simp only:)
  moreover have "rd_cursor (reader_at ?b 1) = snapshot_seq ?b" "\<not> rd_closed (reader_at ?b 1)"
    by (simp_all add: snapshot_seq_def waiting_def)
  ultimately show ?thesis unfolding run prod.case by blast
qed

end
