(* ===== verification/GraphResume.thy ===== *)
theory GraphResume
  imports GraphControl
begin

section \<open>Resuming a run\<close>

text \<open>
  \<open>services/graph/resume.go\<close> and the state changes of \<open>relaunchResumableRunLocked\<close> in
  \<open>run_control.go\<close>. A resumable run is relaunched in two steps. The reset throws away what cannot be
  relied on: failed, interrupted, running and pending instances, their variables and the edges they
  emitted; a loop whose scope was not snapshotted is thrown away as a whole. Then a new scheduler
  loads what is left, finalizes parked clarify nodes, rebuilds the scopes of the loops that were in
  flight, counts the kept edges down and decides every node that has all its in-edges. Ranging over
  a Go map is the order of the association list, so what is proved holds for every order.
\<close>

subsection \<open>What is reset\<close>

type_synonym loop_states = "(string \<times> graph_loop_state) list"
type_synonym instances = "(string \<times> instance_state) list"
type_synonym edge_states = "(string \<times> edge_state) list"
type_synonym run_store = "graph_run \<times> instances \<times> edge_states \<times> (string \<times> vars) list"

fun is_resettable_status :: "instance_status \<Rightarrow> bool" where
  "is_resettable_status InstFailed = True"
| "is_resettable_status InstInterrupted = True"
| "is_resettable_status InstRunning = True"
| "is_resettable_status InstPending = True"
| "is_resettable_status _ = False"

text \<open>The container of the loop that is the \<open>i\<close>-th around an instance.\<close>

definition enclosing_loop :: "loop_iteration list \<Rightarrow> nat \<Rightarrow> instance_key" where
  "enclosing_loop its i = scope_key (take i its) (li_loop_node (its ! i))"

definition loop_rebuildable :: "loop_states \<Rightarrow> instance_key \<Rightarrow> bool" where
  "loop_rebuildable ls key =
     list_all (\<lambda>i. ahas ls (instance_key_string (enclosing_loop (ik_iterations key) i))) [0..<length (ik_iterations key)]"

definition resets_itself :: "loop_states \<Rightarrow> string \<times> instance_state \<Rightarrow> bool" where
  "resets_itself ls kst = (case kst of (k, st) \<Rightarrow> is_resettable_status (is_status st) \<and> \<not> ahas ls k)"

definition top_loop :: "instance_state \<Rightarrow> string" where
  "top_loop st = (case ik_iterations (is_key st) of [] \<Rightarrow> [] | it # its \<Rightarrow> li_loop_node it)"

definition in_loop :: "instance_state \<Rightarrow> bool" where
  "in_loop st \<longleftrightarrow> ik_iterations (is_key st) \<noteq> []"

definition wholesale_loops :: "loop_states \<Rightarrow> instances \<Rightarrow> string list" where
  "wholesale_loops ls insts =
     map (\<lambda>(k, st). top_loop st)
       (filter (\<lambda>(k, st). resets_itself ls (k, st) \<and> in_loop st \<and> \<not> loop_rebuildable ls (is_key st)) insts)"

definition compute_reset_set :: "loop_states \<Rightarrow> instances \<Rightarrow> string list" where
  "compute_reset_set ls insts =
     (let reset = map fst (filter (resets_itself ls) insts);
          wholesale = wholesale_loops ls insts
      in if wholesale = [] then reset
         else reset @ map fst (filter (\<lambda>(k, st). in_loop st \<and> top_loop st \<in> set wholesale) insts)
              @ map (\<lambda>n. instance_key_string (scope_key [] n)) wholesale)"

record resume_builder =
  rb_instances :: instances
  rb_edges :: edge_states
  rb_vars :: "(string \<times> vars) list"
  rb_archived :: instances
  rb_reset_version :: "(string \<times> int) list"

definition new_resume_builder :: "instances \<Rightarrow> edge_states \<Rightarrow> (string \<times> vars) list \<Rightarrow> resume_builder" where
  "new_resume_builder insts edges vs =
     \<lparr> rb_instances = insts, rb_edges = edges, rb_vars = vs, rb_archived = [], rb_reset_version = [] \<rparr>"

definition reset_instance :: "string \<Rightarrow> resume_builder \<Rightarrow> resume_builder" where
  "reset_instance k rb =
     (let rb = (case aget (rb_instances rb) k of
                  None \<Rightarrow> rb
                | Some inst \<Rightarrow>
                    let rb = (if is_version inst > 0 then rb\<lparr>rb_reset_version := aput k (is_version inst) (rb_reset_version rb)\<rparr> else rb)
                    in if is_session inst \<noteq> [] \<or> is_display_session inst \<noteq> []
                       then rb\<lparr>rb_archived := aput k inst (rb_archived rb)\<rparr> else rb)
      in rb\<lparr>rb_instances := adel k (rb_instances rb), rb_vars := adel k (rb_vars rb)\<rparr>)"

definition drop_reset_edges :: "string list \<Rightarrow> edge_states \<Rightarrow> edge_states" where
  "drop_reset_edges reset edges = filter (\<lambda>(ek, es). instance_key_string (es_source es) \<notin> set reset) edges"

definition reset_resettable :: "loop_states \<Rightarrow> resume_builder \<Rightarrow> resume_builder" where
  "reset_resettable ls rb =
     (let reset = compute_reset_set ls (rb_instances rb);
          rb = fold reset_instance reset rb
      in rb\<lparr>rb_edges := drop_reset_edges reset (rb_edges rb)\<rparr>)"

definition loop_states_of :: "graph_run \<Rightarrow> loop_states" where
  "loop_states_of run = (case gr_resume run of Some r \<Rightarrow> rs_loop_state r | None \<Rightarrow> [])"

text \<open>What a relaunch writes before the scheduler starts; a failed write restores all four files.\<close>

definition relaunch :: "int \<Rightarrow> run_store \<Rightarrow> run_store" where
  "relaunch now store =
     (case store of (run, insts, edges, vs) \<Rightarrow>
        let rb = reset_resettable (loop_states_of run) (new_resume_builder insts edges vs);
            run = run\<lparr>gr_archived := fold (\<lambda>(k, st). aput k st) (rb_archived rb) (gr_archived run),
                      gr_retry_versions := fold (\<lambda>(k, v). aput k v) (rb_reset_version rb) (gr_retry_versions run),
                      gr_resume := map_option (\<lambda>r. r\<lparr>rs_frozen_batch := None\<rparr>) (gr_resume run),
                      gr_status := RunRunning, gr_last_error := None,
                      gr_progress := map_option (\<lambda>p. p\<lparr>gp_last_error := []\<rparr>) (gr_progress run),
                      gr_updated_at := now\<rparr>
        in (run, rb_instances rb, rb_edges rb, rb_vars rb))"

subsection \<open>Loading\<close>

definition with_inferred_writers :: "instance_state \<Rightarrow> instance_state" where
  "with_inferred_writers st = st\<lparr>is_writers := infer_writers_from_state st []\<rparr>"

definition load_store :: "instances \<Rightarrow> edge_states \<Rightarrow> (string \<times> vars) list \<Rightarrow> sched \<Rightarrow> sched" where
  "load_store insts edges vs s =
     s\<lparr>sc_edges := edges, sc_vars_by_key := vs,
       sc_writers_by_key := map (\<lambda>(k, st). (k, infer_writers_from_state st [])) insts,
       sc_instances := map (\<lambda>(k, st). (k, with_inferred_writers st)) insts\<rparr>"

subsection \<open>Parked clarify nodes\<close>

text \<open>The last assistant message of a session: what the runner answers, if it can.\<close>

type_synonym reader = "string \<Rightarrow> string option"

definition read_clarify_conclusion :: "reader \<Rightarrow> instance_state \<Rightarrow> string" where
  "read_clarify_conclusion reader st =
     (let session = first_non_empty [is_display_session st, is_session st]
      in if session = [] then [] else case reader session of Some c \<Rightarrow> c | None \<Rightarrow> [])"

definition conclusion_names :: "graph_node \<Rightarrow> string list" where
  "conclusion_names node =
     (let alias = nc_last_assistant_alias (n_config node)
      in (if alias = [] then [] else [alias]) @ nc_output_variables (n_config node))"

definition finalized_instance :: "int \<Rightarrow> graph_node \<Rightarrow> string \<Rightarrow> vars \<Rightarrow> instance_state \<Rightarrow> instance_state" where
  "finalized_instance now node conclusion writers st =
     (let put = (\<lambda>v. fold (\<lambda>name. aput name v) (conclusion_names node))
      in st\<lparr>is_status := InstSucceeded, is_blocked_reason := [],
            is_visible := put conclusion (aput last_assistant_key conclusion (is_visible st)),
            is_outputs := put conclusion (is_outputs st),
            is_writers := put (n_id node) (aput last_assistant_key (n_id node) writers),
            is_finished_at := (if is_finished_at st = 0 then now else is_finished_at st)\<rparr>)"

definition held_edge :: "int \<Rightarrow> graph_node \<Rightarrow> graph_edge \<Rightarrow> edge_states \<Rightarrow> edge_states" where
  "held_edge now node e edges =
     aput (edge_state_key (e_id e) (scope_key [] (e_target e)))
       \<lparr> es_edge_id = e_id e, es_source = scope_key [] (n_id node), es_target = scope_key [] (e_target e),
         es_status = EdgeActive, es_resolved_at = now, es_reason = [] \<rparr> edges"

definition finalize_clarify :: "sched_env \<Rightarrow> reader \<Rightarrow> string \<times> instance_state \<Rightarrow> sched \<Rightarrow> sched" where
  "finalize_clarify env reader kst s =
     (case kst of (k, st) \<Rightarrow>
        if is_status st \<noteq> InstAwaitingInput then s
        else case aget (sc_nodes s) (is_node_id st) of
               None \<Rightarrow> s
             | Some node \<Rightarrow>
                 let writers = infer_writers_from_state st (case aget (sc_writers_by_key s) k of Some ws \<Rightarrow> ws | None \<Rightarrow> []);
                     st = finalized_instance (env_now env) node (read_clarify_conclusion reader st) writers st;
                     s = put_vars k (is_visible st) (is_writers st) (put_instance k st s);
                     s = s\<lparr>sc_edges := fold (held_edge (env_now env) node) (outs_of s (n_id node)) (sc_edges s)\<rparr>
                 in emit (EvCompleted (instance_key_string (is_key st))) s)"

definition finalize_awaiting_clarify :: "sched_env \<Rightarrow> reader \<Rightarrow> sched \<Rightarrow> sched" where
  "finalize_awaiting_clarify env reader s = fold (finalize_clarify env reader) (sc_instances s) s"

subsection \<open>Rebuilding the loops in flight\<close>

definition sort_instance_keys_by_depth :: "instance_key list \<Rightarrow> instance_key list" where
  "sort_instance_keys_by_depth ks = sort_key (length \<circ> ik_iterations) (sort_key instance_key_string ks)"

definition resolve_rebuild_parent :: "sched \<Rightarrow> instance_key \<Rightarrow> nat option" where
  "resolve_rebuild_parent s key =
     (let its = ik_iterations key
      in if its = [] then Some 0
         else aget (sc_active_loops s) (instance_key_string (scope_key (butlast its) (li_loop_node (last its)))))"

definition rebuilt_scope :: "graph_run_config \<Rightarrow> graph_node \<Rightarrow> instance_key \<Rightarrow> nat \<Rightarrow> loop_iteration list \<Rightarrow> graph_loop_state \<Rightarrow> scope_run" where
  "rebuilt_scope rc node key parent prefix_its ls =
     zero_scope\<lparr>sr_container := gl_loop_node ls, sr_parent := parent, sr_loop_node := node, sr_loop_key := key,
       sr_max_iters := effective_loop_max_iters rc node, sr_iter_index := gl_iteration ls, sr_rounds_run := gl_iteration ls + 1,
       sr_accum := gl_variables ls, sr_round_writers := gl_writers ls, sr_inflow := gl_entry_session ls,
       sr_round_entry := gl_variables ls, sr_round_entry_writers := gl_writers ls, sr_round_entry_session := gl_entry_session ls,
       sr_prefix := prefix_its @ [\<lparr> li_loop_node = gl_loop_node ls, li_index = gl_iteration ls \<rparr>]\<rparr>"

definition rebuild_loop :: "loop_states \<Rightarrow> instance_key \<Rightarrow> sched \<times> nat list \<Rightarrow> sched \<times> nat list" where
  "rebuild_loop lss key acc =
     (case acc of (s, built) \<Rightarrow>
        let k = instance_key_string key
        in case (aget lss k, aget (sc_instances s) k) of
             (Some ls, Some st) \<Rightarrow>
               if is_status st = InstSucceeded \<or> is_status st = InstSkipped then acc
               else (case (aget (sc_nodes s) (gl_loop_node ls), resolve_rebuild_parent s key) of
                       (Some node, Some parent) \<Rightarrow>
                         if instance_key_string (scope_key (sr_prefix (scope_at s parent)) (gl_loop_node ls)) \<noteq> k then acc
                         else let j = sc_next_scope s;
                                  loop = rebuilt_scope (gc_run_config (sc_cfg s)) node key parent (sr_prefix (scope_at s parent)) ls;
                                  s = (set_scope j loop s)\<lparr>sc_next_scope := Suc j, sc_active_loops := aput k j (sc_active_loops s)\<rparr>;
                                  s = add_live parent 1 s;
                                  st = st\<lparr>is_status := InstRunning, is_finished_at := 0, is_error := None, is_blocked_reason := []\<rparr>
                              in (put_instance k st s, built @ [j])
                     | _ \<Rightarrow> acc)
           | _ \<Rightarrow> acc)"

definition rebuild_loop_scopes :: "sched \<Rightarrow> sched \<times> nat list" where
  "rebuild_loop_scopes s =
     (let lss = loop_states_of (sc_run s)
      in fold (rebuild_loop lss) (sort_instance_keys_by_depth (map (\<lambda>(k, ls). gl_key ls) lss)) (s, []))"

subsection \<open>What a kept edge contributes\<close>

definition loop_entry_snapshot :: "sched \<Rightarrow> instance_key \<Rightarrow> graph_node \<Rightarrow> (vars \<times> vars \<times> string) option" where
  "loop_entry_snapshot s key node =
     (let its = ik_iterations key
      in if its = [] \<or> aget (sc_loop_entry s) (n_parent node) \<noteq> Some (n_id node) \<or> li_loop_node (last its) \<noteq> n_parent node then None
         else case aget (loop_states_of (sc_run s)) (instance_key_string (scope_key (butlast its) (n_parent node))) of
                None \<Rightarrow> None
              | Some ls \<Rightarrow> if gl_iteration ls = li_index (last its) then Some (gl_variables ls, gl_writers ls, gl_entry_session ls) else None)"

text \<open>
  The walk back through if-else nodes that did not record the session they passed on. The fuel is
  the depth of the recursion: on edges without a cycle it is at most the number of edges.
\<close>

fun passthrough_session :: "nat \<Rightarrow> sched \<Rightarrow> edge_states \<Rightarrow> string \<Rightarrow> string" where
  "passthrough_session 0 s edges k = []"
| "passthrough_session (Suc n) s [] k = []"
| "passthrough_session (Suc n) s ((ek, es) # edges) k =
     (if es_status es \<noteq> EdgeActive \<or> instance_key_string (es_target es) \<noteq> k then passthrough_session (Suc n) s edges k
      else case aget (sc_instances s) (instance_key_string (es_source es)) of
             None \<Rightarrow> passthrough_session (Suc n) s edges k
           | Some st \<Rightarrow>
               if is_session st \<noteq> [] then is_session st
               else if is_node_type st = NIfElse then
                 (let found = passthrough_session n s (sc_edges s) (instance_key_string (es_source es))
                  in if found \<noteq> [] then found else passthrough_session (Suc n) s edges k)
               else passthrough_session (Suc n) s edges k)"

definition resume_if_else_passthrough_session :: "sched \<Rightarrow> instance_key \<Rightarrow> string" where
  "resume_if_else_passthrough_session s key =
     passthrough_session (Suc (length (sc_edges s))) s (sc_edges s) (instance_key_string key)"

definition persisted_contrib :: "sched \<Rightarrow> instance_key \<Rightarrow> vars \<times> vars \<times> string" where
  "persisted_contrib s key =
     (let k = instance_key_string key;
          vs = (case aget (sc_vars_by_key s) k of Some vs \<Rightarrow> vs | None \<Rightarrow> []);
          ws = (case aget (sc_writers_by_key s) k of Some ws \<Rightarrow> ws | None \<Rightarrow> [])
      in case aget (sc_instances s) k of
           None \<Rightarrow> (vs, ws, [])
         | Some st \<Rightarrow> (vs, infer_writers_from_state st ws,
             if is_session st = [] \<and> is_node_type st = NIfElse then resume_if_else_passthrough_session s key else is_session st))"

definition resume_source_contrib :: "sched \<Rightarrow> instance_key \<Rightarrow> vars \<times> vars \<times> string" where
  "resume_source_contrib s key =
     (case aget (sc_nodes s) (ik_node key) of
        Some node \<Rightarrow>
          if n_type node \<noteq> NStart then persisted_contrib s key
          else if n_parent node = [] then (gc_variables (sc_cfg s), initial_variable_writers (gc_variables (sc_cfg s)), [])
          else (case loop_entry_snapshot s key node of Some c \<Rightarrow> c | None \<Rightarrow> persisted_contrib s key)
      | None \<Rightarrow> persisted_contrib s key)"

definition count_edge :: "edge_state \<Rightarrow> sched \<Rightarrow> sched" where
  "count_edge es s =
     (let k = instance_key_string (es_target es);
          s = s\<lparr>sc_in_remaining := aput k (remaining_at s k (ik_node (es_target es)) - 1) (sc_in_remaining s)\<rparr>
      in if es_status es \<noteq> EdgeActive then s
         else case resume_source_contrib s (es_source es) of
                (vs, ws, session) \<Rightarrow>
                  s\<lparr>sc_any_active := List.insert k (sc_any_active s),
                    sc_contribs := aput k (contribs_at s k @ [upstream_of (ik_node (es_source es)) vs ws session]) (sc_contribs s)\<rparr>)"

subsection \<open>The frontier\<close>

definition node_id_from_key_string :: "string \<Rightarrow> instances \<Rightarrow> string" where
  "node_id_from_key_string k insts = (case aget insts k of Some st \<Rightarrow> is_node_id st | None \<Rightarrow> k)"

definition mark_end_reached :: "string \<times> int \<Rightarrow> sched \<Rightarrow> sched" where
  "mark_end_reached kr s =
     (case kr of (k, rem) \<Rightarrow>
        if rem > 0 then s
        else case aget (sc_nodes s) (node_id_from_key_string k (sc_instances s)) of
               None \<Rightarrow> s
             | Some node \<Rightarrow>
                 if n_type node = NEnd \<and> n_parent node = [] \<and> k \<in> set (sc_any_active s)
                 then s\<lparr>sc_end_reached := True, sc_end_hook_fired := List.insert k (sc_end_hook_fired s)\<rparr> else s)"

definition resume_key :: "sched \<Rightarrow> string \<Rightarrow> instance_key" where
  "resume_key s k =
     (case aget (sc_instances s) k of
        Some st \<Rightarrow> is_key st
      | None \<Rightarrow> case find (\<lambda>key. instance_key_string key = k) (concat (map (\<lambda>(ek, es). [es_target es, es_source es]) (sc_edges s))) of
                  Some key \<Rightarrow> key | None \<Rightarrow> scope_key [] k)"

definition scope_for_key :: "sched \<Rightarrow> instance_key \<Rightarrow> nat option" where
  "scope_for_key s key =
     (let its = ik_iterations key
      in if its = [] then Some 0
         else case aget (sc_active_loops s) (instance_key_string (scope_key (butlast its) (li_loop_node (last its)))) of
                None \<Rightarrow> None
              | Some i \<Rightarrow> if sr_prefix (scope_at s i) = its then Some i else None)"

definition frontier_item :: "sched \<Rightarrow> string \<times> int \<Rightarrow> frame list" where
  "frontier_item s kr =
     (case kr of (k, rem) \<Rightarrow>
        if rem > 0 then []
        else let key = resume_key s k
             in case aget (sc_nodes s) (ik_node key) of
                  None \<Rightarrow> []
                | Some node \<Rightarrow>
                    if ahas (sc_active_loops s) k then []
                    else case scope_for_key s key of
                           None \<Rightarrow> []
                         | Some i \<Rightarrow> (case merge_visible_snapshots (contribs_at s k) of
                             (visible, writers) \<Rightarrow> [FDecide i node key visible writers (pick_inflow_session (contribs_at s k))]))"

definition seed_resume :: "sched_env \<Rightarrow> reader \<Rightarrow> instances \<Rightarrow> edge_states \<Rightarrow> (string \<times> vars) list \<Rightarrow> sched \<Rightarrow> sched \<times> frame list" where
  "seed_resume env reader insts edges vs s =
     (let s = finalize_awaiting_clarify env reader (load_store insts edges vs s);
          (s, built) = rebuild_loop_scopes s;
          s = fold (\<lambda>(ek, es). count_edge es) (sc_edges s) s;
          s = fold mark_end_reached (sc_in_remaining s) s
      in (s, concat (map (frontier_item s) (sc_in_remaining s)) @ map FQuiesce built))"

definition start_resume :: "sched_env \<Rightarrow> reader \<Rightarrow> run_store \<Rightarrow> machine" where
  "start_resume env reader store =
     (case store of (run, insts, edges, vs) \<Rightarrow>
        let s = new_scheduler run (effective_config run);
            s = s\<lparr>sc_run := (sc_run s)\<lparr>gr_status := RunRunning,
                   gr_started_at := (if gr_started_at run > 0 then gr_started_at run else env_now env),
                   gr_finished_at := 0, gr_updated_at := env_now env\<rparr>\<rparr>;
            s = set_job env JobRunning RunRunning [] (s\<lparr>sc_disk := Some (sc_run s, insts, edges, vs)\<rparr>)
        in swap_frames (seed_resume env reader insts edges vs s))"

end
