(* ===== verification/GraphVersion.thy ===== *)
theory GraphVersion
  imports GraphControl GraphValidate
begin

section \<open>Editing a run in flight\<close>

text \<open>
  \<open>services/graph/version.go\<close>: an edit of a run's configuration is normalized, checked as a whole by
  the validator and against what the run has already done, and appended as a new version. A live
  scheduler then re-reads the topology and refreshes the loops it is in. The agent catalog and the
  resolution of agent and model snapshots are parameters; layout, titles and metadata are not in the
  model, so whether they changed is a parameter too.
\<close>

subsection \<open>Comparing configurations\<close>

definition string_slice_equal :: "string list \<Rightarrow> string list \<Rightarrow> bool" where
  "string_slice_equal a b \<longleftrightarrow> length a = length b \<and> list_all (\<lambda>i. a ! i = b ! i) [0..<length a]"

definition int_ptr_equal :: "int option \<Rightarrow> int option \<Rightarrow> bool" where
  "int_ptr_equal a b = (case (a, b) of (None, _) \<Rightarrow> b = None | (_, None) \<Rightarrow> a = None | (Some x, Some y) \<Rightarrow> x = y)"

definition execution_config_equal :: "graph_node \<Rightarrow> graph_node \<Rightarrow> bool" where
  "execution_config_equal a b =
     (if n_type a \<noteq> n_type b \<or> n_parent a \<noteq> n_parent b then False
      else let ca = n_config a; cb = n_config b in
        if nc_script ca \<noteq> nc_script cb \<or> nc_prompt ca \<noteq> nc_prompt cb \<or> nc_agent_type ca \<noteq> nc_agent_type cb
           \<or> nc_model_id ca \<noteq> nc_model_id cb \<or> nc_acp_mode ca \<noteq> nc_acp_mode cb
           \<or> nc_acp_thought_level ca \<noteq> nc_acp_thought_level cb \<or> nc_session_strategy ca \<noteq> nc_session_strategy cb
           \<or> nc_last_assistant_alias ca \<noteq> nc_last_assistant_alias cb \<or> nc_condition ca \<noteq> nc_condition cb
           \<or> nc_loop_mode ca \<noteq> nc_loop_mode cb \<or> nc_fixed_count ca \<noteq> nc_fixed_count cb
           \<or> nc_until_condition ca \<noteq> nc_until_condition cb \<or> nc_max_iterations ca \<noteq> nc_max_iterations cb then False
        else if \<not> int_ptr_equal (nc_timeout_seconds ca) (nc_timeout_seconds cb) then False
        else string_slice_equal (nc_output_variables ca) (nc_output_variables cb))"

definition loop_fixed_count_only_edit :: "graph_node \<Rightarrow> graph_node \<Rightarrow> bool" where
  "loop_fixed_count_only_edit old nn =
     (let probe = nn\<lparr>n_config := (n_config nn)\<lparr>nc_fixed_count := nc_fixed_count (n_config old)\<rparr>\<rparr>
      in execution_config_equal old probe \<and> nc_fixed_count (n_config old) \<noteq> nc_fixed_count (n_config nn))"

text \<open>
  The walk up the parents stops at the first loop. Parents that are not loops could go round for ever;
  the fuel is one more than the number of nodes, after which a parent has been met twice.
\<close>

fun loop_walk :: "nat \<Rightarrow> (string \<times> graph_node) list \<Rightarrow> string \<Rightarrow> bool option" where
  "loop_walk 0 nodes pid = None"
| "loop_walk (Suc n) nodes pid =
     (if pid = [] then Some False
      else case aget nodes pid of
             None \<Rightarrow> Some False
           | Some parent \<Rightarrow> if n_type parent = NLoop then Some True else loop_walk n nodes (n_parent parent))"

definition node_inside_loop :: "(string \<times> graph_node) list \<Rightarrow> graph_node \<Rightarrow> bool option" where
  "node_inside_loop nodes n = loop_walk (Suc (Suc (length nodes))) nodes (n_parent n)"

subsection \<open>The check against the run\<close>

datatype edit_violation = FrozenNodeDeleted string | FrozenConfigChanged string | CompletedEdgeRemoved string | WalkStuck string

definition frozen_nodes :: "(string \<times> instance_state) list \<Rightarrow> string list" where
  "frozen_nodes insts = remdups (map (\<lambda>(k, st). is_node_id st)
     (filter (\<lambda>(k, st). is_status st = InstSucceeded \<or> is_status st = InstSkipped \<or> is_status st = InstRunning) insts))"

definition completed_nodes :: "(string \<times> instance_state) list \<Rightarrow> string list" where
  "completed_nodes insts = remdups (map (\<lambda>(k, st). is_node_id st)
     (filter (\<lambda>(k, st). is_status st = InstSucceeded \<or> is_status st = InstSkipped) insts))"

definition check_frozen_node :: "(string \<times> graph_node) list \<Rightarrow> (string \<times> graph_node) list \<Rightarrow> string \<Rightarrow> edit_violation list" where
  "check_frozen_node old_nodes new_nodes i =
     (case aget new_nodes i of
        None \<Rightarrow> [FrozenNodeDeleted i]
      | Some nn \<Rightarrow>
          (case node_inside_loop new_nodes nn of
             None \<Rightarrow> [WalkStuck i]
           | Some True \<Rightarrow> []
           | Some False \<Rightarrow>
               (case aget old_nodes i of
                  None \<Rightarrow> []
                | Some on \<Rightarrow>
                    if execution_config_equal on nn then []
                    else if n_type nn = NLoop \<and> loop_fixed_count_only_edit on nn then []
                    else [FrozenConfigChanged i])))"

definition check_completed_edge :: "string list \<Rightarrow> string list \<Rightarrow> graph_edge \<Rightarrow> edit_violation list" where
  "check_completed_edge completed new_edge_ids e =
     (if e_source e \<notin> set completed \<and> e_target e \<notin> set completed then []
      else if e_id e \<in> set new_edge_ids then []
      else [CompletedEdgeRemoved (e_id e)])"

definition validate_version_edit :: "graph_config \<Rightarrow> graph_config \<Rightarrow> (string \<times> instance_state) list \<Rightarrow> edit_violation list" where
  "validate_version_edit old_cfg new_cfg insts =
     concat (map (check_frozen_node (nodes_by_id old_cfg) (nodes_by_id new_cfg)) (frozen_nodes insts))
     @ concat (map (check_completed_edge (completed_nodes insts) (map e_id (gc_edges new_cfg))) (gc_edges old_cfg))"

subsection \<open>Preparing a version\<close>

definition normalize_graph_variables :: "vars \<Rightarrow> vars" where
  "normalize_graph_variables vs =
     fold (\<lambda>name m. if aget m name = Some [] then adel name m else m) [''Code'', ''Doc''] vs"

definition same_vars :: "vars \<Rightarrow> vars \<Rightarrow> bool" where
  "same_vars a b = list_all (\<lambda>k. aget a k = aget b k) (akeys a @ akeys b)"

definition graph_config_no_op_equal :: "graph_config \<Rightarrow> graph_config \<Rightarrow> bool" where
  "graph_config_no_op_equal a b \<longleftrightarrow>
     same_vars (normalize_graph_variables (gc_variables a)) (normalize_graph_variables (gc_variables b))
     \<and> a\<lparr>gc_variables := []\<rparr> = b\<lparr>gc_variables := []\<rparr>"

text \<open>An agent reference is rewritten to the identifier the catalog resolves it to.\<close>

fun normalize_agent_nodes :: "(string \<Rightarrow> string + string option) \<Rightarrow> graph_node list \<Rightarrow> string + graph_node list" where
  "normalize_agent_nodes resolve [] = Inr []"
| "normalize_agent_nodes resolve (n # ns) =
     (let identifier = trim_space (nc_agent_type (n_config n));
          rest = (\<lambda>n. case normalize_agent_nodes resolve ns of Inl e \<Rightarrow> Inl e | Inr ns' \<Rightarrow> Inr (n # ns'))
      in if \<not> is_agent (n_type n) \<or> identifier = [] then rest n
         else case resolve identifier of
                Inl e \<Rightarrow> Inl e
              | Inr found \<Rightarrow>
                  rest (case found of
                          Some agent \<Rightarrow> if agent = identifier then n else n\<lparr>n_config := (n_config n)\<lparr>nc_agent_type := agent\<rparr>\<rparr>
                        | None \<Rightarrow> n))"

definition normalize_workflow_agent_references :: "(string \<Rightarrow> string + string option) \<Rightarrow> graph_config \<Rightarrow> string + graph_config" where
  "normalize_workflow_agent_references resolve cfg =
     (case normalize_agent_nodes resolve (gc_nodes cfg) of Inl e \<Rightarrow> Inl e | Inr ns \<Rightarrow> Inr (cfg\<lparr>gc_nodes := ns\<rparr>))"

record version_request =
  vq_config :: graph_config
  vq_display_changed :: bool
  vq_update_revision_nodes :: "string list"

text \<open>What an edit asks of its surroundings: the catalog, and the snapshots of the agents it references.\<close>

record version_env =
  ve_now :: int
  ve_resolve :: "string \<Rightarrow> string + string option"
  ve_snapshot_error :: "graph_config \<Rightarrow> string option"

datatype edit_error =
    EditAgentReference string
  | EditInvalid "violation list" "edit_violation list"
  | EditNotAnAgent string
  | EditRevisionSelected string string
  | EditSnapshot string

fun revision_error :: "graph_config \<Rightarrow> (string \<times> instance_state) list \<Rightarrow> string list \<Rightarrow> edit_error option" where
  "revision_error cfg insts [] = None"
| "revision_error cfg insts (i # is) =
     (case aget (nodes_by_id cfg) i of
        None \<Rightarrow> Some (EditNotAnAgent i)
      | Some node \<Rightarrow>
          if \<not> is_agent (n_type node) then Some (EditNotAnAgent i)
          else (case find (\<lambda>(k, st). is_node_id st = i) insts of
                  Some (k, st) \<Rightarrow> Some (EditRevisionSelected i k)
                | None \<Rightarrow> revision_error cfg insts is))"

definition prepare_run_version :: "version_env \<Rightarrow> version_request \<Rightarrow> (string \<times> instance_state) list \<Rightarrow> graph_run \<Rightarrow> edit_error + graph_run" where
  "prepare_run_version ve req insts run =
     (case normalize_workflow_agent_references (ve_resolve ve) (vq_config req) of
        Inl e \<Rightarrow> Inl (EditAgentReference e)
      | Inr cfg \<Rightarrow>
          let old = effective_config run;
              revisions = filter (\<lambda>i. i \<noteq> []) (vq_update_revision_nodes req)
          in if graph_config_no_op_equal old cfg \<and> \<not> vq_display_changed req \<and> revisions = [] then Inr run
             else let errs = validate_config cfg; edits = validate_version_edit old cfg insts
             in if errs \<noteq> [] \<or> edits \<noteq> [] then Inl (EditInvalid errs edits)
             else (case revision_error cfg insts revisions of
                     Some e \<Rightarrow> Inl e
                   | None \<Rightarrow>
                       (case ve_snapshot_error ve cfg of
                          Some e \<Rightarrow> Inl (EditSnapshot e)
                        | None \<Rightarrow>
                            let v = gr_current_version run + 1
                            in Inr (run\<lparr>gr_versions := gr_versions run @ [\<lparr> rv_version = v, rv_config = cfg \<rparr>],
                                        gr_current_version := v, gr_updated_at := ve_now ve\<rparr>))))"

fun is_static_editable_status :: "run_status \<Rightarrow> bool" where
  "is_static_editable_status RunFailed = True"
| "is_static_editable_status RunStepStopped = True"
| "is_static_editable_status RunSessionStopped = True"
| "is_static_editable_status RunStopped = True"
| "is_static_editable_status RunTimedOut = True"
| "is_static_editable_status RunRecovering = True"
| "is_static_editable_status RunAwaitingInput = True"
| "is_static_editable_status _ = False"

subsection \<open>Applying it\<close>

definition remaining_rounds :: "graph_run_config \<Rightarrow> graph_node \<Rightarrow> int \<Rightarrow> int" where
  "remaining_rounds rc node rounds_run = max 0 (loop_max_rounds rc node - rounds_run)"

definition refresh_loop :: "nat \<Rightarrow> sched \<Rightarrow> sched" where
  "refresh_loop i s =
     (let loop = sc_scopes s i; rc = gc_run_config (sc_cfg s)
      in case aget (sc_nodes s) (sr_container loop) of
           None \<Rightarrow> s
         | Some nn \<Rightarrow>
             let old = remaining_rounds rc (sr_loop_node loop) (sr_rounds_run loop);
                 new = remaining_rounds rc nn (sr_rounds_run loop);
                 s = set_scope i (loop\<lparr>sr_loop_node := nn, sr_max_iters := effective_loop_max_iters rc nn\<rparr>) s;
                 delta = wrap64 ((new - old) * subgraph_count s (sr_container loop))
             in if delta \<noteq> 0 then denom_adjust delta s else s)"

definition refresh_active_loops_after_version :: "sched \<Rightarrow> sched" where
  "refresh_active_loops_after_version s = fold (\<lambda>(k, i). refresh_loop i) (sc_active_loops s) s"

definition apply_version_update :: "version_env \<Rightarrow> version_request \<Rightarrow> sched \<Rightarrow> edit_error option \<times> sched" where
  "apply_version_update ve req s =
     (case prepare_run_version ve req (sc_instances s) (sc_run s) of
        Inl e \<Rightarrow> (Some e, s)
      | Inr run \<Rightarrow>
          (None, persist (refresh_active_loops_after_version (index (s\<lparr>sc_run := run, sc_cfg := effective_config run\<rparr>)))))"

text \<open>A stopped run has no scopes: the denominator is corrected from the loops it was stopped in.\<close>

definition static_loop_delta :: "graph_config \<Rightarrow> graph_config \<Rightarrow> graph_loop_state \<Rightarrow> int" where
  "static_loop_delta old_cfg new_cfg ls =
     (case (aget (nodes_by_id old_cfg) (gl_loop_node ls), aget (nodes_by_id new_cfg) (gl_loop_node ls)) of
        (Some on, Some nn) \<Rightarrow>
          if nc_fixed_count (n_config on) = nc_fixed_count (n_config nn) then 0
          else (remaining_rounds (gc_run_config new_cfg) nn (gl_iteration ls + 1)
                - remaining_rounds (gc_run_config old_cfg) on (gl_iteration ls + 1))
               * (case loop_subgraph_business_count (nodes_by_id new_cfg) (gc_run_config new_cfg) (gl_loop_node ls) of
                    Some c \<Rightarrow> c | None \<Rightarrow> 0)
      | _ \<Rightarrow> 0)"

definition adjust_static_loop_denominator :: "graph_config \<Rightarrow> graph_run \<Rightarrow> graph_run" where
  "adjust_static_loop_denominator old_cfg run =
     (case gr_resume run of
        None \<Rightarrow> run
      | Some r \<Rightarrow> run\<lparr>gr_progress := adjust_denom_total
          (wrap64 (sum_list (map (\<lambda>(k, ls). static_loop_delta old_cfg (effective_config run) ls) (rs_loop_state r)))) (gr_progress run)\<rparr>)"

end
