(* ===== verification/GraphLifecycle.thy ===== *)
theory GraphLifecycle
  imports GraphResume GraphVersion
begin

section \<open>The lifecycle of one run\<close>

text \<open>
  \<open>run_control.go\<close>, the lifecycle part of \<open>service.go\<close> and \<open>UpdateRunVersion\<close>: the calls that start,
  stop, resume, repair, edit and delete one run while its scheduler may be running. A call holds the
  run's lock only for its commit points; between them other calls go on. The model is a machine
  whose operations are the stretches a call executes without giving the lock back, so every
  interleaving of calls is a list of operations. A call in progress is kept in \<open>lc_calls\<close> under a
  number of its own, with what it has read. A scheduler generation is a number; what it writes is
  arbitrary. A repository write may fail where the code handles the failure.
\<close>

subsection \<open>State\<close>

datatype call =
    Relaunching nat run_store nat
  | Repairing graph_run
  | Marked graph_run instances bool
  | Editing graph_run
  | Prepared graph_run graph_config int

datatype queued = QueuedControl control_signal | QueuedUpdate version_request

record lifecycle =
  lc_handle :: "nat option"
  lc_deleted :: bool
  lc_delete_job :: string
  lc_queue :: "queued list"
  lc_done :: "nat list"
  lc_next :: nat
  lc_live :: "nat list"
  lc_calls :: "(nat \<times> call) list"
  lc_disk :: "run_store option"
  lc_linked :: bool

datatype lifecycle_error =
    RunNotFound | RunNotRunning | ControlBusy | RunNotResumable | RunInFlight | RunNotEditable
  | UnlinkFailed | DeleteFailed | WriteFailed | EditRejected edit_error

fun is_schedulerless_in_flight :: "run_status \<Rightarrow> bool" where
  "is_schedulerless_in_flight RunRunning = True"
| "is_schedulerless_in_flight RunStepStopping = True"
| "is_schedulerless_in_flight RunSessionStopping = True"
| "is_schedulerless_in_flight RunPending = True"
| "is_schedulerless_in_flight _ = False"

fun is_in_flight_status :: "run_status \<Rightarrow> bool" where
  "is_in_flight_status RunRunning = True"
| "is_in_flight_status RunStepStopping = True"
| "is_in_flight_status RunSessionStopping = True"
| "is_in_flight_status _ = False"

fun is_resumable_status :: "run_status \<Rightarrow> bool" where
  "is_resumable_status RunFailed = True"
| "is_resumable_status RunStepStopped = True"
| "is_resumable_status RunSessionStopped = True"
| "is_resumable_status RunStopped = True"
| "is_resumable_status RunTimedOut = True"
| "is_resumable_status RunRecovering = True"
| "is_resumable_status RunAwaitingInput = True"
| "is_resumable_status _ = False"

definition control_capacity :: nat where "control_capacity = 4"

definition disk_status :: "lifecycle \<Rightarrow> run_status option" where
  "disk_status l = map_option (\<lambda>(run, rest). gr_status run) (lc_disk l)"

subsection \<open>Generations\<close>

definition new_run_control :: "lifecycle \<Rightarrow> nat \<times> lifecycle" where
  "new_run_control l = (lc_next l, l\<lparr>lc_handle := Some (lc_next l), lc_next := Suc (lc_next l), lc_queue := []\<rparr>)"

definition complete_control :: "nat \<Rightarrow> lifecycle \<Rightarrow> lifecycle" where
  "complete_control g l =
     (let l = (if lc_handle l = Some g then l\<lparr>lc_handle := None\<rparr> else l)
      in l\<lparr>lc_done := g # lc_done l\<rparr>)"

definition send_control_to_handle :: "queued \<Rightarrow> lifecycle \<Rightarrow> lifecycle_error option \<times> lifecycle" where
  "send_control_to_handle sig l =
     (if length (lc_queue l) < control_capacity then (None, l\<lparr>lc_queue := lc_queue l @ [sig]\<rparr>) else (Some ControlBusy, l))"

definition signal_and_snapshot :: "queued \<Rightarrow> lifecycle \<Rightarrow> lifecycle_error option \<times> lifecycle" where
  "signal_and_snapshot sig l =
     (if lc_deleted l then (Some RunNotFound, l)
      else case disk_status l of
             None \<Rightarrow> (Some RunNotFound, l)
           | Some st \<Rightarrow>
               if \<not> is_schedulerless_in_flight st \<or> lc_handle l = None then (Some RunNotRunning, l)
               else send_control_to_handle sig l)"

subsection \<open>Relaunching\<close>

definition claim_relaunch :: "nat \<Rightarrow> lifecycle \<Rightarrow> lifecycle_error option \<times> lifecycle" where
  "claim_relaunch pid l =
     (if lc_deleted l then (Some RunNotFound, l)
      else if lc_handle l \<noteq> None \<or> ahas (lc_calls l) pid then (None, l)
      else case lc_disk l of
             None \<Rightarrow> (Some RunNotFound, l)
           | Some store \<Rightarrow>
               if \<not> is_resumable_status (gr_status (fst store)) then (Some RunNotResumable, l)
               else (case new_run_control l of
                       (g, l) \<Rightarrow> (None, l\<lparr>lc_calls := aput pid (Relaunching g store 0) (lc_calls l)\<rparr>)))"

text \<open>The four files are written one after the other: instances, edges, variables, run.\<close>

definition write_file :: "nat \<Rightarrow> run_store \<Rightarrow> run_store \<Rightarrow> run_store" where
  "write_file n new old =
     (case new of (run, insts, edges, vs) \<Rightarrow> case old of (run0, insts0, edges0, vs0) \<Rightarrow>
        if n = 0 then (run0, insts, edges0, vs0) else if n = 1 then (run0, insts0, edges, vs0)
        else if n = 2 then (run0, insts0, edges0, vs) else (run, insts0, edges0, vs0))"

definition on_disk :: "(run_store \<Rightarrow> run_store) \<Rightarrow> lifecycle \<Rightarrow> lifecycle" where
  "on_disk f l = l\<lparr>lc_disk := map_option f (lc_disk l)\<rparr>"

text \<open>\<open>restoreOriginal\<close> tries every file; each of those writes may fail too.\<close>

definition restore_original :: "run_store \<Rightarrow> bool list \<Rightarrow> lifecycle \<Rightarrow> lifecycle" where
  "restore_original original oks l =
     on_disk (\<lambda>store. fold (\<lambda>(n, ok) s. if ok then write_file n original s else s) (zip [0..<4] oks) store) l"

definition end_call :: "nat \<Rightarrow> lifecycle \<Rightarrow> lifecycle" where
  "end_call pid l = l\<lparr>lc_calls := adel pid (lc_calls l)\<rparr>"

text \<open>
  Once the slot is claimed no other call writes the files, so what the relaunch reads next is the store
  it was claimed on. A relaunch that fails before its first write is a failed first write that
  restores what is still there.
\<close>

text \<open>One write of a relaunch; after the last one the bound job is told, and then the scheduler starts.\<close>

definition relaunch_write :: "int \<Rightarrow> nat \<Rightarrow> bool \<Rightarrow> bool list \<Rightarrow> lifecycle \<Rightarrow> lifecycle_error option \<times> lifecycle" where
  "relaunch_write now pid ok oks l =
     (case aget (lc_calls l) pid of
        Some (Relaunching g original n) \<Rightarrow>
          if \<not> ok then (Some WriteFailed, complete_control g (restore_original original oks (end_call pid l)))
          else if n < 4 then
            (None, (on_disk (write_file n (relaunch now original)) l)
               \<lparr>lc_calls := aput pid (Relaunching g original (Suc n)) (lc_calls l)\<rparr>)
          else (None, (end_call pid l)\<lparr>lc_live := g # lc_live l\<rparr>)
      | _ \<Rightarrow> (None, l))"

subsection \<open>Repairing an orphan\<close>

text \<open>
  \<open>forceTerminalNoSchedulerLocked\<close> up to its lock: the run is read, then the instances. They are loaded, and
  the running ones marked interrupted, in a variable of the \<open>if\<close> statement that hides the one declared
  before it; the marked map is lost at the end of the statement, the outer variable stays nil, and it
  is the outer one that is saved later.
\<close>

definition repair_read :: "nat \<Rightarrow> lifecycle \<Rightarrow> lifecycle_error option \<times> lifecycle" where
  "repair_read pid l =
     (case lc_disk l of
        None \<Rightarrow> (Some RunNotFound, l)
      | Some (run, rest) \<Rightarrow>
          if \<not> is_schedulerless_in_flight (gr_status run) \<or> ahas (lc_calls l) pid then (None, l)
          else (None, l\<lparr>lc_calls := aput pid (Repairing run) (lc_calls l)\<rparr>))"

definition repair_mark :: "int \<Rightarrow> run_status \<Rightarrow> string \<Rightarrow> nat \<Rightarrow> bool \<Rightarrow> lifecycle \<Rightarrow> lifecycle" where
  "repair_mark now target progress_err pid loaded l =
     (case aget (lc_calls l) pid of
        Some (Repairing run) \<Rightarrow>
          let outer_insts = [];
              changed = (case lc_disk l of
                           Some (run0, insts, rest) \<Rightarrow> loaded \<and> list_ex (\<lambda>(k, st). is_status st = InstRunning) insts
                         | None \<Rightarrow> False);
              run = run\<lparr>gr_status := target, gr_finished_at := now, gr_updated_at := now,
                        gr_progress := map_option (\<lambda>p. p\<lparr>gp_last_error := progress_err\<rparr>) (gr_progress run)\<rparr>
          in l\<lparr>lc_calls := aput pid (Marked run outer_insts changed) (lc_calls l)\<rparr>
      | _ \<Rightarrow> l)"

definition repair_commit :: "nat \<Rightarrow> bool \<Rightarrow> bool \<Rightarrow> lifecycle \<Rightarrow> lifecycle_error option \<times> lifecycle" where
  "repair_commit pid insts_ok run_ok l =
     (case aget (lc_calls l) pid of
        Some (Marked run insts changed) \<Rightarrow>
          let l = end_call pid l in
          if lc_deleted l then (Some RunNotFound, l)
          else if lc_handle l \<noteq> None then (None, l)
          else (case disk_status l of
                  None \<Rightarrow> (Some RunNotFound, l)
                | Some st \<Rightarrow>
                    if \<not> is_schedulerless_in_flight st then (None, l)
                    else let (run, l) = (if changed \<and> insts_ok
                                         then (update_run_progress run insts, on_disk (\<lambda>(run0, insts0, rest0). (run0, insts, rest0)) l)
                                         else (run, l))
                         in if run_ok then (None, on_disk (\<lambda>(run0, rest0). (run, rest0)) l) else (Some WriteFailed, l))
      | _ \<Rightarrow> (None, l))"

subsection \<open>Editing a stopped run\<close>

text \<open>The run is read under the lock; the edit is prepared without it, from that run and from the instances read then.\<close>

definition edit_read :: "version_request \<Rightarrow> nat \<Rightarrow> lifecycle \<Rightarrow> lifecycle_error option \<times> lifecycle" where
  "edit_read req pid l =
     (if lc_deleted l then (Some RunNotFound, l)
      else case lc_disk l of
             None \<Rightarrow> (Some RunNotFound, l)
           | Some (run, rest) \<Rightarrow>
               if is_in_flight_status (gr_status run) then
                 (if lc_handle l = None then (Some RunNotEditable, l) else send_control_to_handle (QueuedUpdate req) l)
               else if \<not> is_static_editable_status (gr_status run) then (Some RunNotEditable, l)
               else if lc_handle l \<noteq> None \<or> ahas (lc_calls l) pid then (None, l)
               else (None, l\<lparr>lc_calls := aput pid (Editing run) (lc_calls l)\<rparr>))"

definition edit_prepare :: "version_env \<Rightarrow> version_request \<Rightarrow> nat \<Rightarrow> lifecycle \<Rightarrow> lifecycle_error option \<times> lifecycle" where
  "edit_prepare ve req pid l =
     (case aget (lc_calls l) pid of
        Some (Editing run) \<Rightarrow>
          (case lc_disk l of
             None \<Rightarrow> (Some RunNotFound, end_call pid l)
           | Some (run0, insts, rest) \<Rightarrow>
               (case prepare_run_version ve req insts run of
                  Inl e \<Rightarrow> (Some (EditRejected e), end_call pid l)
                | Inr run' \<Rightarrow>
                    (None, l\<lparr>lc_calls := aput pid (Prepared run' (effective_config run) (gr_current_version run)) (lc_calls l)\<rparr>)))
      | _ \<Rightarrow> (None, l))"

definition edit_commit :: "nat \<Rightarrow> bool \<Rightarrow> bool \<Rightarrow> lifecycle \<Rightarrow> lifecycle_error option \<times> lifecycle" where
  "edit_commit pid ok adjust_ok l =
     (case aget (lc_calls l) pid of
        Some (Prepared run' old_cfg base) \<Rightarrow>
          let l = end_call pid l in
          if lc_deleted l then (Some RunNotFound, l)
          else (case lc_disk l of
                  None \<Rightarrow> (Some RunNotFound, l)
                | Some (latest, rest) \<Rightarrow>
                    if lc_handle l \<noteq> None \<or> \<not> is_static_editable_status (gr_status latest) \<or> gr_current_version latest \<noteq> base
                       \<or> \<not> graph_config_no_op_equal (effective_config latest) old_cfg then (Some RunNotEditable, l)
                    else if \<not> ok then (Some WriteFailed, l)
                    else let adjusted = adjust_static_loop_denominator old_cfg run' in
                      if adjusted \<noteq> run' \<and> \<not> adjust_ok then (Some WriteFailed, l\<lparr>lc_disk := Some (run', rest)\<rparr>)
                      else (None, l\<lparr>lc_disk := Some (adjusted, rest)\<rparr>))
      | _ \<Rightarrow> (None, l))"

subsection \<open>Deleting\<close>

definition clear_linkage :: "bool \<Rightarrow> lifecycle \<Rightarrow> lifecycle_error option \<times> lifecycle" where
  "clear_linkage ok l =
     (if lc_delete_job l = [] then (None, l)
      else if \<not> ok then (Some UnlinkFailed, l)
      else (None, l\<lparr>lc_delete_job := [], lc_linked := False\<rparr>))"

text \<open>A failed deletion of the artifacts may have removed some of them; \<open>gone\<close> says whether the run's file was among them.\<close>

definition delete_artifacts :: "bool \<Rightarrow> bool \<Rightarrow> bool \<Rightarrow> lifecycle \<Rightarrow> lifecycle_error option \<times> lifecycle" where
  "delete_artifacts ok gone unlink_ok l =
     (if ok then clear_linkage unlink_ok (l\<lparr>lc_deleted := True, lc_disk := None\<rparr>)
      else (Some DeleteFailed, l\<lparr>lc_deleted := False, lc_disk := (if gone then None else lc_disk l)\<rparr>))"

definition delete_run :: "bool \<Rightarrow> bool \<Rightarrow> bool \<Rightarrow> lifecycle \<Rightarrow> lifecycle_error option \<times> lifecycle" where
  "delete_run ok gone unlink_ok l =
     (if lc_deleted l then clear_linkage unlink_ok l
      else if lc_handle l \<noteq> None then (Some RunInFlight, l)
      else case lc_disk l of
             None \<Rightarrow> if lc_delete_job l = [] then (Some RunNotFound, l) else delete_artifacts ok gone unlink_ok l
           | Some (run, rest) \<Rightarrow>
               if is_in_flight_status (gr_status run) then (Some RunInFlight, l)
               else delete_artifacts ok gone unlink_ok (l\<lparr>lc_delete_job := gr_job_id run\<rparr>))"

subsection \<open>The machine\<close>

datatype lifecycle_op =
    LcSignal control_signal
  | LcClaim nat
  | LcRelaunchWrite int nat bool "bool list"
  | LcSchedTake nat
  | LcSchedWrite nat run_store
  | LcSchedExit nat
  | LcRepairRead nat
  | LcRepairMark int run_status string nat bool
  | LcRepairCommit nat bool bool
  | LcEditRead version_request nat
  | LcEditPrepare version_env version_request nat
  | LcEditCommit nat bool bool
  | LcDelete bool bool bool

definition sched_write :: "nat \<Rightarrow> run_store \<Rightarrow> lifecycle \<Rightarrow> lifecycle" where
  "sched_write g store l = (if g \<in> set (lc_live l) then l\<lparr>lc_disk := Some store\<rparr> else l)"

definition sched_take :: "nat \<Rightarrow> lifecycle \<Rightarrow> lifecycle" where
  "sched_take g l = (if g \<in> set (lc_live l) then l\<lparr>lc_queue := tl (lc_queue l)\<rparr> else l)"

definition sched_exit :: "nat \<Rightarrow> lifecycle \<Rightarrow> lifecycle" where
  "sched_exit g l = (if g \<in> set (lc_live l) then complete_control g (l\<lparr>lc_live := remove1 g (lc_live l)\<rparr>) else l)"

definition exec_call :: "lifecycle_op \<Rightarrow> lifecycle \<Rightarrow> lifecycle" where
  "exec_call op l =
     (case op of
        LcSignal sig \<Rightarrow> snd (signal_and_snapshot (QueuedControl sig) l)
      | LcClaim pid \<Rightarrow> snd (claim_relaunch pid l)
      | LcRelaunchWrite now pid ok oks \<Rightarrow> snd (relaunch_write now pid ok oks l)
      | LcSchedTake g \<Rightarrow> sched_take g l
      | LcSchedWrite g store \<Rightarrow> sched_write g store l
      | LcSchedExit g \<Rightarrow> sched_exit g l
      | LcRepairRead pid \<Rightarrow> snd (repair_read pid l)
      | LcRepairMark now target err pid loaded \<Rightarrow> repair_mark now target err pid loaded l
      | LcRepairCommit pid insts_ok run_ok \<Rightarrow> snd (repair_commit pid insts_ok run_ok l)
      | LcEditRead req pid \<Rightarrow> snd (edit_read req pid l)
      | LcEditPrepare ve req pid \<Rightarrow> snd (edit_prepare ve req pid l)
      | LcEditCommit pid ok adjust_ok \<Rightarrow> snd (edit_commit pid ok adjust_ok l)
      | LcDelete ok gone unlink_ok \<Rightarrow> snd (delete_run ok gone unlink_ok l))"

text \<open>A run loaded from disk when the process starts, and a run \<open>StartRun\<close> has just launched.\<close>

definition loaded_run :: "run_store \<Rightarrow> lifecycle" where
  "loaded_run store = \<lparr> lc_handle = None, lc_deleted = False, lc_delete_job = [], lc_queue = [], lc_done = [], lc_next = 0,
     lc_live = [], lc_calls = [], lc_disk = Some store, lc_linked = True \<rparr>"

definition launched_run :: "run_store \<Rightarrow> lifecycle" where
  "launched_run store = (snd (new_run_control (loaded_run store)))\<lparr>lc_live := [0]\<rparr>"

end
