(* ===== verification/GraphResumed.thy ===== *)
theory GraphResumed
  imports GraphResume GraphTrace
begin

section \<open>What a resumed run keeps\<close>

text \<open>
  The reset is exact, finished work survives every state of the resumed run, and a parked clarify node
  gives its conclusion. The second rests on a relation between a finished instance and the state,
  \<open>keeps\<close>, that every handler and every exit of the scheduler preserves: the record is in place, no
  work with that key is queued, and no loop scope belongs to it.
\<close>

subsection \<open>The walk through if-else nodes\<close>

text \<open>Where the active edges of a run have no cycle, the fuel of the walk is enough: more changes nothing.\<close>

definition active_arcs :: "edge_states \<Rightarrow> (string \<times> string) set" where
  "active_arcs edges = {(instance_key_string (es_source es), instance_key_string (es_target es)) | ek es. (ek, es) \<in> set edges \<and> es_status es = EdgeActive}"

lemma passthrough_fuel:
  fixes rank :: "string \<Rightarrow> nat"
  assumes "\<And>a b. (a, b) \<in> active_arcs (sc_edges s) \<Longrightarrow> rank a < rank b"
  shows "set edges \<subseteq> set (sc_edges s) \<Longrightarrow> rank k < n \<Longrightarrow> rank k < m \<Longrightarrow>
    passthrough_session n s edges k = passthrough_session m s edges k"
proof (induction "rank k" arbitrary: k n m edges rule: less_induct)
  case less
  obtain n' m' where nm: "n = Suc n'" "m = Suc m'" using less.prems(2,3) by (metis not_less_zero old.nat.exhaust)
  show ?case using less.prems(1) unfolding nm
  proof (induction edges)
    case (Cons e edges)
    obtain ek es where e: "e = (ek, es)" by fastforce
    show ?case
    proof (cases "es_status es = EdgeActive \<and> instance_key_string (es_target es) = k")
      case True
      then have "(instance_key_string (es_source es), k) \<in> active_arcs (sc_edges s)"
        using Cons.prems e by (auto simp: active_arcs_def)
      then have lower: "rank (instance_key_string (es_source es)) < rank k" by (rule assms)
      have same: "passthrough_session n' s (sc_edges s) (instance_key_string (es_source es))
          = passthrough_session m' s (sc_edges s) (instance_key_string (es_source es))"
        by (rule less.hyps [OF lower order_refl]) (use lower less.prems(2,3) nm in linarith)+
      have rest: "passthrough_session (Suc n') s edges k = passthrough_session (Suc m') s edges k" using Cons by simp
      show ?thesis using True
        by (cases "aget (sc_instances s) (instance_key_string (es_source es))") (simp_all add: e same rest Let_def)
    next
      case False
      have "passthrough_session (Suc n') s edges k = passthrough_session (Suc m') s edges k" using Cons by simp
      then show ?thesis using False by (simp only: e passthrough_session.simps) simp
    qed
  qed simp
qed

lemma acyclic_rank:
  assumes "acyclic (active_arcs edges)"
  shows "\<exists>rank. (\<forall>(a, b) \<in> active_arcs edges. rank a < rank b) \<and> (\<forall>k. rank k \<le> length edges)"
proof -
  let ?R = "active_arcs edges" and ?T = "(\<lambda>(ek, es). instance_key_string (es_target es)) ` set edges"
  let ?above = "\<lambda>k. {t \<in> ?T. (t, k) \<in> ?R\<^sup>*}"
  have "card (?above a) < card (?above b)" if "(a, b) \<in> ?R" for a b
  proof (rule psubset_card_mono)
    have "b \<in> ?above b" using that by (force simp: active_arcs_def)
    moreover have "b \<notin> ?above a" using that assms by (auto simp: acyclic_def dest: rtrancl_into_trancl2)
    moreover have "?above a \<subseteq> ?above b" using that by (auto intro: rtrancl_into_rtrancl)
    ultimately show "?above a \<subset> ?above b" by blast
  qed simp
  moreover have "card (?above k) \<le> length edges" for k
  proof -
    have "card (?above k) \<le> card ?T" by (rule card_mono) auto
    also have "\<dots> \<le> length edges" by (meson card_image_le card_length finite_set le_trans)
    finally show ?thesis .
  qed
  ultimately show ?thesis by (intro exI [of _ "\<lambda>k. card (?above k)"]) auto
qed

lemma passthrough_returns:
  assumes "acyclic (active_arcs (sc_edges s))" "Suc (length (sc_edges s)) \<le> n"
  shows "passthrough_session n s (sc_edges s) (instance_key_string key) = resume_if_else_passthrough_session s key"
proof -
  obtain rank where "\<forall>(a, b) \<in> active_arcs (sc_edges s). rank a < rank b" "\<forall>k. rank k \<le> length (sc_edges s)"
    using acyclic_rank [OF assms(1)] by blast
  then show ?thesis
    using passthrough_fuel [of s rank "sc_edges s" "instance_key_string key" n "Suc (length (sc_edges s))"] assms(2)
    by (auto simp: resume_if_else_passthrough_session_def less_Suc_eq_le order_le_less_trans intro: less_le_trans)
qed

subsection \<open>A finished instance stays\<close>

definition settled :: "instance_state \<Rightarrow> bool" where
  "settled st \<longleftrightarrow> is_status st = InstSucceeded \<or> is_status st = InstSkipped"

definition queued_keys :: "sched \<Rightarrow> string list" where
  "queued_keys s = map (\<lambda>x. instance_key_string (ri_key x)) (sc_ready s @ sc_in_flight s)"

definition keeps :: "string \<Rightarrow> instance_state \<Rightarrow> sched \<Rightarrow> bool" where
  "keeps k st s \<longleftrightarrow> aget (sc_instances s) k = Some st \<and> k \<notin> set (queued_keys s)
     \<and> (\<forall>i. sr_container (sc_scopes s i) \<noteq> [] \<longrightarrow> instance_key_string (sr_loop_key (sc_scopes s i)) \<noteq> k)"

lemma keeps_cong:
  "keeps k st s \<Longrightarrow> aget (sc_instances t) k = aget (sc_instances s) k \<Longrightarrow> set (queued_keys t) \<subseteq> set (queued_keys s) \<Longrightarrow>
   sc_scopes t = sc_scopes s \<Longrightarrow> keeps k st t"
  by (auto simp: keeps_def)

lemma fail_run_sched_instances [simp]: "sc_instances (fail_run_sched env msg s) = sc_instances s"
  by (simp add: fail_run_sched_def Let_def prim_defs)

lemma unless_over_keeps:
  assumes "keeps k st s" "\<And>t. keeps k st t \<Longrightarrow> sc_scopes t = sc_scopes s \<Longrightarrow> keeps k st (fst (f t))"
  shows "keeps k st (fst (unless_over env f s))"
proof (cases "run_limit_error s")
  case None
  have "keeps k st (persist s)" by (rule keeps_cong [OF assms(1)]) (simp_all add: persist_def queued_keys_def)
  then show ?thesis using None assms(2) [of "persist s"] by (simp add: unless_over_def check_run_limits_def persist_def)
next
  case (Some msg)
  have "keeps k st (fail_run_sched env msg s)" by (rule keeps_cong [OF assms(1)]) (simp_all add: queued_keys_def)
  then show ?thesis using Some by (simp add: unless_over_def check_run_limits_def)
qed

lemma keeps_scope:
  "keeps k st s \<Longrightarrow> sr_container sr = [] \<or> instance_key_string (sr_loop_key sr) \<noteq> k \<Longrightarrow> keeps k st (set_scope i sr s)"
  by (auto simp: keeps_def set_scope_def queued_keys_def)

lemma keeps_update_scope:
  "keeps k st s \<Longrightarrow> sr_container sr = sr_container (scope_at s i) \<Longrightarrow> sr_loop_key sr = sr_loop_key (scope_at s i) \<Longrightarrow>
   keeps k st (set_scope i sr s)"
  by (rule keeps_scope) (auto simp: keeps_def)

lemma same_keeps:
  assumes "keeps k st s"
  shows "keeps k st (emit ev s)" "keeps k st (persist s)" "keeps k st (fail_run_sched env msg s)" "keeps k st (sync_progress s)"
    "keeps k st (put_vars k' vs ws s)" "keeps k st (reach_main_end env node k' s)" "keeps k st (denom_adjust d s)"
    "keeps k st (announce_completion node k' vs s)" "keeps k st (mark_failed env n s)" "keeps k st (set_progress_error msg s)"
    "keeps k st (whitelist_agent_session env x s)" "keeps k st (record_session_lineage key node x y s)"
  using assms unfolding reach_main_end_def announce_completion_def Let_def
  by (auto intro!: keeps_cong [OF assms] simp: queued_keys_def prim_defs split: option.split)

lemma put_keeps:
  assumes "keeps k st s"
  shows "k' \<noteq> k \<Longrightarrow> keeps k st (put_instance k' st' s)" "keeps k st (add_live i d s)" "keeps k st (close_round i s)"
proof -
  show "k' \<noteq> k \<Longrightarrow> keeps k st (put_instance k' st' s)"
    by (rule keeps_cong [OF assms]) (simp_all add: put_instance_def queued_keys_def)
  show "keeps k st (add_live i d s)" unfolding add_live_def by (rule keeps_update_scope [OF assms]) simp_all
  show "keeps k st (close_round i s)" unfolding close_round_def Let_def case_prod_beta
    by (rule keeps_update_scope [OF assms]) simp_all
qed

lemma keeps_fields [simp]:
  "keeps k st (s\<lparr>sc_active_loops := a\<rparr>) = keeps k st s" "keeps k st (s\<lparr>sc_run := b\<rparr>) = keeps k st s"
  "keeps k st (s\<lparr>sc_edges := c\<rparr>) = keeps k st s" "keeps k st (s\<lparr>sc_contribs := d\<rparr>) = keeps k st s"
  "keeps k st (s\<lparr>sc_any_active := e\<rparr>) = keeps k st s" "keeps k st (s\<lparr>sc_in_remaining := f\<rparr>) = keeps k st s"
  "keeps k st (s\<lparr>sc_writers_by_key := g\<rparr>) = keeps k st s" "keeps k st (s\<lparr>sc_vars_by_key := g\<rparr>) = keeps k st s"
  "keeps k st (s\<lparr>sc_next_scope := h\<rparr>) = keeps k st s" "keeps k st (s\<lparr>sc_stop_scheduling := i\<rparr>) = keeps k st s"
  "keeps k st (s\<lparr>sc_end_reached := j\<rparr>) = keeps k st s" "keeps k st (s\<lparr>sc_awaiting := l\<rparr>) = keeps k st s"
  "keeps k st (s\<lparr>sc_step_stop := m\<rparr>) = keeps k st s" "keeps k st (s\<lparr>sc_session_stop := n\<rparr>) = keeps k st s"
  "keeps k st (s\<lparr>sc_stop_reason := q\<rparr>) = keeps k st s" "keeps k st (s\<lparr>sc_batch_seq := r\<rparr>) = keeps k st s"
  "keeps k st (s\<lparr>sc_cur_batch := t\<rparr>) = keeps k st s" "keeps k st (s\<lparr>sc_exited := u\<rparr>) = keeps k st s"
  "keeps k st (s\<lparr>sc_disk := v\<rparr>) = keeps k st s" "keeps k st (s\<lparr>sc_end_hook_fired := w\<rparr>) = keeps k st s"
  by (simp_all add: keeps_def queued_keys_def)

lemma keeps_drop_ready: "keeps k st s \<Longrightarrow> keeps k st (s\<lparr>sc_ready := []\<rparr>)"
  by (simp add: keeps_def queued_keys_def)

lemma keeps_loop_key: "keeps k st s \<Longrightarrow> sr_container (scope_at s i) \<noteq> [] \<Longrightarrow> instance_key_string (sr_loop_key (scope_at s i)) \<noteq> k"
  by (simp add: keeps_def)

lemma close_loop_keeps: 
  "keeps k st s \<Longrightarrow> instance_key_string (sr_loop_key loop) \<noteq> k \<Longrightarrow> keeps k st (close_loop_instance env loop s)"
  by (simp add: close_loop_instance_def Let_def same_keeps put_keeps)

lemma finish_loop_keeps:
  "keeps k st s \<Longrightarrow> instance_key_string (sr_loop_key (scope_at s i)) \<noteq> k \<Longrightarrow> keeps k st (fst (finish_loop env i s))"
  unfolding finish_loop_def Let_def by (rule unless_over_keeps) (simp_all add: close_loop_keeps same_keeps)

lemma fail_loop_node_keeps:
  "keeps k st s \<Longrightarrow> instance_key_string (sr_loop_key (scope_at s i)) \<noteq> k \<Longrightarrow> keeps k st (fail_loop_node env i msg s)"
  by (simp add: fail_loop_node_def Let_def same_keeps put_keeps)

lemma start_iteration_keeps: "keeps k st s \<Longrightarrow> keeps k st (fst (start_iteration env i idx s))"
  by (simp add: start_iteration_def Let_def same_keeps keeps_update_scope split: option.split)

lemma finish_iteration_keeps:
  assumes "keeps k st s" "instance_key_string (sr_loop_key (scope_at s i)) \<noteq> k"
  shows "keeps k st (fst (finish_iteration env i s))"
proof -
  have "sr_loop_key (scope_at (close_round i s) i) = sr_loop_key (scope_at s i)"
    by (simp add: close_round_def Let_def case_prod_beta set_scope_def)
  then show ?thesis using assms
    by (simp add: finish_iteration_def Let_def put_keeps finish_loop_keeps start_iteration_keeps fail_loop_node_keeps same_keeps
        split: loop_mode.split sum.split)
qed

lemma on_scope_quiesced_keeps: "keeps k st s \<Longrightarrow> keeps k st (fst (on_scope_quiesced env i s))"
  by (simp add: on_scope_quiesced_def finish_iteration_keeps keeps_loop_key)

lemma open_scope_keeps:
  "keeps k st s \<Longrightarrow> instance_key_string key \<noteq> k \<Longrightarrow> keeps k st (open_scope i node key vis wr infl s)"
  by (simp add: open_scope_def Let_def keeps_scope)

lemma start_loop_keeps:
  assumes "keeps k st s" "instance_key_string key \<noteq> k"
  shows "keeps k st (fst (start_loop env i node key vis wr infl s))"
  unfolding start_loop_def Let_def
proof (rule unless_over_keeps)
  show "keeps k st (sync_progress (put_instance (instance_key_string key) x s\<lparr>sc_writers_by_key := w\<rparr>))" for x w
    using assms by (simp add: same_keeps put_keeps)
  fix t assume "keeps k st t"
  let ?t = "open_scope i node key vis wr infl (add_live i 1 (emit (EvStarted (instance_key_string key)) t))"
  have "keeps k st ?t" using \<open>keeps k st t\<close> assms(2) by (simp add: same_keeps put_keeps open_scope_keeps)
  moreover have "sr_loop_key (scope_at ?t (sc_next_scope t)) = key"
    by (simp add: open_scope_def Let_def set_scope_def add_live_def emit_def)
  ultimately show "keeps k st (fst (if nc_loop_mode (n_config node) = LoopFixed \<and> nc_fixed_count (n_config node) \<le> 0
      then finish_loop env (sc_next_scope t) ?t else start_iteration env (sc_next_scope t) 0 ?t))"
    using assms(2) by (simp add: finish_loop_keeps start_iteration_keeps)
qed

lemma enqueue_keeps:
  assumes "keeps k st s" "instance_key_string key \<noteq> k"
  shows "keeps k st (fst (enqueue env i node key vis wr infl s))"
proof -
  have "keeps k st (t\<lparr>sc_ready := sc_ready t @ [item]\<rparr>)" if "keeps k st t" "ri_key item = key" for t item
    using that assms(2) by (auto simp: keeps_def queued_keys_def)
  note add = this
  show ?thesis using assms unfolding enqueue_def Let_def
    by (cases "sc_stop_scheduling s") (auto intro!: unless_over_keeps add simp: same_keeps put_keeps)
qed

lemma decide_if_else_keeps:
  "keeps k st s \<Longrightarrow> instance_key_string key \<noteq> k \<Longrightarrow> keeps k st (fst (decide_if_else env i node key vis wr infl s))"
  unfolding decide_if_else_def Let_def
  by (auto intro!: unless_over_keeps simp: same_keeps put_keeps split: sum.split)

lemma prune_node_keeps:
  "keeps k st s \<Longrightarrow> instance_key_string key \<noteq> k \<Longrightarrow> keeps k st (fst (prune_node env i node key s))"
  by (auto simp: prune_node_def skip_instance_def Let_def same_keeps put_keeps intro!: unless_over_keeps)

lemma decide_keeps:
  assumes "keeps k st s" "settled st"
  shows "keeps k st (fst (decide env i node key vis wr infl s))"
proof (cases "instance_key_string key = k")
  case True
  then show ?thesis using assms by (simp add: decide_def Let_def keeps_def settled_def)
next
  case False
  then show ?thesis using assms
    by (simp add: decide_def Let_def prune_node_keeps decide_if_else_keeps enqueue_keeps start_loop_keeps same_keeps
        keeps_update_scope split: option.split node_type.split)
qed

lemma resolve_edge_keeps:
  assumes "keeps k st s" "settled st"
  shows "keeps k st (fst (resolve_edge env i e active contrib s))"
proof -
  have "keeps k st (record_edge env i e active contrib s)"
    using assms(1) by (simp add: record_edge_def Let_def same_keeps)
  then show ?thesis using assms(2) by (simp add: resolve_edge_def Let_def case_prod_beta decide_keeps)
qed

lemma exec_frame_keeps: "keeps k st s \<Longrightarrow> settled st \<Longrightarrow> keeps k st (fst (exec_frame env f s))"
  by (cases f) (simp_all add: exec_frame_def resolve_edge_keeps decide_keeps on_scope_quiesced_keeps put_keeps)

lemma keeps_item: "keeps k st s \<Longrightarrow> i < length (sc_in_flight s) \<Longrightarrow> instance_key_string (ri_key (sc_in_flight s ! i)) \<noteq> k"
  by (auto simp: keeps_def queued_keys_def)

lemma keeps_remove: "keeps k st s \<Longrightarrow> keeps k st (s\<lparr>sc_in_flight := remove_at i (sc_in_flight s)\<rparr>)"
  by (auto simp: keeps_def queued_keys_def remove_at_def dest: in_set_takeD in_set_dropD)

lemma complete_instance_keeps:
  "keeps k st s \<Longrightarrow> instance_key_string (ri_key item) \<noteq> k \<Longrightarrow> keeps k st (snd (complete_instance env item outcome st' s))"
  by (simp add: complete_instance_def Let_def same_keeps put_keeps)

lemma fail_instance_keeps:
  "keeps k st s \<Longrightarrow> instance_key_string key \<noteq> k \<Longrightarrow> keeps k st (fail_instance env st' key node msg fin infl outcome s)"
  by (simp add: fail_instance_def Let_def same_keeps put_keeps)

lemma after_completion_keeps:
  "keeps k st s \<Longrightarrow> instance_key_string (ri_key item) \<noteq> k \<Longrightarrow> keeps k st (fst (after_completion env item outcome st' s))"
  by (simp add: after_completion_def Let_def same_keeps put_keeps keeps_update_scope keeps_drop_ready)

lemma handle_result_keeps:
  "keeps k st s \<Longrightarrow> instance_key_string (ri_key item) \<noteq> k \<Longrightarrow> keeps k st (fst (handle_result env item res partial s))"
  by (auto simp: handle_result_def Let_def case_prod_beta same_keeps fail_instance_keeps
      intro!: unless_over_keeps complete_instance_keeps after_completion_keeps split: sum.split)

lemma dispatch_keeps:
  assumes "keeps k st s"
  shows "keeps k st (dispatch s)"
proof (cases "next_dispatchable_index s")
  case (Some i)
  have "i < length xs" if "first_index P xs = Some i" for P xs
    using that by (induction xs arbitrary: i) (auto split: if_splits)
  then have "i < length (sc_ready s)" using Some by (simp add: next_dispatchable_index_def)
  then show ?thesis using assms Some
    by (auto simp: dispatch_def keeps_def queued_keys_def remove_at_def dest: in_set_takeD in_set_dropD)
qed (use assms in \<open>simp add: dispatch_def\<close>)

lemma session_opened_keeps:
  assumes "keeps k st s" "settled st"
  shows "keeps k st (handle_session_opened env key session s)"
proof (cases "instance_key_string key = k")
  case True
  have "aget (sc_instances s) k = Some st" using assms(1) by (simp add: keeps_def)
  then have "handle_session_opened env key session s = (if session = [] then s else whitelist_agent_session env session s)"
    using True assms(2) by (auto simp: handle_session_opened_def Let_def settled_def)
  then show ?thesis using assms(1) by (simp add: same_keeps)
next
  case False
  then show ?thesis using assms by (simp add: handle_session_opened_def Let_def same_keeps put_keeps split: option.split)
qed

lemma interrupt_settled: "settled st \<Longrightarrow> interrupt_instance n reason st = st"
  by (auto simp: interrupt_instance_def settled_def)

lemma interrupt_keeps:
  assumes "keeps k st s" "settled st"
  shows "keeps k st (interrupt_running env reason s)"
proof -
  have emits: "keeps k st (fold (\<lambda>(k, st). emit (EvFailed k)) xs t)" if "keeps k st t" for xs t
    using that by (rule keeps_cong) (simp_all add: queued_keys_def)
  have "keeps k st (s\<lparr>sc_instances := map (\<lambda>(k, st). (k, interrupt_instance (env_now env) reason st)) (sc_instances s)\<rparr>)"
    using assms by (simp add: keeps_def queued_keys_def interrupt_settled aget_map_values)
  then show ?thesis by (simp add: interrupt_running_def Let_def same_keeps emits)
qed

lemma drain_keeps: "keeps k st s \<Longrightarrow> settled st \<Longrightarrow> keeps k st (drain env ds s)"
  by (induction env ds s rule: drain.induct)
    (auto simp: Let_def session_opened_keeps keeps_remove same_keeps)

lemma rollback_item_keeps: "keeps k st s \<Longrightarrow> settled st \<Longrightarrow> keeps k st (rollback_item item s)"
  by (auto simp: rollback_item_def Let_def keeps_def queued_keys_def settled_def split: option.split)

lemma rollback_keeps: "keeps k st s \<Longrightarrow> settled st \<Longrightarrow> keeps k st (rollback_undispatched s)"
proof -
  have "keeps k st (fold rollback_item xs s)" if "keeps k st s" "settled st" for xs s
    using that by (induction xs arbitrary: s) (auto simp: rollback_item_keeps)
  then show "keeps k st s \<Longrightarrow> settled st \<Longrightarrow> keeps k st (rollback_undispatched s)"
    by (simp add: rollback_undispatched_def keeps_drop_ready)
qed

lemma set_job_keeps [simp]: "keeps k st (set_job env j r x s) = keeps k st s"
  by (simp add: keeps_def queued_keys_def)

lemma exits_keep:
  assumes "keeps k st s" "settled st"
  shows "keeps k st (settle env s)" "keeps k st (hard_stop env reason ds s)" "keeps k st (failed_exit env ds s)"
    "keeps k st (context_done env deadline msg ds s)"
  using assms
  by (simp_all add: settle_def hard_stop_def failed_exit_def context_done_def exit_loop_def finish_graceful_def finish_awaiting_def
      complete_run_def finish_stopped_def finish_for_context_error_def settle_status_def snapshot_loop_state_def Let_def
      same_keeps rollback_keeps drain_keeps interrupt_keeps)

lemma controls_keep:
  assumes "keeps k st s"
  shows "keeps k st (fst (apply_graceful_signal env sig s))" "keeps k st (fst (cancel_graceful_signal env reason s))"
  using assms
  by (auto simp: apply_graceful_signal_def cancel_graceful_signal_def freeze_current_batch_def clear_frozen_batch_def set_status_def
      Let_def same_keeps split: control_signal.split)

lemma exec_op_keeps:
  assumes "keeps k st (snd m)" "settled st"
  shows "keeps k st (snd (exec_op eop m))"
proof -
  obtain env op fs s where e: "eop = (env, op)" "m = (fs, s)" by (metis prod.exhaust)
  have s: "keeps k st s" using assms(1) e by simp
  have drained: "keeps k st t \<Longrightarrow> keeps k st (snd (when_drained s t))" for t using s by (simp add: when_drained_def)
  have "keeps k st (snd (run_call env (fs, s)))"
    using s assms(2) exec_frame_keeps by (auto simp: run_call_def case_prod_beta split: list.split)
  moreover have "keeps k st (snd (loop_step env op s))"
    using s exits_keep [OF s assms(2)] controls_keep [OF s] session_opened_keeps [OF s assms(2)] dispatch_keeps [OF s]
      handle_result_keeps [OF keeps_remove [OF s]] keeps_item [OF s]
    by (auto simp: loop_step_def swap_frames_def drained split: sched_op.split control_signal.split)
  ultimately show ?thesis using s exits_keep [OF s assms(2)]
    by (auto simp: exec_op_def e drained split: sched_op.split)
qed

lemma run_keeps: "keeps k st (snd m) \<Longrightarrow> settled st \<Longrightarrow> keeps k st (snd (fold exec_op ops m))"
  by (induction ops arbitrary: m) (simp_all add: exec_op_keeps)


subsection \<open>The reset\<close>

lemma reset_instance_lookup:
  "aget (rb_instances (reset_instance k rb)) x = (if x = k then None else aget (rb_instances rb) x)"
  "aget (rb_vars (reset_instance k rb)) x = (if x = k then None else aget (rb_vars rb) x)"
  "rb_edges (reset_instance k rb) = rb_edges rb"
  "rb_instances (reset_instance k rb) = adel k (rb_instances rb)"
  by (simp_all add: reset_instance_def Let_def split: option.split)

definition keeps_session :: "instance_state \<Rightarrow> bool" where
  "keeps_session st \<longleftrightarrow> is_session st \<noteq> [] \<or> is_display_session st \<noteq> []"

lemma reset_instance_archive:
  "aget (rb_archived (reset_instance k rb)) x =
     (case aget (rb_instances rb) k of
        Some st \<Rightarrow> if x = k \<and> keeps_session st then Some st else aget (rb_archived rb) x
      | None \<Rightarrow> aget (rb_archived rb) x)"
  "aget (rb_reset_version (reset_instance k rb)) x =
     (case aget (rb_instances rb) k of
        Some st \<Rightarrow> if x = k \<and> is_version st > 0 then Some (is_version st) else aget (rb_reset_version rb) x
      | None \<Rightarrow> aget (rb_reset_version rb) x)"
  by (auto simp: reset_instance_def Let_def keeps_session_def split: option.split)

lemma reset_all:
  "aget (rb_instances (fold reset_instance ks rb)) x = (if x \<in> set ks then None else aget (rb_instances rb) x)"
  "aget (rb_vars (fold reset_instance ks rb)) x = (if x \<in> set ks then None else aget (rb_vars rb) x)"
  "rb_edges (fold reset_instance ks rb) = rb_edges rb"
  "distinct (akeys (rb_instances rb)) \<Longrightarrow> distinct (akeys (rb_instances (fold reset_instance ks rb)))"
  by (induction ks arbitrary: rb) (simp_all add: reset_instance_lookup)

lemma reset_all_archive:
  "aget (rb_archived (fold reset_instance ks rb)) x =
     (case aget (rb_instances rb) x of
        Some st \<Rightarrow> if x \<in> set ks \<and> keeps_session st then Some st else aget (rb_archived rb) x
      | None \<Rightarrow> aget (rb_archived rb) x)"
  "aget (rb_reset_version (fold reset_instance ks rb)) x =
     (case aget (rb_instances rb) x of
        Some st \<Rightarrow> if x \<in> set ks \<and> is_version st > 0 then Some (is_version st) else aget (rb_reset_version rb) x
      | None \<Rightarrow> aget (rb_reset_version rb) x)"
  by (induction ks arbitrary: rb) (auto simp: reset_instance_lookup reset_instance_archive split: option.split)

lemma in_reset_set:
  assumes "distinct (akeys insts)" "aget insts k = Some st"
  shows "k \<in> set (compute_reset_set ls insts) \<longleftrightarrow>
     is_resettable_status (is_status st) \<and> \<not> ahas ls k
     \<or> in_loop st \<and> top_loop st \<in> set (wholesale_loops ls insts) \<or> k \<in> set (wholesale_loops ls insts)"
proof -
  have mem: "(k, st') \<in> set insts \<longleftrightarrow> st' = st" for st'
    using assms by (metis akeys_def map_of_eq_Some_iff option.inject)
  have "k \<in> set (map fst (filter P insts)) \<longleftrightarrow> P (k, st)" for P
    using mem by force
  then show ?thesis by (auto simp: compute_reset_set_def Let_def resets_itself_def)
qed

lemma relaunch_store:
  "relaunch now (run, insts, edges, vs) = (run', insts', edges', vs') \<Longrightarrow>
     aget insts' x = (if x \<in> set (compute_reset_set (loop_states_of run) insts) then None else aget insts x)
     \<and> edges' = drop_reset_edges (compute_reset_set (loop_states_of run) insts) edges
     \<and> (distinct (akeys insts) \<longrightarrow> distinct (akeys insts'))"
  by (auto simp: relaunch_def Let_def reset_resettable_def new_resume_builder_def reset_all)

subsection \<open>Loading keeps what is finished\<close>

lemma load_store_keeps:
  assumes "aget insts k = Some st" "sc_ready s = []" "sc_in_flight s = []" "sc_scopes s = (\<lambda>i. zero_scope)"
  shows "keeps k (with_inferred_writers st) (load_store insts edges vs s)"
  using assms by (simp add: keeps_def load_store_def queued_keys_def aget_map_values zero_scope_def)

lemma settled_with_writers [simp]: "settled (with_inferred_writers st) = settled st"
  by (simp add: settled_def with_inferred_writers_def)

lemma finalize_keeps:
  assumes "keeps k st s" "settled st" "distinct (akeys (sc_instances s))"
  shows "keeps k st (finalize_awaiting_clarify env reader s)"
proof -
  have one: "keeps k st (finalize_clarify env reader (k', st') t)" if "keeps k st t" "k' = k \<longrightarrow> st' = st" for t k' st'
    using that assms(2) by (auto simp: finalize_clarify_def Let_def settled_def same_keeps put_keeps split: option.split)
  have "keeps k st (fold (finalize_clarify env reader) xs t)"
    if "keeps k st t" "\<forall>(k', st') \<in> set xs. k' = k \<longrightarrow> st' = st" for xs t
    using that by (induction xs arbitrary: t) (auto simp: one)
  moreover have "\<forall>(k', st') \<in> set (sc_instances s). k' = k \<longrightarrow> st' = st"
    using assms(1,3) unfolding akeys_def keeps_def by (metis (mono_tags, lifting) case_prodI2 map_of_eq_Some_iff option.inject)
  ultimately show ?thesis using assms(1) by (simp add: finalize_awaiting_clarify_def)
qed

lemma rebuild_loop_keeps:
  assumes "keeps k st (fst acc)" "settled st"
  shows "keeps k st (fst (rebuild_loop lss key acc))"
proof (cases "instance_key_string key = k")
  case True
  then have "rebuild_loop lss key acc = acc"
    using assms by (auto simp: rebuild_loop_def Let_def keeps_def settled_def case_prod_beta split: option.split)
  with assms show ?thesis by simp
next
  case False
  have "keeps k st (set_scope j (rebuilt_scope rc node key parent p ls) (fst acc))" for j rc node parent p ls
    using assms(1) False by (intro keeps_scope) (simp_all add: rebuilt_scope_def)
  then show ?thesis
    using assms(1) False by (simp add: rebuild_loop_def Let_def case_prod_beta same_keeps put_keeps split: option.split)
qed

lemma rebuild_keeps: "keeps k st s \<Longrightarrow> settled st \<Longrightarrow> keeps k st (fst (rebuild_loop_scopes s))"
proof -
  have "keeps k st (fst (fold (rebuild_loop lss) keys acc))" if "keeps k st (fst acc)" "settled st" for lss keys acc
    using that by (induction keys arbitrary: acc) (simp_all add: rebuild_loop_keeps)
  then show "keeps k st s \<Longrightarrow> settled st \<Longrightarrow> keeps k st (fst (rebuild_loop_scopes s))"
    by (simp add: rebuild_loop_scopes_def Let_def)
qed

lemma count_edges_keeps: "keeps k st s \<Longrightarrow> keeps k st (fold (\<lambda>(ek, es). count_edge es) xs s)"
  by (induction xs arbitrary: s) (auto simp: count_edge_def Let_def case_prod_beta)

lemma mark_ends_keeps: "keeps k st s \<Longrightarrow> keeps k st (fold mark_end_reached xs s)"
proof (induction xs arbitrary: s)
  case (Cons x xs)
  have "keeps k st (mark_end_reached x s)"
    using Cons(2) by (auto simp: mark_end_reached_def case_prod_beta split: option.split)
  then show ?case using Cons(1) by simp
qed simp

lemma seed_resume_keeps:
  assumes "distinct (akeys insts)" "aget insts k = Some st" "settled st"
    and "sc_ready s = []" "sc_in_flight s = []" "sc_scopes s = (\<lambda>i. zero_scope)"
  shows "keeps k (with_inferred_writers st) (fst (seed_resume env reader insts edges vs s))"
proof -
  have "akeys (sc_instances (load_store insts edges vs s)) = akeys insts" by (auto simp: load_store_def akeys_def)
  then have "keeps k (with_inferred_writers st) (finalize_awaiting_clarify env reader (load_store insts edges vs s))"
    using assms by (intro finalize_keeps load_store_keeps) simp_all
  then show ?thesis
    using assms(3) by (simp add: seed_resume_def Let_def case_prod_beta rebuild_keeps count_edges_keeps mark_ends_keeps)
qed

lemma start_resume_keeps:
  assumes "distinct (akeys insts)" "aget insts k = Some st" "settled st"
  shows "keeps k (with_inferred_writers st) (snd (start_resume env reader (run, insts, edges, vs)))"
  using assms by (simp add: start_resume_def Let_def swap_frames_def seed_resume_keeps)


subsection \<open>Parked clarify nodes\<close>

lemma held_edges_active:
  "aget (fold (held_edge now node) es edges) k =
     (case aget (fold (held_edge now node) es []) k of Some x \<Rightarrow> Some x | None \<Rightarrow> aget edges k)"
  by (induction es rule: rev_induct) (auto simp: held_edge_def)

lemma held_edge_status: "aget (fold (held_edge now node) es []) k = Some x \<Longrightarrow> es_status x = EdgeActive"
  by (induction es rule: rev_induct) (auto simp: held_edge_def split: if_splits)

definition edge_active :: "string \<Rightarrow> sched \<Rightarrow> bool" where
  "edge_active ek s \<longleftrightarrow> (case aget (sc_edges s) ek of Some es \<Rightarrow> es_status es = EdgeActive | None \<Rightarrow> False)"

lemma held_edges_edge_active:
  "edge_active ek s \<or> ek \<in> (\<lambda>e. edge_state_key (e_id e) (scope_key [] (e_target e))) ` set es \<Longrightarrow>
   edge_active ek (s\<lparr>sc_edges := fold (held_edge now node) es (sc_edges s)\<rparr>)"
proof (induction es rule: rev_induct)
  case (snoc e es)
  then show ?case by (auto simp: edge_active_def held_edge_def split: option.splits)
qed (auto simp: edge_active_def)

lemma finalize_clarify_fields:
  "sc_nodes (finalize_clarify env reader x s) = sc_nodes s" "sc_out (finalize_clarify env reader x s) = sc_out s"
  "edge_active ek s \<Longrightarrow> edge_active ek (finalize_clarify env reader x s)"
proof -
  show "sc_nodes (finalize_clarify env reader x s) = sc_nodes s" "sc_out (finalize_clarify env reader x s) = sc_out s"
    by (simp_all add: finalize_clarify_def Let_def case_prod_beta prim_defs split: option.split)
  assume active: "edge_active ek s"
  have "edge_active ek (emit ev t) = edge_active ek t" for ev t by (simp add: edge_active_def emit_def)
  moreover have "edge_active ek (put_vars k vs ws (put_instance k st s)) = edge_active ek s" for k vs ws st
    by (simp add: edge_active_def prim_defs)
  ultimately show "edge_active ek (finalize_clarify env reader x s)"
    using active by (simp add: finalize_clarify_def Let_def case_prod_beta held_edges_edge_active split: option.split)
qed

text \<open>The instance a parked clarify node becomes when the run goes on.\<close>

definition concluded :: "sched_env \<Rightarrow> reader \<Rightarrow> graph_node \<Rightarrow> vars \<Rightarrow> instance_state \<Rightarrow> instance_state" where
  "concluded env reader node ws st = finalized_instance (env_now env) node (read_clarify_conclusion reader st) ws st"

lemma settled_concluded: "settled (concluded env reader node ws st)"
  by (simp add: settled_def concluded_def finalized_instance_def)

lemma finalize_parked:
  assumes "keeps k st s" "is_status st = InstAwaitingInput" "aget (sc_nodes s) (is_node_id st) = Some node"
    and "aget xs k = Some st" "distinct (akeys xs)"
  shows "case fold (finalize_clarify env reader) xs s of t \<Rightarrow>
    (\<exists>ws. keeps k (concluded env reader node ws st) t)
    \<and> (\<forall>e \<in> set (outs_of s (n_id node)). edge_active (edge_state_key (e_id e) (scope_key [] (e_target e))) t)"
  using assms
proof (induction xs arbitrary: s)
  case (Cons x xs)
  obtain k' st' where x: "x = (k', st')" by fastforce
  let ?t = "finalize_clarify env reader x s"
  have distinct: "distinct (akeys xs)" "k' \<notin> set (akeys xs)" using Cons.prems(5) x by (auto simp: akeys_def)
  show ?case
  proof (cases "k' = k")
    case False
    then have "keeps k st ?t"
      using Cons.prems(1) x by (auto simp: finalize_clarify_def Let_def same_keeps put_keeps split: option.split)
    moreover have "outs_of ?t i = outs_of s i" for i by (simp add: outs_of_def finalize_clarify_fields)
    ultimately show ?thesis
      using Cons.IH [of ?t] Cons.prems(2-4) distinct(1) False x by (simp add: finalize_clarify_fields)
  next
    case True
    then have st': "st' = st" using Cons.prems(4) x by simp
    let ?ws = "infer_writers_from_state st (case aget (sc_writers_by_key s) k of Some ws \<Rightarrow> ws | None \<Rightarrow> [])"
    let ?new = "concluded env reader node ?ws st"
    have t: "?t = emit (EvCompleted (instance_key_string (is_key ?new)))
        ((put_vars k (is_visible ?new) (is_writers ?new) (put_instance k ?new s))
          \<lparr>sc_edges := fold (held_edge (env_now env) node) (outs_of s (n_id node)) (sc_edges s)\<rparr>)"
      using Cons.prems(2,3) x True st'
      by (simp add: finalize_clarify_def Let_def concluded_def) (simp add: outs_of_def prim_defs)
    have "keeps k ?new (put_instance k ?new s)"
      using Cons.prems(1) by (simp add: keeps_def put_instance_def queued_keys_def)
    then have "keeps k ?new ?t" unfolding t by (simp add: same_keeps)
    moreover have "edge_active (edge_state_key (e_id e) (scope_key [] (e_target e))) ?t" if "e \<in> set (outs_of s (n_id node))" for e
    proof -
      have "edge_active (edge_state_key (e_id e) (scope_key [] (e_target e)))
          (s\<lparr>sc_edges := fold (held_edge (env_now env) node) (outs_of s (n_id node)) (sc_edges s)\<rparr>)"
        by (rule held_edges_edge_active) (use that in auto)
      then show ?thesis unfolding t by (simp add: edge_active_def prim_defs)
    qed
    moreover have "keeps k ?new (fold (finalize_clarify env reader) xs u)" if "keeps k ?new u" "k \<notin> set (akeys xs)" for xs u
      using that
    proof (induction xs arbitrary: u)
      case (Cons y xs)
      have "keeps k ?new (finalize_clarify env reader y u)"
        using Cons.prems by (cases y) (auto simp: finalize_clarify_def Let_def same_keeps put_keeps akeys_def split: option.split)
      then show ?case using Cons by (simp add: akeys_def)
    qed simp
    moreover have "edge_active ek (fold (finalize_clarify env reader) xs u)" if "edge_active ek u" for ek xs u
      using that by (induction xs arbitrary: u) (simp_all add: finalize_clarify_fields)
    ultimately show ?thesis using distinct True by (auto simp del: fold_simps simp: fold_simps(2))
  qed
qed simp


lemma quiet_seed_edges:
  "sc_edges (fst (rebuild_loop_scopes s)) = sc_edges s" "sc_edges (fold (\<lambda>(ek, es). count_edge es) xs s) = sc_edges s"
  "sc_edges (fold mark_end_reached ys s) = sc_edges s"
  "outs_of (fst (rebuild_loop_scopes s)) i = outs_of s i" "outs_of (fold (\<lambda>(ek, es). count_edge es) xs s) i = outs_of s i"
  "outs_of (fold mark_end_reached ys s) i = outs_of s i"
proof -
  have "sc_edges (fst (rebuild_loop lss key acc)) = sc_edges (fst acc)" "sc_out (fst (rebuild_loop lss key acc)) = sc_out (fst acc)" for lss key acc
    by (simp_all add: rebuild_loop_def Let_def case_prod_beta prim_defs split: option.split)
  then have "sc_edges (fst (fold (rebuild_loop lss) keys acc)) = sc_edges (fst acc)"
    "sc_out (fst (fold (rebuild_loop lss) keys acc)) = sc_out (fst acc)" for lss keys acc
    by (induction keys arbitrary: acc) simp_all
  then show "sc_edges (fst (rebuild_loop_scopes s)) = sc_edges s" "outs_of (fst (rebuild_loop_scopes s)) i = outs_of s i"
    by (simp_all add: rebuild_loop_scopes_def Let_def outs_of_def)
  have "sc_edges (count_edge es t) = sc_edges t \<and> sc_out (count_edge es t) = sc_out t" for es t
    by (simp add: count_edge_def Let_def case_prod_beta)
  then show "sc_edges (fold (\<lambda>(ek, es). count_edge es) xs s) = sc_edges s"
    "outs_of (fold (\<lambda>(ek, es). count_edge es) xs s) i = outs_of s i"
    by (induction xs arbitrary: s) (simp_all add: case_prod_beta outs_of_def)
  have "sc_edges (mark_end_reached y t) = sc_edges t \<and> sc_out (mark_end_reached y t) = sc_out t" for y t
    by (simp add: mark_end_reached_def case_prod_beta split: option.split)
  then show "sc_edges (fold mark_end_reached ys s) = sc_edges s" "outs_of (fold mark_end_reached ys s) i = outs_of s i"
    by (induction ys arbitrary: s) (simp_all add: outs_of_def)
qed

lemma finalize_outs: "outs_of (finalize_awaiting_clarify env reader s) i = outs_of s i"
proof -
  have "sc_out (fold (finalize_clarify env reader) xs s) = sc_out s" for xs s
    by (induction xs arbitrary: s) (simp_all add: finalize_clarify_fields)
  then show ?thesis by (simp add: finalize_awaiting_clarify_def outs_of_def)
qed

lemma load_store_simps:
  "sc_nodes (load_store insts edges vs s) = sc_nodes s" "akeys (sc_instances (load_store insts edges vs s)) = akeys insts"
  "aget (sc_instances (load_store insts edges vs s)) k = map_option with_inferred_writers (aget insts k)"
  "outs_of (load_store insts edges vs s) i = outs_of s i"
  by (auto simp: load_store_def aget_map_values akeys_def outs_of_def)

lemma with_writers_simps [simp]:
  "is_status (with_inferred_writers st) = is_status st" "is_node_id (with_inferred_writers st) = is_node_id st"
  by (simp_all add: with_inferred_writers_def)

lemma seed_resume_parked:
  assumes "distinct (akeys insts)" "aget insts k = Some st" "is_status st = InstAwaitingInput"
    and "aget (sc_nodes s) (is_node_id st) = Some node"
    and "sc_ready s = []" "sc_in_flight s = []" "sc_scopes s = (\<lambda>i. zero_scope)"
  shows "case fst (seed_resume env reader insts edges vs s) of t \<Rightarrow>
    (\<exists>ws. keeps k (concluded env reader node ws (with_inferred_writers st)) t)
    \<and> (\<forall>e \<in> set (outs_of t (n_id node)). edge_active (edge_state_key (e_id e) (scope_key [] (e_target e))) t)"
proof -
  let ?l = "load_store insts edges vs s"
  have "case finalize_awaiting_clarify env reader ?l of t \<Rightarrow>
      (\<exists>ws. keeps k (concluded env reader node ws (with_inferred_writers st)) t)
      \<and> (\<forall>e \<in> set (outs_of ?l (n_id node)). edge_active (edge_state_key (e_id e) (scope_key [] (e_target e))) t)"
    unfolding finalize_awaiting_clarify_def
    by (rule finalize_parked) (use assms in \<open>simp_all add: load_store_keeps load_store_simps\<close>)
  then obtain ws where ws: "keeps k (concluded env reader node ws (with_inferred_writers st)) (finalize_awaiting_clarify env reader ?l)"
    and edges: "\<forall>e \<in> set (outs_of ?l (n_id node)).
      edge_active (edge_state_key (e_id e) (scope_key [] (e_target e))) (finalize_awaiting_clarify env reader ?l)"
    by blast
  let ?t = "fst (seed_resume env reader insts edges vs s)"
  have "keeps k (concluded env reader node ws (with_inferred_writers st)) ?t"
    using ws by (simp add: seed_resume_def Let_def case_prod_beta rebuild_keeps count_edges_keeps mark_ends_keeps settled_concluded)
  moreover have "sc_edges ?t = sc_edges (finalize_awaiting_clarify env reader ?l)" "outs_of ?t (n_id node) = outs_of ?l (n_id node)"
    by (simp_all add: seed_resume_def Let_def case_prod_beta quiet_seed_edges finalize_outs)
  ultimately show ?thesis using edges by (auto simp: edge_active_def)
qed

lemma aget_put_names: "aget (fold (\<lambda>name. aput name v) names m) x = (if x \<in> set names then Some v else aget m x)"
  by (induction names arbitrary: m) auto

lemma concluded_values:
  "is_status (concluded env reader node ws st) = InstSucceeded"
  "x = last_assistant_key \<or> x \<in> set (conclusion_names node) \<Longrightarrow>
     aget (is_visible (concluded env reader node ws st)) x = Some (read_clarify_conclusion reader st)"
  "x \<in> set (conclusion_names node) \<Longrightarrow>
     aget (is_outputs (concluded env reader node ws st)) x = Some (read_clarify_conclusion reader st)"
  by (auto simp: concluded_def finalized_instance_def Let_def aget_put_names)

lemma relaunch_config: "relaunch now (run, insts, edges, vs) = (run', insts', edges', vs') \<Longrightarrow> effective_config run' = effective_config run"
  by (auto simp: relaunch_def Let_def effective_config_def cong: option.case_cong)

subsection \<open>Properties\<close>

lemma reset_archive_distinct:
  "distinct (akeys (rb_archived rb)) \<Longrightarrow> distinct (akeys (rb_archived (fold reset_instance ks rb)))"
  "distinct (akeys (rb_reset_version rb)) \<Longrightarrow> distinct (akeys (rb_reset_version (fold reset_instance ks rb)))"
  by (induction ks arbitrary: rb) (simp_all add: reset_instance_def Let_def split: option.split)

text \<open>C35: A relaunch throws away exactly what cannot be relied on: an instance goes if it failed, was interrupted
  or had not ended (a snapshotted loop container excepted), or if it belongs to a top-level loop, or is
  one, whose scope was not snapshotted although something in it has to run again. Every other
  instance keeps its record and its variables. What goes is archived with its session, its version is
  kept for the retry, and an edge it emitted goes with it; no other edge does.\<close>

theorem relaunch_resets_exactly_unfinished:
  assumes "distinct (akeys insts)" "aget insts k = Some st"
    and "relaunch now (run, insts, edges, vs) = (run', insts', edges', vs')"
    and "ls = loop_states_of run" "lost = wholesale_loops ls insts"
  shows "let goes = is_resettable_status (is_status st) \<and> \<not> ahas ls k \<or> in_loop st \<and> top_loop st \<in> set lost \<or> k \<in> set lost in
    aget insts' k = (if goes then None else Some st)
    \<and> aget vs' k = (if goes then None else aget vs k)
    \<and> (goes \<and> (is_session st \<noteq> [] \<or> is_display_session st \<noteq> []) \<longrightarrow> aget (gr_archived run') k = Some st)
    \<and> (goes \<and> is_version st > 0 \<longrightarrow> aget (gr_retry_versions run') k = Some (is_version st))
    \<and> (\<forall>(ek, es) \<in> set edges. instance_key_string (es_source es) = k \<longrightarrow> ((ek, es) \<in> set edges' \<longleftrightarrow> \<not> goes))"
proof -
  let ?ks = "compute_reset_set ls insts" and ?rb = "new_resume_builder insts edges vs"
  have goes: "(is_resettable_status (is_status st) \<and> \<not> ahas ls k \<or> in_loop st \<and> top_loop st \<in> set lost \<or> k \<in> set lost) = (k \<in> set ?ks)"
    using in_reset_set [OF assms(1,2), of ls] assms(5) by simp
  have eqs: "insts' = rb_instances (fold reset_instance ?ks ?rb)" "vs' = rb_vars (fold reset_instance ?ks ?rb)"
    "edges' = drop_reset_edges ?ks edges"
    "gr_archived run' = fold (\<lambda>(k, st). aput k st) (rb_archived (fold reset_instance ?ks ?rb)) (gr_archived run)"
    "gr_retry_versions run' = fold (\<lambda>(k, v). aput k v) (rb_reset_version (fold reset_instance ?ks ?rb)) (gr_retry_versions run)"
    using assms(3,4) by (auto simp: relaunch_def Let_def reset_resettable_def new_resume_builder_def reset_all)
  have rb: "rb_instances ?rb = insts" "rb_vars ?rb = vs" "rb_archived ?rb = []" "rb_reset_version ?rb = []"
    by (simp_all add: new_resume_builder_def)
  have distinct: "distinct (akeys (rb_archived (fold reset_instance ?ks ?rb)))" "distinct (akeys (rb_reset_version (fold reset_instance ?ks ?rb)))"
    by (rule reset_archive_distinct; simp add: rb akeys_def)+
  have arch: "aget (gr_archived run') k = Some st" if "k \<in> set ?ks" "is_session st \<noteq> [] \<or> is_display_session st \<noteq> []"
    using that assms(2) by (simp add: eqs fold_aput_lookup distinct rb reset_all_archive keeps_session_def)
  have ver: "aget (gr_retry_versions run') k = Some (is_version st)" if "k \<in> set ?ks" "is_version st > 0"
    using that assms(2) by (simp add: eqs fold_aput_lookup distinct rb reset_all_archive)
  show ?thesis
    unfolding goes Let_def using arch ver assms(2)
    by (auto simp: eqs(1-3) reset_all rb drop_reset_edges_def)
qed

text \<open>C7: A resumed run never does finished work again. An instance that had succeeded or was skipped, and is not
  in (or itself) a loop that has to start over, keeps its record through every state of the resumed run,
  whatever the workers answer and whatever is signalled, and is never handed to a worker again.\<close>

theorem resume_never_redoes_finished_work:
  assumes "distinct (akeys insts)" "aget insts k = Some st" "is_status st \<in> {InstSucceeded, InstSkipped}"
    and "lost = wholesale_loops (loop_states_of run) insts" "k \<notin> set lost" "in_loop st \<longrightarrow> top_loop st \<notin> set lost"
  shows "case snd (fold exec_op ops (start_resume env reader (relaunch now (run, insts, edges, vs)))) of s \<Rightarrow>
    aget (sc_instances s) k = Some (with_inferred_writers st)
    \<and> (\<forall>item \<in> set (sc_ready s) \<union> set (sc_in_flight s). instance_key_string (ri_key item) \<noteq> k)"
proof -
  obtain run' insts' edges' vs' where r: "relaunch now (run, insts, edges, vs) = (run', insts', edges', vs')"
    by (metis prod.exhaust)
  have st: "settled st" using assms(3) by (auto simp: settled_def)
  have "k \<notin> set (compute_reset_set (loop_states_of run) insts)"
    using in_reset_set [OF assms(1,2), of "loop_states_of run"] assms(3-6) by auto
  then have "aget insts' k = Some st" "distinct (akeys insts')"
    using relaunch_store [OF r, of k] assms(1,2) by simp_all
  then have "keeps k (with_inferred_writers st) (snd (start_resume env reader (run', insts', edges', vs')))"
    using st by (intro start_resume_keeps)
  then have "keeps k (with_inferred_writers st) (snd (fold exec_op ops (start_resume env reader (run', insts', edges', vs'))))"
    using st by (intro run_keeps) simp_all
  then show ?thesis by (auto simp: r keeps_def queued_keys_def)
qed

text \<open>A parked clarify node gives what the discussion concluded. When its run goes on, the instance is
  succeeded in every later state, the conclusion is its last assistant message and the value of its
  alias and of each declared output, and each of its out-edges is recorded as active.\<close>

theorem continue_delivers_conclusion:
  assumes "distinct (akeys insts)" "aget insts k = Some st" "is_status st = InstAwaitingInput"
    and "aget (nodes_by_id (effective_config run)) (is_node_id st) = Some node"
    and "lost = wholesale_loops (loop_states_of run) insts" "k \<notin> set lost" "in_loop st \<longrightarrow> top_loop st \<notin> set lost"
  shows "case start_resume env reader (relaunch now (run, insts, edges, vs)) of m \<Rightarrow>
    (case aget (sc_instances (snd (fold exec_op ops m))) k of None \<Rightarrow> False
     | Some st' \<Rightarrow> is_status st' = InstSucceeded
         \<and> (\<forall>x \<in> insert last_assistant_key (set (conclusion_names node)). aget (is_visible st') x = Some (read_clarify_conclusion reader st))
         \<and> (\<forall>x \<in> set (conclusion_names node). aget (is_outputs st') x = Some (read_clarify_conclusion reader st)))
    \<and> (\<forall>e \<in> set (outs_of (snd m) (n_id node)). case aget (sc_edges (snd m)) (edge_state_key (e_id e) (scope_key [] (e_target e))) of
         None \<Rightarrow> False | Some es \<Rightarrow> es_status es = EdgeActive)"
proof -
  obtain run' insts' edges' vs' where r: "relaunch now (run, insts, edges, vs) = (run', insts', edges', vs')"
    by (metis prod.exhaust)
  let ?m = "start_resume env reader (run', insts', edges', vs')"
  have "k \<notin> set (compute_reset_set (loop_states_of run) insts)"
    using in_reset_set [OF assms(1,2), of "loop_states_of run"] assms(3-7) by auto
  then have "aget insts' k = Some st" "distinct (akeys insts')"
    using relaunch_store [OF r, of k] assms(1,2) by simp_all
  then have "case snd ?m of t \<Rightarrow> (\<exists>ws. keeps k (concluded env reader node ws (with_inferred_writers st)) t)
      \<and> (\<forall>e \<in> set (outs_of t (n_id node)). edge_active (edge_state_key (e_id e) (scope_key [] (e_target e))) t)"
    using assms(3,4) unfolding start_resume_def prod.case Let_def swap_frames_def snd_conv
    by (intro seed_resume_parked) (simp_all add: relaunch_config [OF r] new_scheduler_def index_def Let_def case_prod_beta set_job_def)
  then obtain ws where ws: "keeps k (concluded env reader node ws (with_inferred_writers st)) (snd ?m)"
    and edges: "\<forall>e \<in> set (outs_of (snd ?m) (n_id node)). edge_active (edge_state_key (e_id e) (scope_key [] (e_target e))) (snd ?m)"
    by blast
  have "keeps k (concluded env reader node ws (with_inferred_writers st)) (snd (fold exec_op ops ?m))"
    using ws settled_concluded by (rule run_keeps)
  then have "aget (sc_instances (snd (fold exec_op ops ?m))) k = Some (concluded env reader node ws (with_inferred_writers st))"
    by (simp add: keeps_def)
  moreover have "read_clarify_conclusion reader (with_inferred_writers st) = read_clarify_conclusion reader st"
    by (simp add: read_clarify_conclusion_def with_inferred_writers_def)
  ultimately show ?thesis using edges concluded_values by (auto simp: r edge_active_def)
qed


subsection \<open>A parked run\<close>

text \<open>A shell has succeeded, another has failed, and a clarify node waits for the user.\<close>

definition talk :: graph_config where
  "talk = mk_config
     [mk_node ''s'' NStart [] empty_node_config, mk_node ''a'' NShell [] empty_node_config,
      mk_node ''c'' NClarify [] (empty_node_config\<lparr>nc_output_variables := [''plan'']\<rparr>), mk_node ''f'' NShell [] empty_node_config,
      mk_node ''e'' NEnd [] empty_node_config]
     [mk_edge ''1'' ''s'' ''a'', mk_edge ''2'' ''a'' ''c'', mk_edge ''3'' ''c'' ''e'', mk_edge ''4'' ''s'' ''f'', mk_edge ''5'' ''f'' ''e'']"

definition talk_node :: "string \<Rightarrow> node_type \<Rightarrow> instance_status \<Rightarrow> instance_state" where
  "talk_node i t st = new_instance (mk_node i t [] empty_node_config) (scope_key [] i) st 1"

definition waiting :: instance_state where
  "waiting = (talk_node ''c'' NClarify InstAwaitingInput)\<lparr>is_session := ''chat''\<rparr>"

definition planner :: graph_node where
  "planner = mk_node ''c'' NClarify [] (empty_node_config\<lparr>nc_output_variables := [''plan'']\<rparr>)"

definition talk_instances :: instances where
  "talk_instances = [(''a'', talk_node ''a'' NShell InstSucceeded),
     (''c'', waiting), (''f'', talk_node ''f'' NShell InstFailed)]"

lemma talk_simps:
  "distinct (akeys talk_instances)" "aget talk_instances ''a'' = Some (talk_node ''a'' NShell InstSucceeded)"
  "aget talk_instances ''c'' = Some waiting"
  "aget talk_instances ''f'' = Some (talk_node ''f'' NShell InstFailed)"
  "wholesale_loops [] talk_instances = []" "is_status (talk_node i t st) = st" "is_node_id (talk_node i t st) = i"
  "\<not> in_loop (talk_node i t st)" "loop_states_of (demo_run talk) = []" "effective_config (demo_run talk) = talk"
  by (simp_all add: talk_instances_def waiting_def akeys_def loop_states_of_def demo_run_def wholesale_loops_def talk_node_def new_instance_def
      scope_key_def in_loop_def resets_itself_def effective_config_def mk_simps)

theorem relaunch_resets_exactly_unfinished_witness:
  "aget (fst (snd (relaunch 0 (demo_run talk, talk_instances, [], [])))) ''f'' = None"
proof -
  obtain run' insts' edges' vs' where r: "relaunch 0 (demo_run talk, talk_instances, [], []) = (run', insts', edges', vs')"
    by (metis prod.exhaust)
  show ?thesis
    using relaunch_resets_exactly_unfinished [OF talk_simps(1,4) r refl refl]
    by (simp add: r talk_simps)
qed

theorem resume_never_redoes_finished_work_witness:
  "aget (sc_instances (snd (fold exec_op [(demo_env, OpCall), (demo_env, OpDispatch)]
     (start_resume demo_env (\<lambda>x. None) (relaunch 0 (demo_run talk, talk_instances, [], [])))))) ''a''
   = Some (with_inferred_writers (talk_node ''a'' NShell InstSucceeded))"
  using resume_never_redoes_finished_work [OF talk_simps(1,2), of "[]" "demo_run talk" "[(demo_env, OpCall), (demo_env, OpDispatch)]"
      demo_env "\<lambda>x. None" 0 "[]" "[]"]
  by (simp add: talk_simps del: fold_simps)

lemma waiting_simps:
  "is_status waiting = InstAwaitingInput" "is_node_id waiting = ''c''" "\<not> in_loop waiting" "is_session waiting = ''chat''"
  "is_display_session waiting = []" "n_id planner = ''c''" "set (conclusion_names planner) = {''plan''}"
  by (simp_all add: waiting_def talk_node_def new_instance_def in_loop_def scope_key_def zero_instance_def planner_def mk_simps
      conclusion_names_def empty_node_config_def)

lemma talk_clarify: "aget (nodes_by_id talk) ''c'' = Some planner"
  by (simp add: nodes_by_id_def talk_def mk_simps planner_def)

lemma waiting_conclusion: "read_clarify_conclusion (\<lambda>x. Some ''go'') waiting = ''go''"
proof -
  have "trim_space ''chat'' = ''chat''" by (rule trim_space_graphic) (simp_all add: graphic_def)
  then show ?thesis by (simp add: read_clarify_conclusion_def waiting_simps first_non_empty_def)
qed

theorem continue_delivers_conclusion_witness:
  "case aget (sc_instances (snd (start_resume demo_env (\<lambda>x. Some ''go'') (relaunch 0 (demo_run talk, talk_instances, [], []))))) ''c'' of
     None \<Rightarrow> False | Some st \<Rightarrow> is_status st = InstSucceeded \<and> aget (is_outputs st) ''plan'' = Some ''go''"
  using continue_delivers_conclusion [OF talk_simps(1,3), where run = "demo_run talk" and node = planner and lost = "[]" and env = demo_env
      and reader = "\<lambda>x. Some ''go''" and now = 0 and edges = "[]" and vs = "[]" and ops = "[]"]
  by (auto simp: talk_simps talk_clarify waiting_simps waiting_conclusion split: option.splits)

subsection \<open>Evaluating a resumed run\<close>

definition shell_done :: "string \<Rightarrow> instance_state" where
  "shell_done i = new_instance (mk_node i NShell [] empty_node_config) (scope_key [] i) InstSucceeded 1"

text \<open>A shell that has succeeded, and a resolved edge of the main graph.\<close>

definition active_edge :: "string \<Rightarrow> string \<Rightarrow> string \<Rightarrow> string \<times> edge_state" where
  "active_edge i a b = (edge_state_key i (scope_key [] b), \<lparr> es_edge_id = i, es_source = scope_key [] a, es_target = scope_key [] b,
     es_status = EdgeActive, es_resolved_at = 0, es_reason = [] \<rparr>)"

lemma new_scheduler_fields:
  "sc_nodes (new_scheduler run cfg) = nodes_by_id cfg" "sc_out (new_scheduler run cfg) = out_index cfg"
  "sc_in_degree (new_scheduler run cfg) = degree_index cfg" "sc_loop_entry (new_scheduler run cfg) = entry_index cfg"
  "sc_in_remaining (new_scheduler run cfg) = []" "sc_any_active (new_scheduler run cfg) = []" "sc_contribs (new_scheduler run cfg) = []"
  "sc_active_loops (new_scheduler run cfg) = []" "\<not> sc_step_stop (new_scheduler run cfg)" "\<not> sc_session_stop (new_scheduler run cfg)"
  "\<not> sc_awaiting (new_scheduler run cfg)" "sc_end_hook_fired (new_scheduler run cfg) = []" "\<not> sc_stop_scheduling (new_scheduler run cfg)"
  "\<not> sc_end_reached (new_scheduler run cfg)"
  by (simp_all add: new_scheduler_def index_def Let_def case_prod_beta out_index_def degree_index_def entry_index_def)

lemma shell_done_simps: "is_status (shell_done i) = InstSucceeded" "is_key (shell_done i) = scope_key [] i" "is_node_id (shell_done i) = i"
  "is_session (shell_done i) = []" "is_node_type (shell_done i) = NShell" "with_inferred_writers (shell_done i) = shell_done i"
  by (simp_all add: shell_done_def new_instance_def zero_instance_def mk_simps with_inferred_writers_def infer_writers_from_state_def)

lemma infer_done: "infer_writers_from_state (shell_done i) ws = ws"
  by (simp add: shell_done_def new_instance_def zero_instance_def mk_simps infer_writers_from_state_def)

lemmas resume_simps = start_resume_def swap_frames_def seed_resume_def load_store_def finalize_awaiting_clarify_def finalize_clarify_def
  rebuild_loop_scopes_def sort_instance_keys_by_depth_def count_edge_def resume_source_contrib_def persisted_contrib_def
  mark_end_reached_def node_id_from_key_string_def frontier_item_def resume_key_def scope_for_key_def new_scheduler_fields
  new_scheduler_simps set_job_def initial_variable_writers_def

end
