(* ===== verification/GraphVersioned.thy ===== *)
theory GraphVersioned
  imports GraphVersion GraphResumed
begin

section \<open>What an edit of a run guarantees\<close>

text \<open>
  An accepted edit keeps the history of the run; the exact content of the comparison of two nodes; and
  two edits the check gets wrong: one that it accepts although the resumed run then leaves out a node,
  and one on which it does not return.
\<close>

lemma string_slice_equal_iff: "string_slice_equal a b \<longleftrightarrow> a = b"
  by (auto simp: string_slice_equal_def list_all_iff intro: nth_equalityI)

lemma int_ptr_equal_iff: "int_ptr_equal a b \<longleftrightarrow> a = b"
  by (cases a; cases b) (auto simp: int_ptr_equal_def)

definition without_hooks :: "node_config \<Rightarrow> node_config" where
  "without_hooks c = c\<lparr>nc_hook_script := [], nc_end_hook_mode := HookDefault\<rparr>"

lemma execution_config_equal_iff:
  "execution_config_equal a b \<longleftrightarrow> n_type a = n_type b \<and> n_parent a = n_parent b
     \<and> without_hooks (n_config a) = without_hooks (n_config b)"
  by (cases "n_config a"; cases "n_config b")
    (auto simp: execution_config_equal_def Let_def string_slice_equal_iff int_ptr_equal_iff without_hooks_def)

text \<open>The walk ends where every parent is a loop, as in every configuration the validator accepts.\<close>

lemma inside_loop_direct:
  assumes "n_parent n = [] \<or> (\<forall>p. aget nodes (n_parent n) = Some p \<longrightarrow> n_type p = NLoop)"
  shows "node_inside_loop nodes n = Some (n_parent n \<noteq> [] \<and> aget nodes (n_parent n) \<noteq> None)"
  using assms by (auto simp: node_inside_loop_def split: option.split)

lemma frozen_node_checked:
  assumes "validate_version_edit old new insts = []" "(k, st) \<in> set insts" "is_status st \<in> {InstSucceeded, InstSkipped, InstRunning}"
  shows "check_frozen_node (nodes_by_id old) (nodes_by_id new) (is_node_id st) = []"
proof -
  have "is_node_id st \<in> set (frozen_nodes insts)"
    using assms(2,3) by (force simp: frozen_nodes_def)
  then show ?thesis using assms(1) by (auto simp: validate_version_edit_def)
qed

lemma completed_edge_checked:
  assumes "validate_version_edit old new insts = []" "(k, st) \<in> set insts" "is_status st \<in> {InstSucceeded, InstSkipped}"
    and "e \<in> set (gc_edges old)" "e_source e = is_node_id st \<or> e_target e = is_node_id st"
  shows "e_id e \<in> e_id ` set (gc_edges new)"
proof -
  have "is_node_id st \<in> set (completed_nodes insts)"
    using assms(2,3) by (force simp: completed_nodes_def)
  moreover have "check_completed_edge (completed_nodes insts) (map e_id (gc_edges new)) e = []"
    using assms(1,4) by (auto simp: validate_version_edit_def)
  ultimately show ?thesis using assms(5) by (auto simp: check_completed_edge_def split: if_splits)
qed

lemma prepared_cases:
  assumes "prepare_run_version ve req insts run = Inr run'"
  obtains "run' = run"
  | cfg where "normalize_workflow_agent_references (ve_resolve ve) (vq_config req) = Inr cfg" "validate_config cfg = []"
      "validate_version_edit (effective_config run) cfg insts = []"
      "run' = run\<lparr>gr_versions := gr_versions run @ [\<lparr> rv_version = gr_current_version run + 1, rv_config = cfg \<rparr>],
         gr_current_version := gr_current_version run + 1, gr_updated_at := ve_now ve\<rparr>"
proof -
  obtain cfg where cfg: "normalize_workflow_agent_references (ve_resolve ve) (vq_config req) = Inr cfg"
    using assms by (cases "normalize_workflow_agent_references (ve_resolve ve) (vq_config req)") (simp_all add: prepare_run_version_def)
  let ?revisions = "filter (\<lambda>i. i \<noteq> []) (vq_update_revision_nodes req)"
  show thesis
  proof (cases "graph_config_no_op_equal (effective_config run) cfg \<and> \<not> vq_display_changed req \<and> ?revisions = []")
    case True
    then show thesis using assms cfg by (intro that(1)) (simp add: prepare_run_version_def)
  next
    case False
    have ok: "validate_config cfg = [] \<and> validate_version_edit (effective_config run) cfg insts = []"
      by (rule ccontr) (use assms cfg False in \<open>simp add: prepare_run_version_def Let_def split: if_splits\<close>)
    have "revision_error cfg insts ?revisions = None"
      using assms cfg False ok by (cases "revision_error cfg insts ?revisions") (simp_all add: prepare_run_version_def Let_def)
    moreover have "ve_snapshot_error ve cfg = None"
      using assms cfg False ok calculation by (cases "ve_snapshot_error ve cfg") (simp_all add: prepare_run_version_def Let_def)
    ultimately show thesis using assms cfg False ok
      by (intro that(2) [OF cfg]) (simp_all add: prepare_run_version_def Let_def)
  qed
qed




subsection \<open>Two edits\<close>

definition demo_edit :: version_env where
  "demo_edit = \<lparr> ve_now = 0, ve_resolve = (\<lambda>x. Inr None), ve_snapshot_error = (\<lambda>cfg. None) \<rparr>"

definition edit_to :: "graph_config \<Rightarrow> version_request" where
  "edit_to cfg = \<lparr> vq_config = cfg, vq_display_changed = False, vq_update_revision_nodes = [] \<rparr>"

text \<open>The successor edge of a finished node keeps its identifier and now leads to a new node.\<close>

definition rewired :: graph_config where
  "rewired = mk_config
     [mk_node ''s'' NStart [] empty_node_config, mk_node ''w'' NShell [] empty_node_config,
      mk_node ''x'' NShell [] empty_node_config, mk_node ''e'' NEnd [] empty_node_config]
     [mk_edge ''1'' ''s'' ''w'', mk_edge ''2'' ''w'' ''x'', mk_edge ''3'' ''x'' ''e'']"

lemma no_agents:
  "normalize_workflow_agent_references (ve_resolve demo_edit) rewired = Inr rewired"
  by (simp add: normalize_workflow_agent_references_def rewired_def mk_config_def mk_simps is_agent_def demo_edit_def)

definition stopped_solo :: graph_run where
  "stopped_solo = (demo_run solo)\<lparr>gr_status := RunStepStopped\<rparr>"

definition rewired_run :: graph_run where
  "rewired_run = stopped_solo\<lparr>gr_versions := [\<lparr> rv_version = 2, rv_config = rewired \<rparr>], gr_current_version := 2\<rparr>"

lemma rewired_accepted:
  "prepare_run_version demo_edit (edit_to rewired) [(''w'', shell_done ''w'')] stopped_solo = Inr rewired_run"
proof -
  have "validate_config rewired = []" "validate_version_edit solo rewired [(''w'', shell_done ''w'')] = []" 
     "\<not> graph_config_no_op_equal solo rewired" by code_simp+
  then show ?thesis
    by (simp add: prepare_run_version_def edit_to_def no_agents effective_config_def demo_run_simps rewired_run_def stopped_solo_def)
      (simp add: demo_run_def demo_edit_def)
qed

definition rewired_store :: run_store where
  "rewired_store = (rewired_run, [(''w'', shell_done ''w'')], [active_edge ''1'' ''s'' ''w'', active_edge ''2'' ''w'' ''e''], [(''w'', [])])"

lemma rewired_lookups:
  "aget (degree_index rewired) ''w'' = Some 1" "aget (degree_index rewired) ''e'' = Some 1" 
  "aget (nodes_by_id rewired) ''w'' = Some (mk_node ''w'' NShell [] empty_node_config)"
  "aget (nodes_by_id rewired) ''e'' = Some (mk_node ''e'' NEnd [] empty_node_config)"
  "aget (nodes_by_id rewired) ''s'' = Some (mk_node ''s'' NStart [] empty_node_config)"
  by code_simp+


lemma rewired_config: "gc_run_config rewired = empty_run_config" "gc_variables rewired = []" "gc_disabled_vars rewired = []"
  by (simp_all add: rewired_def mk_simps)

definition settles :: "sched \<Rightarrow> bool" where
  "settles s \<longleftrightarrow> sc_end_reached s \<and> sc_ready s = [] \<and> sc_in_flight s = [] \<and> \<not> sc_failed s \<and> \<not> sc_exited s
     \<and> \<not> sc_step_stop s \<and> \<not> sc_session_stop s \<and> \<not> sc_awaiting s \<and> aget (sc_instances s) ''x'' = None"

lemma rewired_relaunch:
  "relaunch 0 rewired_store = (rewired_run\<lparr>gr_status := RunRunning, gr_progress := map_option (\<lambda>p. p\<lparr>gp_last_error := []\<rparr>) (gr_progress rewired_run)\<rparr>,
     snd rewired_store)"
  by (simp add: relaunch_def rewired_store_def rewired_run_def stopped_solo_def Let_def reset_resettable_def new_resume_builder_def compute_reset_set_def
      wholesale_loops_def resets_itself_def loop_states_of_def shell_done_def new_instance_def drop_reset_edges_def)
   (simp add: demo_run_def)

lemma rewired_run_simps: "gr_resume rewired_run = None" "gr_started_at rewired_run = 0" "gr_archived rewired_run = []"
  "gr_retry_versions rewired_run = []" "gr_current_version rewired_run = 2" "gr_id rewired_run = ''r''"
  by (simp_all add: rewired_run_def stopped_solo_def demo_run_simps) (simp_all add: demo_run_def)

lemma rewired_config_again: "effective_config (rewired_run\<lparr>gr_status := st, gr_progress := p\<rparr>) = rewired"
  by (simp add: effective_config_def rewired_run_def)

lemma rewired_finishes: "case calls 2 (start_resume demo_env (\<lambda>x. None) (relaunch 0 rewired_store)) of (fs, s) \<Rightarrow> fs = [] \<and> settles s"
  unfolding rewired_relaunch
  by (simp add: rewired_store_def active_edge_def resume_simps run_simps rewired_config rewired_lookups rewired_config_again
      rewired_run_simps shell_done_simps infer_done loop_states_of_def reach_main_end_def settles_def cong: by_value)


text \<open>C36: The check compares edges by identifier only. An edit that points the out-edge of a finished node at a
  new node, under the same identifier, is accepted; the resumed run takes the edge as resolved, finds
  the end reached and completes without ever running the new node.\<close>

theorem rewired_edge_skips_new_node:
  "prepare_run_version demo_edit (edit_to rewired) [(''w'', shell_done ''w'')] stopped_solo = Inr rewired_run
   \<and> (case fold exec_op [(demo_env, OpCall), (demo_env, OpCall), (demo_env, OpSettle)]
           (start_resume demo_env (\<lambda>x. None) (relaunch 0 rewired_store)) of (fs, s) \<Rightarrow>
       sc_exited s \<and> gr_status (sc_run s) = RunCompleted \<and> aget (sc_instances s) ''x'' = None)"
proof (intro conjI)
  show "prepare_run_version demo_edit (edit_to rewired) [(''w'', shell_done ''w'')] stopped_solo = Inr rewired_run"
    by (rule rewired_accepted)
  obtain fs s where m: "calls 2 (start_resume demo_env (\<lambda>x. None) (relaunch 0 rewired_store)) = (fs, s)" by fastforce
  then have s: "fs = []" "settles s" using rewired_finishes by simp_all
  have two: "calls 2 m = fold exec_op [(demo_env, OpCall), (demo_env, OpCall)] m" for m by (simp add: numeral_2_eq_2)
  show "case fold exec_op [(demo_env, OpCall), (demo_env, OpCall), (demo_env, OpSettle)]
      (start_resume demo_env (\<lambda>x. None) (relaunch 0 rewired_store)) of (fs, s) \<Rightarrow>
    sc_exited s \<and> gr_status (sc_run s) = RunCompleted \<and> aget (sc_instances s) ''x'' = None"
    using m s unfolding two
    by (simp add: settles_def exec_op_def loop_step_def has_dispatchable_def next_dispatchable_index_def settle_def exit_loop_def
        complete_run_def settle_status_def Let_def prim_defs)
qed

definition untangled :: graph_config where
  "untangled = mk_config
     [mk_node ''s'' NStart [] empty_node_config, mk_node ''a'' NShell [] empty_node_config,
      mk_node ''b'' NShell [] empty_node_config, mk_node ''e'' NEnd [] empty_node_config]
     [mk_edge ''1'' ''s'' ''a'', mk_edge ''2'' ''a'' ''b'', mk_edge ''3'' ''b'' ''e'']"

definition tangled :: graph_config where
  "tangled = mk_config
     [mk_node ''s'' NStart [] empty_node_config, mk_node ''a'' NShell ''b'' empty_node_config,
      mk_node ''b'' NShell ''a'' empty_node_config, mk_node ''e'' NEnd [] empty_node_config]
     [mk_edge ''1'' ''s'' ''a'', mk_edge ''2'' ''a'' ''b'', mk_edge ''3'' ''b'' ''e'']"

lemma tangled_walk: "p = ''a'' \<or> p = ''b'' \<Longrightarrow> loop_walk n (nodes_by_id tangled) p = None"
proof (induction n arbitrary: p)
  case (Suc n)
  have "aget (nodes_by_id tangled) ''a'' = Some (mk_node ''a'' NShell ''b'' empty_node_config)"
    "aget (nodes_by_id tangled) ''b'' = Some (mk_node ''b'' NShell ''a'' empty_node_config)" by code_simp+
  with Suc show ?case by (auto simp: mk_simps)
qed simp

text \<open>An invalid edit in which two shells are each other's parent is reported by the validator, but the check
  against the run is made all the same, and when one of the two has an instance its walk up the parents
  never ends: the scheduler of the run that took the edit hangs.\<close>

theorem edit_check_hangs_on_parent_cycle:
  "validate_config untangled = [] \<and> validate_config tangled \<noteq> [] \<and> (\<forall>n. loop_walk n (nodes_by_id tangled) ''b'' = None)
   \<and> WalkStuck ''a'' \<in> set (validate_version_edit untangled tangled [(''a'', shell_done ''a'')])"
proof (intro conjI allI)
  show "validate_config untangled = []" "validate_config tangled \<noteq> []" by code_simp+
  show "WalkStuck ''a'' \<in> set (validate_version_edit untangled tangled [(''a'', shell_done ''a'')])" by code_simp
qed (simp add: tangled_walk)

end
