(* ===== verification/GraphLifecycled.thy ===== *)
theory GraphLifecycled
  imports GraphLifecycle GraphVersioned
begin

section \<open>What every interleaving of calls keeps\<close>

text \<open>
  The invariant of the lifecycle machine, which every operation keeps: the handle, the one live
  scheduler and the one relaunch in progress agree, ended generations stay ended, and a deleted run has
  neither handle nor files. From it follow who may write a run's files and when; and two interleavings
  in which a call acts on what it read too early are followed to their end.
\<close>

subsection \<open>The invariant\<close>

fun relaunch_gen :: "call \<Rightarrow> nat option" where
  "relaunch_gen (Relaunching g store n) = Some g"
| "relaunch_gen _ = None"

definition relaunch_of :: "lifecycle \<Rightarrow> nat \<Rightarrow> nat option" where
  "relaunch_of l pid = Option.bind (aget (lc_calls l) pid) relaunch_gen"

definition lc_ok :: "lifecycle \<Rightarrow> bool" where
  "lc_ok l \<longleftrightarrow> distinct (lc_live l) \<and> (\<forall>g \<in> set (lc_live l). lc_handle l = Some g)
     \<and> (\<forall>pid g. relaunch_of l pid = Some g \<longrightarrow> lc_handle l = Some g \<and> lc_live l = [])
     \<and> (\<forall>pid g pid' g'. relaunch_of l pid = Some g \<longrightarrow> relaunch_of l pid' = Some g' \<longrightarrow> pid = pid')
     \<and> (\<forall>g. lc_handle l = Some g \<longrightarrow> g < lc_next l \<and> g \<notin> set (lc_done l))
     \<and> (\<forall>g \<in> set (lc_done l). g < lc_next l)
     \<and> (lc_deleted l \<longrightarrow> lc_handle l = None \<and> lc_disk l = None)"

lemma relaunch_of_simps [simp]:
  "relaunch_of (l\<lparr>lc_queue := q\<rparr>) = relaunch_of l" "relaunch_of (l\<lparr>lc_delete_job := j\<rparr>) = relaunch_of l"
  "relaunch_of (l\<lparr>lc_linked := b\<rparr>) = relaunch_of l" "relaunch_of (l\<lparr>lc_disk := d\<rparr>) = relaunch_of l"
  "relaunch_of (l\<lparr>lc_handle := h\<rparr>) = relaunch_of l" "relaunch_of (l\<lparr>lc_live := v\<rparr>) = relaunch_of l"
  "relaunch_of (l\<lparr>lc_done := e\<rparr>) = relaunch_of l" "relaunch_of (l\<lparr>lc_deleted := x\<rparr>) = relaunch_of l"
  "relaunch_of (l\<lparr>lc_next := n\<rparr>) = relaunch_of l"
  "relaunch_of (l\<lparr>lc_calls := aput pid c (lc_calls m)\<rparr>) p = (if p = pid then relaunch_gen c else relaunch_of m p)"
  "relaunch_of (l\<lparr>lc_calls := adel pid (lc_calls m)\<rparr>) p = (if p = pid then None else relaunch_of m p)"
  by (simp_all add: relaunch_of_def fun_eq_iff)

lemma lc_ok_fields [simp]:
  "lc_ok (l\<lparr>lc_queue := q\<rparr>) = lc_ok l" "lc_ok (l\<lparr>lc_delete_job := j\<rparr>) = lc_ok l" "lc_ok (l\<lparr>lc_linked := b\<rparr>) = lc_ok l"
  by (simp_all add: lc_ok_def)

lemma on_disk_ok: "lc_ok l \<Longrightarrow> lc_ok (on_disk f l)"
  by (auto simp: on_disk_def lc_ok_def)

lemma end_call_ok: "lc_ok l \<Longrightarrow> lc_ok (end_call pid l)"
  unfolding lc_ok_def end_call_def by (auto split: if_splits)

lemma restore_ok: "lc_ok l \<Longrightarrow> lc_ok (restore_original original oks l)"
  unfolding restore_original_def by (rule on_disk_ok)

lemma new_call_ok: "lc_ok l \<Longrightarrow> relaunch_gen c = None \<Longrightarrow> lc_ok (l\<lparr>lc_calls := aput pid c (lc_calls l)\<rparr>)"
  unfolding lc_ok_def by (auto split: if_splits)

lemma send_ok: "lc_ok l \<Longrightarrow> lc_ok (snd (send_control_to_handle sig l))"
  by (simp add: send_control_to_handle_def)

lemma signal_ok: "lc_ok l \<Longrightarrow> lc_ok (snd (signal_and_snapshot sig l))"
  by (auto simp: signal_and_snapshot_def send_ok split: option.split)

lemma no_handle: "lc_ok l \<Longrightarrow> lc_handle l = None \<Longrightarrow> lc_live l = [] \<and> relaunch_of l pid = None"
  unfolding lc_ok_def by (cases "lc_live l"; cases "relaunch_of l pid") auto

lemma new_control_ok:
  assumes "lc_ok l" "lc_handle l = None" "\<not> lc_deleted l"
  shows "case new_run_control l of (g, m) \<Rightarrow> lc_ok (m\<lparr>lc_calls := aput pid (Relaunching g store n) (lc_calls m)\<rparr>)"
  using assms no_handle [OF assms(1,2)] unfolding new_run_control_def lc_ok_def by (auto split: if_splits)

lemma claim_ok:
  assumes "lc_ok l" shows "lc_ok (snd (claim_relaunch pid l))"
  using assms new_control_ok [OF assms, of pid]
  by (auto simp: claim_relaunch_def case_prod_beta split: option.split)

lemma complete_ok:
  assumes "lc_ok l" "lc_handle l = Some g" "lc_live l = []" "\<And>pid. relaunch_of l pid = None"
  shows "lc_ok (complete_control g l)"
  using assms unfolding complete_control_def lc_ok_def by (auto simp: Let_def)

lemma relaunch_alone:
  assumes "lc_ok l" "relaunch_of l pid = Some g"
  shows "lc_handle l = Some g" "lc_live l = []" "\<not> lc_deleted l" "p \<noteq> pid \<Longrightarrow> relaunch_of l p = None"
proof -
  show "lc_handle l = Some g" "lc_live l = []" "\<not> lc_deleted l" using assms unfolding lc_ok_def by auto
  show "p \<noteq> pid \<Longrightarrow> relaunch_of l p = None"
    using assms unfolding lc_ok_def by (cases "relaunch_of l p") auto
qed

lemma keep_call_ok:
  assumes "lc_ok l" "relaunch_of l pid = relaunch_gen c"
  shows "lc_ok (l\<lparr>lc_calls := aput pid c (lc_calls l)\<rparr>)"
proof -
  have "relaunch_of (l\<lparr>lc_calls := aput pid c (lc_calls l)\<rparr>) = relaunch_of l" using assms(2) by (simp add: fun_eq_iff)
  then show ?thesis using assms(1) by (simp add: lc_ok_def)
qed

lemma end_call_fields: "relaunch_of (end_call pid l) p = (if p = pid then None else relaunch_of l p)"
  "lc_handle (end_call pid l) = lc_handle l" "lc_live (end_call pid l) = lc_live l" "lc_deleted (end_call pid l) = lc_deleted l"
  by (simp_all add: end_call_def)

lemma relaunch_failed_ok:
  assumes "lc_ok l" "relaunch_of l pid = Some g"
  shows "lc_ok (complete_control g (restore_original original oks (end_call pid l)))"
proof (rule complete_ok)
  note alone = relaunch_alone [OF assms]
  show "lc_ok (restore_original original oks (end_call pid l))" by (intro restore_ok end_call_ok assms(1))
  show "relaunch_of (restore_original original oks (end_call pid l)) p = None" for p
    using alone(4) [of p] by (simp add: restore_original_def on_disk_def end_call_fields)
qed (use relaunch_alone [OF assms] in \<open>simp_all add: restore_original_def on_disk_def end_call_fields\<close>)

lemma relaunch_step_ok:
  assumes "lc_ok l" "relaunch_of l pid = Some g"
  shows "lc_ok ((on_disk f l)\<lparr>lc_calls := aput pid (Relaunching g original n) (lc_calls l)\<rparr>)"
  using keep_call_ok [OF on_disk_ok [OF assms(1), of f], of pid "Relaunching g original n"] assms(2) by (simp add: on_disk_def)

lemma relaunch_launch_ok:
  assumes "lc_ok l" "relaunch_of l pid = Some g"
  shows "lc_ok ((end_call pid l)\<lparr>lc_live := g # lc_live l\<rparr>)"
proof -
  note alone = relaunch_alone [OF assms]
  have "relaunch_of (end_call pid l) = (\<lambda>p. None)" using alone(4) by (simp add: end_call_fields fun_eq_iff)
  then show ?thesis using end_call_ok [OF assms(1), of pid] alone(1-3) by (simp add: lc_ok_def end_call_fields)
qed

lemma relaunch_write_ok:
  assumes "lc_ok l" shows "lc_ok (snd (relaunch_write now pid ok oks l))"
proof (cases "aget (lc_calls l) pid")
  case (Some c)
  then have "relaunch_of l pid = relaunch_gen c" by (simp add: relaunch_of_def)
  with Some show ?thesis using assms
    by (cases c) (simp_all add: relaunch_write_def relaunch_failed_ok relaunch_step_ok relaunch_launch_ok)
qed (simp add: assms relaunch_write_def)

lemma sched_ok: "lc_ok l \<Longrightarrow> lc_ok (sched_take g l)" "lc_ok l \<Longrightarrow> lc_ok (sched_write g store l)"
  by (simp add: sched_take_def) (auto simp: sched_write_def lc_ok_def)

lemma live_single: "lc_ok l \<Longrightarrow> g \<in> set (lc_live l) \<Longrightarrow> lc_live l = [g]"
  unfolding lc_ok_def by (cases "lc_live l"; cases "tl (lc_live l)") auto

lemma sched_exit_ok:
  assumes "lc_ok l" shows "lc_ok (sched_exit g l)"
proof (cases "g \<in> set (lc_live l)")
  case True
  then have live: "lc_live l = [g]" by (rule live_single [OF assms])
  have "relaunch_of l pid = None" for pid using live assms unfolding lc_ok_def by (cases "relaunch_of l pid") auto
  then have "lc_ok (complete_control g (l\<lparr>lc_live := []\<rparr>))"
    using live assms by (intro complete_ok) (auto simp: lc_ok_def)
  with live show ?thesis by (simp add: sched_exit_def)
qed (simp add: assms sched_exit_def)

lemma repair_read_ok: "lc_ok l \<Longrightarrow> lc_ok (snd (repair_read pid l))" "lc_ok l \<Longrightarrow> lc_ok (repair_mark now target err pid loaded l)"
  by (auto simp: repair_read_def repair_mark_def Let_def new_call_ok split: option.split call.split)

lemma repair_commit_ok:
  assumes "lc_ok l" shows "lc_ok (snd (repair_commit pid insts_ok run_ok l))"
  using end_call_ok [OF assms, of pid]
  by (auto simp: repair_commit_def Let_def on_disk_ok assms split: option.split call.split)

lemma edit_read_ok: "lc_ok l \<Longrightarrow> lc_ok (snd (edit_read req pid l))" "lc_ok l \<Longrightarrow> lc_ok (snd (edit_prepare ve req pid l))"
  by (auto simp: edit_read_def edit_prepare_def send_ok new_call_ok end_call_ok split: option.split sum.split call.split)

lemma edit_commit_ok:
  assumes "lc_ok l" shows "lc_ok (snd (edit_commit pid ok adjust_ok l))"
proof -
  have l: "lc_ok (end_call pid l)" by (rule end_call_ok [OF assms])
  then have "lc_ok ((end_call pid l)\<lparr>lc_disk := d\<rparr>)" if "\<not> lc_deleted (end_call pid l)" for d
    using that l by (auto simp: lc_ok_def)
  with l assms show ?thesis by (auto simp: edit_commit_def Let_def split: option.split call.split)
qed

lemma delete_ok:
  assumes "lc_ok l" shows "lc_ok (snd (delete_run ok gone unlink_ok l))"
proof -
  have clear: "lc_ok m \<Longrightarrow> lc_ok (snd (clear_linkage unlink_ok m))" for m
    by (simp add: clear_linkage_def)
  have "lc_ok (snd (delete_artifacts ok gone unlink_ok m))" if "lc_ok m" "lc_handle m = None" for m
    using that clear [of "m\<lparr>lc_deleted := True, lc_disk := None\<rparr>"] by (auto simp: delete_artifacts_def lc_ok_def)
  moreover have "lc_ok (l\<lparr>lc_delete_job := j\<rparr>)" for j using assms by (auto simp: lc_ok_def)
  ultimately show ?thesis using assms clear by (auto simp: delete_run_def split: option.split)
qed

lemma exec_call_ok: "lc_ok l \<Longrightarrow> lc_ok (exec_call op l)"
  by (cases op) (simp_all add: exec_call_def signal_ok claim_ok relaunch_write_ok sched_ok sched_exit_ok repair_read_ok
      repair_commit_ok edit_read_ok edit_commit_ok delete_ok)

definition lc_start :: "lifecycle \<Rightarrow> bool" where
  "lc_start l \<longleftrightarrow> (\<exists>store. l = loaded_run store \<or> l = launched_run store)"

lemma start_ok: "lc_start l \<Longrightarrow> lc_ok l"
  by (auto simp: lc_start_def loaded_run_def launched_run_def new_run_control_def lc_ok_def relaunch_of_def)

interpretation calls: guarded_system lc_start exec_call lc_ok
  by unfold_locales (simp_all add: start_ok exec_call_ok)

subsection \<open>Who writes\<close>

lemma one_generation: "lc_ok l \<Longrightarrow> g \<in> set (lc_live l) \<Longrightarrow> lc_live l = [g] \<and> lc_handle l = Some g"
  using live_single by (auto simp: lc_ok_def)

lemma handle_of_live: "lc_ok l \<Longrightarrow> lc_live l \<noteq> [] \<Longrightarrow> lc_handle l \<noteq> None \<and> \<not> lc_deleted l"
  by (cases "lc_live l") (auto simp: lc_ok_def)

text \<open>Under a handle only its owner writes.\<close>

lemma disk_frozen:
  "lc_disk (snd (send_control_to_handle sig l)) = lc_disk l" "lc_disk (snd (signal_and_snapshot sig l)) = lc_disk l"
  "lc_disk (snd (claim_relaunch pid l)) = lc_disk l" "lc_disk (snd (repair_read pid l)) = lc_disk l"
  "lc_disk (repair_mark now target err pid loaded l) = lc_disk l" "lc_disk (snd (edit_read req pid l)) = lc_disk l"
  "lc_disk (snd (edit_prepare ve req pid l)) = lc_disk l" "lc_disk (sched_take g l) = lc_disk l" "lc_disk (sched_exit g l) = lc_disk l"
  by (auto simp: send_control_to_handle_def signal_and_snapshot_def claim_relaunch_def new_run_control_def repair_read_def repair_mark_def
      Let_def edit_read_def edit_prepare_def end_call_def sched_take_def sched_exit_def complete_control_def split: option.split sum.split call.split)

lemma disk_under_handle:
  assumes "lc_handle l \<noteq> None" "\<not> lc_deleted l"
  shows "lc_disk (snd (repair_commit pid insts_ok run_ok l)) = lc_disk l" "lc_disk (snd (edit_commit pid ok adjust_ok l)) = lc_disk l"
    "lc_disk (snd (delete_run ok gone unlink_ok l)) = lc_disk l"
  using assms by (auto simp: repair_commit_def edit_commit_def delete_run_def end_call_def Let_def split: option.split call.split)

lemma relaunch_write_idle:
  assumes "lc_ok l" "lc_live l \<noteq> []"
  shows "snd (relaunch_write now pid ok oks l) = l"
proof (cases "aget (lc_calls l) pid")
  case (Some c)
  with relaunch_alone(2) [OF assms(1), of pid] assms(2) show ?thesis
    by (cases c) (simp_all add: relaunch_write_def relaunch_of_def)
qed (simp add: relaunch_write_def)

lemma writer_of_live:
  assumes "lc_ok l" "lc_live l \<noteq> []" "lc_disk (exec_call op l) \<noteq> lc_disk l"
  shows "\<exists>g store. op = LcSchedWrite g store \<and> lc_live l = [g]"
proof -
  have h: "lc_handle l \<noteq> None" "\<not> lc_deleted l" using handle_of_live [OF assms(1,2)] by simp_all
  obtain g store where op: "op = LcSchedWrite g store" "g \<in> set (lc_live l)"
    using assms(3) h relaunch_write_idle [OF assms(1,2)]
    by (cases op) (simp_all add: exec_call_def disk_frozen disk_under_handle sched_write_def split: if_splits)
  then show ?thesis using one_generation [OF assms(1)] by blast
qed

text \<open>The deletion mark and the marks of the generations that have ended stay.\<close>

lemma end_call_marks: "lc_done (end_call pid l) = lc_done l" "lc_deleted (on_disk f l) = lc_deleted l" "lc_done (on_disk f l) = lc_done l"
  by (simp_all add: end_call_def on_disk_def)

lemma send_marks: "lc_deleted (snd (send_control_to_handle sig l)) = lc_deleted l" "lc_done (snd (send_control_to_handle sig l)) = lc_done l"
  by (simp_all add: send_control_to_handle_def)

lemma deleted_calls:
  "lc_deleted (snd (signal_and_snapshot sig l)) = lc_deleted l" "lc_deleted (snd (claim_relaunch pid l)) = lc_deleted l"
  "lc_deleted (snd (relaunch_write now pid ok oks l)) = lc_deleted l" "lc_deleted (sched_take g l) = lc_deleted l"
  "lc_deleted (sched_write g store l) = lc_deleted l" "lc_deleted (sched_exit g l) = lc_deleted l"
  by (auto simp: signal_and_snapshot_def claim_relaunch_def new_run_control_def relaunch_write_def restore_original_def complete_control_def
      sched_take_def sched_write_def sched_exit_def Let_def send_marks end_call_marks end_call_fields split: option.split call.split)

lemma deleted_edits:
  "lc_deleted (snd (repair_read pid l)) = lc_deleted l" "lc_deleted (snd (repair_commit pid io ro l)) = lc_deleted l"
  "lc_deleted (repair_mark now target err pid loaded l) = lc_deleted l" "lc_deleted (snd (edit_read req pid l)) = lc_deleted l"
  "lc_deleted (snd (edit_prepare ve req pid l)) = lc_deleted l" "lc_deleted (snd (edit_commit pid ok adjust_ok l)) = lc_deleted l"
  by (auto simp: repair_read_def repair_mark_def repair_commit_def edit_read_def edit_prepare_def edit_commit_def Let_def send_marks end_call_marks end_call_fields
      split: option.split call.split sum.split)

lemma deleted_stays: "lc_deleted l \<Longrightarrow> lc_deleted (exec_call op l)"
  by (cases op) (simp_all add: exec_call_def deleted_calls deleted_edits delete_run_def clear_linkage_def)

lemma done_calls:
  "lc_done (snd (signal_and_snapshot sig l)) = lc_done l" "lc_done (snd (claim_relaunch pid l)) = lc_done l"
  "set (lc_done l) \<subseteq> set (lc_done (snd (relaunch_write now pid ok oks l)))" "lc_done (sched_take g l) = lc_done l"
  "lc_done (sched_write g store l) = lc_done l" "set (lc_done l) \<subseteq> set (lc_done (sched_exit g l))"
  by (auto simp: signal_and_snapshot_def claim_relaunch_def new_run_control_def relaunch_write_def restore_original_def complete_control_def
      sched_take_def sched_write_def sched_exit_def Let_def send_marks end_call_marks end_call_fields split: option.split call.split)

lemma done_edits:
  "lc_done (snd (repair_read pid l)) = lc_done l" "lc_done (snd (repair_commit pid io ro l)) = lc_done l"
  "lc_done (repair_mark now target err pid loaded l) = lc_done l" "lc_done (snd (edit_read req pid l)) = lc_done l"
  "lc_done (snd (edit_prepare ve req pid l)) = lc_done l" "lc_done (snd (edit_commit pid ok adjust_ok l)) = lc_done l"
  "lc_done (snd (delete_run ok gone unlink_ok l)) = lc_done l"
  by (auto simp: repair_read_def repair_mark_def repair_commit_def edit_read_def edit_prepare_def edit_commit_def delete_run_def delete_artifacts_def clear_linkage_def
      Let_def send_marks end_call_marks end_call_fields split: option.split call.split sum.split)

lemma done_stays: "set (lc_done l) \<subseteq> set (lc_done (exec_call op l))"
  by (cases op) (simp_all add: exec_call_def done_calls done_edits)

lemma marks_stay:
  "lc_deleted l \<Longrightarrow> lc_deleted (fold exec_call ops l)" "set (lc_done l) \<subseteq> set (lc_done (fold exec_call ops l))"
proof -
  show "lc_deleted l \<Longrightarrow> lc_deleted (fold exec_call ops l)" by (induction ops arbitrary: l) (simp_all add: deleted_stays)
  show "set (lc_done l) \<subseteq> set (lc_done (fold exec_call ops l))"
    using done_stays by (induction ops arbitrary: l) (auto, blast)
qed

lemma ended_not_live: "lc_ok l \<Longrightarrow> g \<in> set (lc_done l) \<Longrightarrow> g \<notin> set (lc_live l)"
  by (auto simp: lc_ok_def)

lemma gone_for_good: "lc_ok l \<Longrightarrow> lc_deleted l \<Longrightarrow> lc_disk l = None \<and> lc_live l = []"
proof -
  assume l: "lc_ok l" "lc_deleted l"
  then have "lc_handle l = None" "lc_disk l = None" by (simp_all add: lc_ok_def)
  then show ?thesis using no_handle [OF l(1)] by blast
qed

text \<open>C8: However the calls of many clients interleave with the scheduler, at most one scheduler of a run is alive, and it is the one the
  handle names. While it lives, nothing but its own writes changes the run's files. A generation whose end
  has been signalled, which is what a stop waits for, never runs again. A deleted run has no files and
  no scheduler, and no later call brings either back.\<close>

theorem one_writer_per_run:
  assumes "lc_start l0" "l = fold exec_call ops l0" "later = fold exec_call ops' l"
  shows "(\<forall>g \<in> set (lc_live l). lc_live l = [g] \<and> lc_handle l = Some g)
    \<and> (lc_live l \<noteq> [] \<longrightarrow> lc_disk (exec_call op l) \<noteq> lc_disk l \<longrightarrow> (\<exists>g store. op = LcSchedWrite g store \<and> lc_live l = [g]))
    \<and> (\<forall>g \<in> set (lc_done l). g \<notin> set (lc_live later))
    \<and> (lc_deleted l \<longrightarrow> lc_deleted later \<and> lc_disk later = None \<and> lc_live later = [])"
proof -
  have l: "lc_ok l" unfolding assms(2) by (rule calls.run_invar [OF assms(1)])
  then have later: "lc_ok later" unfolding assms(3) by (rule calls.fold_invar)
  have "set (lc_done l) \<subseteq> set (lc_done later)" "lc_deleted l \<Longrightarrow> lc_deleted later"
    using marks_stay unfolding assms(3) by blast+
  then show ?thesis
    using one_generation [OF l] writer_of_live [OF l] ended_not_live [OF later] gone_for_good [OF later]
    by (intro conjI ballI impI) auto
qed

definition ended_and_deleted :: "lifecycle_op list" where
  "ended_and_deleted = [LcSchedWrite 0 rewired_store, LcSchedExit 0, LcDelete True False True]"

lemma ended_and_deleted_run:
  "lc_deleted (fold exec_call ended_and_deleted (launched_run rewired_store))" "0 \<in> set (lc_done (fold exec_call ended_and_deleted (launched_run rewired_store)))"
  by (simp_all add: ended_and_deleted_def exec_call_def sched_write_def sched_exit_def complete_control_def delete_run_def delete_artifacts_def
      clear_linkage_def launched_run_def loaded_run_def new_run_control_def rewired_store_def rewired_run_def stopped_solo_def)

theorem one_writer_per_run_witness:
  "case fold exec_call [LcClaim 7, LcSchedWrite 0 rewired_store] (fold exec_call ended_and_deleted (launched_run rewired_store)) of l \<Rightarrow>
     lc_deleted l \<and> lc_disk l = None \<and> lc_live l = [] \<and> 0 \<notin> set (lc_live l)"
proof -
  have "lc_start (launched_run rewired_store)" unfolding lc_start_def by blast
  then show ?thesis
    using one_writer_per_run [OF _ refl refl, where ops = ended_and_deleted and ops' = "[LcClaim 7, LcSchedWrite 0 rewired_store]"]
      ended_and_deleted_run by auto
qed

subsection \<open>The repair of an orphan\<close>


text \<open>A chain of two shells, the first finished and the second running when the process died.\<close>

definition half_done :: run_store where
  "half_done = ((demo_run untangled)\<lparr>gr_status := RunRunning\<rparr>,
     [(''a'', shell_done ''a''), (''b'', new_instance (mk_node ''b'' NShell [] empty_node_config) (scope_key [] ''b'') InstRunning 1)],
     [active_edge ''1'' ''s'' ''a'', active_edge ''2'' ''a'' ''b''], [(''a'', [])])"

definition repaired_half :: run_store where
  "repaired_half = ((demo_run untangled)\<lparr>gr_status := RunRecovering, gr_progress := gr_progress (update_run_progress
       ((demo_run untangled)\<lparr>gr_progress := map_option (\<lambda>p. p\<lparr>gp_last_error := []\<rparr>) (gr_progress (demo_run untangled))\<rparr>) [])\<rparr>,
     [], [active_edge ''1'' ''s'' ''a'', active_edge ''2'' ''a'' ''b''], [(''a'', [])])"

definition repair :: "lifecycle_op list" where
  "repair = [LcRepairRead 0, LcRepairMark 0 RunRecovering [] 0 True, LcRepairCommit 0 True True]"

lemma half_done_repaired: "lc_disk (fold exec_call repair (loaded_run half_done)) = Some repaired_half"
  by (simp add: repair_def exec_call_def repair_read_def repair_mark_def repair_commit_def end_call_def disk_status_def on_disk_def Let_def
      half_done_def loaded_run_def repaired_half_def shell_done_def new_instance_def update_run_progress_def)
   (simp add: demo_run_def)

lemma untangled_lookups:
  "aget (degree_index untangled) ''a'' = Some 1" "aget (degree_index untangled) ''b'' = Some 1"
  "aget (nodes_by_id untangled) ''a'' = Some (mk_node ''a'' NShell [] empty_node_config)"
  "aget (nodes_by_id untangled) ''b'' = Some (mk_node ''b'' NShell [] empty_node_config)"
  "aget (nodes_by_id untangled) ''s'' = Some (mk_node ''s'' NStart [] empty_node_config)"
  by code_simp+

lemma untangled_config: "gc_run_config untangled = empty_run_config" "gc_variables untangled = []" "gc_disabled_vars untangled = []"
  by (simp_all add: untangled_def mk_simps)

lemma repaired_relaunch:
  "relaunch 0 repaired_half = ((fst repaired_half)\<lparr>gr_status := RunRunning,
     gr_progress := map_option (\<lambda>p. p\<lparr>gp_last_error := []\<rparr>) (gr_progress (fst repaired_half))\<rparr>, snd repaired_half)"
  by (simp add: relaunch_def repaired_half_def Let_def reset_resettable_def new_resume_builder_def compute_reset_set_def
      wholesale_loops_def loop_states_of_def drop_reset_edges_def)
   (simp add: demo_run_def)

lemma repaired_config: "effective_config ((fst repaired_half)\<lparr>gr_status := st, gr_progress := p\<rparr>) = untangled"
  by (simp add: effective_config_def repaired_half_def demo_run_simps)

lemma repaired_simps: "gr_resume (fst repaired_half) = None" "gr_started_at (fst repaired_half) = 0" "gr_archived (fst repaired_half) = []"
  "gr_retry_versions (fst repaired_half) = []" "gr_current_version (fst repaired_half) = 1" "gr_id (fst repaired_half) = ''r''"
  "snd repaired_half = ([], [active_edge ''1'' ''s'' ''a'', active_edge ''2'' ''a'' ''b''], [(''a'', [])])"
  by (simp_all add: repaired_half_def demo_run_simps) (simp_all add: demo_run_def)

definition both_again :: "sched \<Rightarrow> bool" where
  "both_again s \<longleftrightarrow> map (\<lambda>x. instance_key_string (ri_key x)) (sc_ready s) = [''a'', ''b'']"

lemma resumed_repair: "case calls 2 (start_resume demo_env (\<lambda>x. None) (relaunch 0 repaired_half)) of (fs, s) \<Rightarrow> fs = [] \<and> both_again s"
  unfolding repaired_relaunch
  by (simp add: active_edge_def resume_simps run_simps untangled_config untangled_lookups repaired_config
      repaired_simps loop_states_of_def both_again_def cong: by_value)


subsection \<open>An edit that was prepared too early\<close>

lemma resumable_editable: "is_static_editable_status st = is_resumable_status st"
  by (cases st) simp_all

lemma editable_settled: "is_static_editable_status st \<Longrightarrow> \<not> is_in_flight_status st"
  by (cases st) simp_all

lemma no_op_refl: "graph_config_no_op_equal cfg cfg"
  by (simp add: graph_config_no_op_equal_def same_vars_def list_all_iff)

definition relaunch_fully :: "int \<Rightarrow> nat \<Rightarrow> lifecycle_op list" where
  "relaunch_fully now pid = LcClaim pid # replicate 5 (LcRelaunchWrite now pid True [])"

lemma relaunch_completes:
  assumes "lc_disk l = Some store" "is_resumable_status (gr_status (fst store))" "lc_handle l = None" "\<not> lc_deleted l"
    and "aget (lc_calls l) pid = None" "lc_live l = []"
  shows "case fold exec_call (relaunch_fully now pid) l of m \<Rightarrow>
    lc_disk m = Some (relaunch now store) \<and> lc_handle m = Some (lc_next l) \<and> lc_live m = [lc_next l] \<and> \<not> lc_deleted m
    \<and> lc_done m = lc_done l \<and> (\<forall>p. aget (lc_calls m) p = aget (lc_calls l) p)"
proof -
  obtain r i e v where s: "store = (r, i, e, v)" by (cases store)
  obtain r' i' e' v' where s': "relaunch now store = (r', i', e', v')" by (cases "relaunch now store")
  have "replicate 5 x = [x, x, x, x, x]" for x :: lifecycle_op by (simp add: numeral_nat)
  then show ?thesis using assms s s'
    by (simp add: relaunch_fully_def exec_call_def claim_relaunch_def new_run_control_def relaunch_write_def on_disk_def write_file_def
        end_call_def Let_def)
qed

lemma prepared_fields:
  assumes "prepare_run_version ve req insts run = Inr run'"
  shows "gr_status run' = gr_status run" "gr_resume run' = gr_resume run" "gr_archived run' = gr_archived run"
    "gr_last_error run' = gr_last_error run" "gr_finished_at run' = gr_finished_at run"
  using assms by (cases rule: prepared_cases; simp)+

lemma adjusted_fields:
  "gr_status (adjust_static_loop_denominator cfg run) = gr_status run" "gr_resume (adjust_static_loop_denominator cfg run) = gr_resume run"
  "gr_archived (adjust_static_loop_denominator cfg run) = gr_archived run" 
  "gr_last_error (adjust_static_loop_denominator cfg run) = gr_last_error run"
  by (simp_all add: adjust_static_loop_denominator_def split: option.split)

text \<open>C38: An edit of a stopped run does not notice a resume that began and ended while it was being prepared. The commit
  compares the version, the configuration and that no scheduler holds the run, all of which are as they were; it
  then writes the run back as it had been read, so the status, the resume state, the archived
  instances and the last error that the resumed scheduler had written are lost.\<close>

theorem stale_edit_overwrites_resumed_run:
  assumes "lc_disk l = Some (run, insts, rest)" "is_static_editable_status (gr_status run)" "lc_handle l = None" "\<not> lc_deleted l" "lc_live l = []"
    and "aget (lc_calls l) pid = None" "aget (lc_calls l) pid' = None" "pid \<noteq> pid'"
    and "prepare_run_version ve req insts run = Inr run'"
    and "is_static_editable_status (gr_status run2)" "gr_current_version run2 = gr_current_version run" "effective_config run2 = effective_config run"
    and "later = fold exec_call ([LcEditRead req pid, LcEditPrepare ve req pid] @ relaunch_fully now pid'
           @ [LcSchedWrite (lc_next l) (run2, rest2), LcSchedExit (lc_next l), LcEditCommit pid True True]) l"
  shows "\<exists>run3. lc_disk later = Some (run3, rest2) \<and> gr_status run3 = gr_status run \<and> gr_resume run3 = gr_resume run
     \<and> gr_archived run3 = gr_archived run \<and> gr_last_error run3 = gr_last_error run"
proof -
  define m where "m = fold exec_call [LcEditRead req pid, LcEditPrepare ve req pid] l"
  then have m: "m = l\<lparr>lc_calls := aput pid (Prepared run' (effective_config run) (gr_current_version run)) (aput pid (Editing run) (lc_calls l))\<rparr>"
    using assms(1-9) editable_settled by (simp add: exec_call_def edit_read_def edit_prepare_def)
  define r where "r = fold exec_call (relaunch_fully now pid') m"
  have r: "lc_disk r = Some (relaunch now (run, insts, rest))" "lc_handle r = Some (lc_next l)" "lc_live r = [lc_next l]" "\<not> lc_deleted r"
    "aget (lc_calls r) pid = Some (Prepared run' (effective_config run) (gr_current_version run))"
    using relaunch_completes [of m "(run, insts, rest)" pid' now] assms(1-8) by (simp_all add: m r_def resumable_editable)
  have "later = fold exec_call [LcSchedWrite (lc_next l) (run2, rest2), LcSchedExit (lc_next l), LcEditCommit pid True True] r"
    by (simp add: assms(13) m_def r_def)
  then have "lc_disk later = Some (adjust_static_loop_denominator (effective_config run) run', rest2)"
    using r assms(10-12)
    by (simp add: exec_call_def sched_write_def sched_exit_def edit_commit_def complete_control_def end_call_def Let_def no_op_refl)
  then show ?thesis using prepared_fields [OF assms(9)] by (simp add: adjusted_fields)
qed

definition failed_solo :: graph_run where
  "failed_solo = (demo_run solo)\<lparr>gr_status := RunFailed, gr_last_error := Some \<lparr> re_run_id = ''r'', re_key = None, re_node_id = [],
     re_message = ''boom'', re_can_resume = True \<rparr>\<rparr>"

theorem stale_edit_overwrites_resumed_run_witness:
  "\<exists>run3. lc_disk (fold exec_call ([LcEditRead (edit_to rewired) 0, LcEditPrepare demo_edit (edit_to rewired) 0] @ relaunch_fully 0 1
      @ [LcSchedWrite 0 (failed_solo, [], [], []), LcSchedExit 0, LcEditCommit 0 True True])
      (loaded_run (stopped_solo, [(''w'', shell_done ''w'')], [], []))) = Some (run3, [], [], [])
    \<and> gr_status run3 = RunStepStopped \<and> gr_last_error run3 = None"
proof -
  let ?l = "loaded_run (stopped_solo, [(''w'', shell_done ''w'')], [], [])"
  have first: "lc_next ?l = 0" by (simp add: loaded_run_def)
  have solo: "effective_config failed_solo = solo" "effective_config stopped_solo = solo"
    by (simp_all add: failed_solo_def stopped_solo_def effective_config_def demo_run_simps)
  have "\<exists>run3. lc_disk (fold exec_call ([LcEditRead (edit_to rewired) 0, LcEditPrepare demo_edit (edit_to rewired) 0] @ relaunch_fully 0 1
      @ [LcSchedWrite (lc_next ?l) (failed_solo, [], [], []), LcSchedExit (lc_next ?l), LcEditCommit 0 True True]) ?l) = Some (run3, [], [], [])
    \<and> gr_status run3 = gr_status stopped_solo \<and> gr_resume run3 = gr_resume stopped_solo \<and> gr_archived run3 = gr_archived stopped_solo
    \<and> gr_last_error run3 = gr_last_error stopped_solo"
    by (rule stale_edit_overwrites_resumed_run [where l = ?l and run = stopped_solo and run' = rewired_run
          and insts = "[(''w'', shell_done ''w'')]"])
      (simp_all add: loaded_run_def rewired_accepted solo, simp_all add: stopped_solo_def failed_solo_def demo_run_def)
  moreover have "gr_status stopped_solo = RunStepStopped" "gr_last_error stopped_solo = None"
    by (simp_all add: stopped_solo_def demo_run_def)
  ultimately show ?thesis unfolding first by metis
qed

end
