(* ===== verification/JobQueue.thy ===== *)
theory JobQueue
  imports GraphModel
begin

section \<open>The message queue of a job\<close>

text \<open>
  \<open>services/job\<close>: what is sent to a chat while its agent is at work is queued with the job and given to
  the agent later, one message at a time, at most once, through restarts of the process. This theory
  models one job: its durable part, the maps the service keeps about it, and the goroutines that are
  under way. A goroutine is a \<open>task\<close> that names what it does next; a step of the machine is what one
  goroutine does without letting another in between. The job's lock is held from a change in memory
  until the file is written: the change shows in memory at once, and \<open>js_saving\<close> is the write that is
  under way, with what happens when it succeeds or fails. Replacing the file is atomic; of what is set
  without the lock, the time at which a turn ended may be in the written copy already. The
  messages, the agent and model they name, and the JSON they are hashed from are one opaque
  string, and the hash is a parameter.
\<close>

subsection \<open>State\<close>

datatype job_mode = ModeInteractive | ModeGraph

datatype run_outcome = OutcomeCompleted | OutcomeStopped | OutcomeFailed

datatype receipt_state =
    MsgQueued | MsgBlocked | MsgProcessing | MsgCompleted | MsgFailed | MsgStopped | MsgInterrupted | MsgDeleted

record client_receipt =
  cr_state :: receipt_state
  cr_hash :: string
  cr_accepted_at :: int
  cr_finished_at :: int

datatype queued_state = QmQueued | QmBlocked | QmProcessing

record queued_message =
  qm_id :: string
  qm_payload :: string
  qm_state :: queued_state
  qm_error :: string
  qm_created_at :: int
  qm_updated_at :: int

datatype pause_reason = NotPaused | UserStopped | HeadBlocked

record job =
  jb_mode :: job_mode
  jb_deleted :: bool
  jb_status :: job_status
  jb_started_at :: int
  jb_finished_at :: int
  jb_total_turn :: int
  jb_turn_pending :: bool
  jb_outcome :: "run_outcome option"
  jb_last_error :: string
  jb_active :: string
  jb_receipts :: "(string \<times> client_receipt) list"
  jb_commands :: "(string \<times> string) list"
  jb_queue :: "queued_message list"
  jb_queue_version :: int
  jb_paused :: bool
  jb_pause_reason :: pause_reason

datatype task =
    TRequest
  | TDispatch
  | TCheckDone queued_message
  | TPrepare queued_message
  | TSend string string
  | TBlock string string
  | TUnflag
  | TFinish
  | TRecheck
  | TRecheckDone
  | TStartup
  | TLaunch nat string bool
  | TRun nat string bool
  | TFail nat string bool string
  | TLand nat string bool
  | TTerminal run_outcome nat string bool
  | TCleanup nat string bool
  | TComplete string
  | TClear bool

datatype after_save =
    AfterQueue job "string option"
  | AfterSend job nat job_status
  | AfterTerminal

record saving =
  sv_after :: after_save
  sv_then :: "task list"
  sv_else :: "task list"

text \<open>
  \<open>js_acked\<close> and \<open>js_started\<close> are history: the messages whose submission has been confirmed, and those that have been handed
  to the agent, in order.
\<close>

record job_sys =
  js_job :: "job option"
  js_disk :: "job option"
  js_prior :: "job_status option"
  js_dispatcher :: bool
  js_dispatching :: bool
  js_stopping :: bool
  js_dones :: "nat option"
  js_cancels :: "nat option"
  js_cancelled :: "nat list"
  js_next :: nat
  js_saving :: "saving option"
  js_tasks :: "task list"
  js_acked :: "string list"
  js_started :: "string list"

record job_env =
  je_now :: int
  je_hash :: "string \<Rightarrow> string"

datatype job_error =
    JobNotFound | JobIsDeleted | JobIsRunning | JobNotRunnable | EmptyMessage | ClientMessageIdConflict | ClientMessageIdRequired
  | MessageQueueFull | QueuedMessageNotFound | QueuedMessageClaimed | MessageQueueBlocked

datatype disposition = Accepted | Duplicate | AlreadyDeleted

subsection \<open>The queue\<close>

definition message_queue_limit :: nat where "message_queue_limit = 100"

definition first_waiting_queue_index :: "queued_message list \<Rightarrow> nat option" where
  "first_waiting_queue_index ms = first_index (\<lambda>m. qm_state m \<noteq> QmProcessing) ms"

definition has_processing_queue_item :: "queued_message list \<Rightarrow> bool" where
  "has_processing_queue_item ms = list_ex (\<lambda>m. qm_state m = QmProcessing) ms"

definition waiting_count :: "queued_message list \<Rightarrow> nat" where
  "waiting_count ms = length (filter (\<lambda>m. qm_state m \<noteq> QmProcessing) ms)"

text \<open>The head a dispatcher may take.\<close>

definition ready_head :: "job \<Rightarrow> queued_message option" where
  "ready_head j =
     (case first_waiting_queue_index (jb_queue j) of
        None \<Rightarrow> None
      | Some i \<Rightarrow>
          if \<not> jb_deleted j \<and> jb_mode j = ModeInteractive \<and> jb_status j \<noteq> JobRunning \<and> \<not> jb_paused j
             \<and> qm_state (jb_queue j ! i) = QmQueued \<and> \<not> has_processing_queue_item (jb_queue j)
          then Some (jb_queue j ! i) else None)"

definition set_receipt_state :: "string \<Rightarrow> receipt_state \<Rightarrow> job \<Rightarrow> job" where
  "set_receipt_state i st j =
     (case aget (jb_receipts j) i of
        None \<Rightarrow> j
      | Some r \<Rightarrow> j\<lparr>jb_receipts := aput i (r\<lparr>cr_state := st\<rparr>) (jb_receipts j)\<rparr>)"

definition new_version :: "job \<Rightarrow> job" where
  "new_version j = j\<lparr>jb_queue_version := jb_queue_version j + 1\<rparr>"

subsection \<open>Saving\<close>

definition restore_message_queue_state :: "job \<Rightarrow> job \<Rightarrow> job" where
  "restore_message_queue_state previous j =
     j\<lparr>jb_queue := jb_queue previous, jb_queue_version := jb_queue_version previous, jb_paused := jb_paused previous,
       jb_pause_reason := jb_pause_reason previous, jb_receipts := jb_receipts previous, jb_active := jb_active previous\<rparr>"

definition restore_run_state :: "job \<Rightarrow> job \<Rightarrow> job" where
  "restore_run_state previous j =
     (restore_message_queue_state previous j)
       \<lparr>jb_status := jb_status previous, jb_started_at := jb_started_at previous, jb_finished_at := jb_finished_at previous,
        jb_total_turn := jb_total_turn previous, jb_turn_pending := jb_turn_pending previous,
        jb_last_error := jb_last_error previous, jb_outcome := jb_outcome previous\<rparr>"

definition add_tasks :: "task list \<Rightarrow> job_sys \<Rightarrow> job_sys" where
  "add_tasks ts s = s\<lparr>js_tasks := js_tasks s @ ts\<rparr>"

definition save_later :: "job \<Rightarrow> after_save \<Rightarrow> task list \<Rightarrow> task list \<Rightarrow> job_sys \<Rightarrow> job_sys" where
  "save_later j cont ok failed s =
     s\<lparr>js_job := Some j, js_saving := Some \<lparr> sv_after = cont, sv_then = ok, sv_else = failed \<rparr>\<rparr>"

definition clear_run :: "nat \<Rightarrow> job_sys \<Rightarrow> job_sys" where
  "clear_run tok s =
     s\<lparr>js_cancels := (if js_cancels s = Some tok then None else js_cancels s), js_cancelled := tok # js_cancelled s,
       js_dones := (if js_dones s = Some tok then None else js_dones s)\<rparr>"

definition should_preserve_prior_status :: "job_status \<Rightarrow> bool" where
  "should_preserve_prior_status st \<longleftrightarrow> st = JobCompleted \<or> st = JobFailed"

definition save_succeeds :: "saving \<Rightarrow> job_sys \<Rightarrow> job_sys" where
  "save_succeeds sv s =
     (let s = s\<lparr>js_disk := js_job s, js_saving := None\<rparr>;
          s = (case sv_after sv of
                 AfterQueue previous ack \<Rightarrow> s\<lparr>js_acked := js_acked s @ (case ack of Some i \<Rightarrow> [i] | None \<Rightarrow> [])\<rparr>
               | AfterSend previous tok prior \<Rightarrow>
                   (case js_job s of
                      Some j \<Rightarrow> if jb_mode j = ModeGraph \<or> should_preserve_prior_status prior then s\<lparr>js_prior := Some prior\<rparr> else s
                    | None \<Rightarrow> s)
               | AfterTerminal \<Rightarrow> s)
      in add_tasks (sv_then sv) s)"

text \<open>A terminal state is kept in memory: the failure is noted and the write tried once more.\<close>

definition save_fails :: "bool \<Rightarrow> saving \<Rightarrow> job_sys \<Rightarrow> job_sys" where
  "save_fails again sv s =
     (let s = s\<lparr>js_saving := None\<rparr>
      in case sv_after sv of
           AfterQueue previous ack \<Rightarrow> add_tasks (sv_else sv) (s\<lparr>js_job := map_option (restore_message_queue_state previous) (js_job s)\<rparr>)
         | AfterSend previous tok prior \<Rightarrow>
             add_tasks (sv_else sv) (clear_run tok (s\<lparr>js_job := map_option (restore_run_state previous) (js_job s)\<rparr>))
         | AfterTerminal \<Rightarrow>
             (case js_job s of
                None \<Rightarrow> add_tasks (sv_then sv) s
              | Some j \<Rightarrow>
                  if jb_deleted j \<or> jb_last_error j \<noteq> [] then add_tasks (sv_then sv) s
                  else let j = j\<lparr>jb_last_error := ''terminal persist failed''\<rparr>
                       in add_tasks (sv_then sv) (s\<lparr>js_job := Some j, js_disk := (if again then Some j else js_disk s)\<rparr>)))"

definition finish_save :: "bool \<Rightarrow> bool \<Rightarrow> job_sys \<Rightarrow> job_sys" where
  "finish_save ok again s =
     (case js_saving s of
        None \<Rightarrow> s
      | Some sv \<Rightarrow>
          if ok \<and> (case js_job s of Some j \<Rightarrow> \<not> jb_deleted j | None \<Rightarrow> False) then save_succeeds sv s else save_fails again sv s)"

subsection \<open>Submitting\<close>

definition submit_message :: "job_env \<Rightarrow> string \<Rightarrow> string \<Rightarrow> job_sys \<Rightarrow> (job_error + disposition) \<times> job_sys" where
  "submit_message env i payload s =
     (if i = [] then (Inl ClientMessageIdRequired, s)
      else if payload = [] then (Inl EmptyMessage, s)
      else case js_job s of
        None \<Rightarrow> (Inl JobNotFound, s)
      | Some j \<Rightarrow>
          if jb_deleted j then (Inl JobIsDeleted, s)
          else if jb_mode j \<noteq> ModeInteractive then (Inl JobNotRunnable, s)
          else if ahas (jb_commands j) i then (Inl ClientMessageIdConflict, s)
          else (case aget (jb_receipts j) i of
                  Some r \<Rightarrow>
                    if cr_hash r \<noteq> je_hash env payload then (Inl ClientMessageIdConflict, s)
                    else (Inr (if cr_state r = MsgDeleted then AlreadyDeleted else Duplicate), s)
                | None \<Rightarrow>
                    if waiting_count (jb_queue j) \<ge> message_queue_limit then (Inl MessageQueueFull, s)
                    else let m = \<lparr> qm_id = i, qm_payload = payload, qm_state = QmQueued, qm_error = [],
                                   qm_created_at = je_now env, qm_updated_at = je_now env \<rparr>;
                             r = \<lparr> cr_state = MsgQueued, cr_hash = je_hash env payload, cr_accepted_at = je_now env, cr_finished_at = 0 \<rparr>;
                             j' = new_version (j\<lparr>jb_queue := jb_queue j @ [m], jb_receipts := aput i r (jb_receipts j)\<rparr>)
                         in (Inr Accepted, save_later j' (AfterQueue j (Some i)) [TRequest] [] s)))"

subsection \<open>Starting a message\<close>

definition claim_head :: "job_env \<Rightarrow> nat \<Rightarrow> job \<Rightarrow> job" where
  "claim_head env n j =
     new_version (j\<lparr>jb_queue := (jb_queue j)[n := (jb_queue j ! n)\<lparr>qm_state := QmProcessing, qm_updated_at := je_now env\<rparr>]\<rparr>)"

definition start_run_job :: "job_env \<Rightarrow> string \<Rightarrow> string \<Rightarrow> job \<Rightarrow> job" where
  "start_run_job env i payload j =
     (let j = j\<lparr>jb_status := JobRunning, jb_started_at := je_now env, jb_finished_at := 0, jb_turn_pending := True, jb_outcome := None\<rparr>
      in if i = [] then j
         else let accepted = (case aget (jb_receipts j) i of Some r \<Rightarrow> if cr_accepted_at r > 0 then cr_accepted_at r else je_now env
                              | None \<Rightarrow> je_now env)
              in j\<lparr>jb_receipts := aput i \<lparr> cr_state = MsgProcessing, cr_hash = je_hash env payload, cr_accepted_at = accepted, cr_finished_at = 0 \<rparr>
                                       (jb_receipts j),
                   jb_active := i\<rparr>)"

definition launch :: "job_env \<Rightarrow> bool \<Rightarrow> string \<Rightarrow> job \<Rightarrow> job \<Rightarrow> job_sys \<Rightarrow> job_sys" where
  "launch env from_queue i previous j s =
     (let tok = js_next s;
          s = s\<lparr>js_next := Suc tok, js_cancels := Some tok, js_dones := Some tok\<rparr>
      in save_later j (AfterSend previous tok (jb_status previous)) [TLaunch tok i from_queue]
           (if from_queue then [TBlock i ''persist failed''] else []) s)"

definition send_message :: "job_env \<Rightarrow> bool \<Rightarrow> string \<Rightarrow> string \<Rightarrow> job_sys \<Rightarrow> (job_error + disposition) \<times> job_sys" where
  "send_message env from_queue i payload s =
     (if payload = [] then (Inl EmptyMessage, s)
      else case js_job s of
        None \<Rightarrow> (Inl JobNotFound, s)
      | Some j \<Rightarrow>
          if jb_deleted j then (Inl JobIsDeleted, s)
          else if i \<noteq> [] \<and> ahas (jb_commands j) i then (Inl ClientMessageIdConflict, s)
          else let receipt = (if i = [] then None else aget (jb_receipts j) i) in
            (case receipt of
               Some r \<Rightarrow>
                 if cr_hash r \<noteq> je_hash env payload then (Inl ClientMessageIdConflict, s)
                 else if cr_state r \<noteq> MsgQueued then (Inr Duplicate, s)
                 else if jb_status j = JobRunning then (Inl JobIsRunning, s)
                 else (case first_waiting_queue_index (jb_queue j) of
                         None \<Rightarrow> (Inl MessageQueueBlocked, s)
                       | Some n \<Rightarrow>
                           if jb_paused j \<or> qm_id (jb_queue j ! n) \<noteq> i then (Inl MessageQueueBlocked, s)
                           else (Inr Accepted, launch env from_queue i j (start_run_job env i payload (claim_head env n j)) s))
             | None \<Rightarrow>
                 if jb_status j = JobRunning then (Inl JobIsRunning, s)
                 else (Inr Accepted, launch env from_queue i j (start_run_job env i payload j) s)))"

subsection \<open>Controls\<close>

definition delete_queued_message :: "job_env \<Rightarrow> string \<Rightarrow> job_sys \<Rightarrow> job_error option \<times> job_sys" where
  "delete_queued_message env i s =
     (case js_job s of
        None \<Rightarrow> (Some JobNotFound, s)
      | Some j \<Rightarrow>
          if jb_deleted j then (Some JobIsDeleted, s)
          else (case first_index (\<lambda>m. qm_id m = i) (jb_queue j) of
                  None \<Rightarrow>
                    (case aget (jb_receipts j) i of
                       None \<Rightarrow> (Some QueuedMessageNotFound, s)
                     | Some r \<Rightarrow> (if cr_state r = MsgDeleted then None else Some QueuedMessageClaimed, s))
                | Some n \<Rightarrow>
                    let item = jb_queue j ! n in
                    if qm_state item = QmProcessing then (Some QueuedMessageClaimed, s)
                    else let zero = \<lparr> cr_state = MsgDeleted, cr_hash = [], cr_accepted_at = 0, cr_finished_at = 0 \<rparr>;
                             r = (case aget (jb_receipts j) i of Some r \<Rightarrow> r | None \<Rightarrow> zero);
                             r = r\<lparr>cr_state := MsgDeleted, cr_finished_at := je_now env\<rparr>;
                             j' = new_version (j\<lparr>jb_queue := remove_at n (jb_queue j), jb_receipts := aput i r (jb_receipts j)\<rparr>);
                             unpause = (jb_queue j' = [] \<and> jb_status j' \<noteq> JobRunning
                               \<or> n = 0 \<and> qm_state item = QmBlocked \<and> jb_pause_reason j' = HeadBlocked);
                             j' = (if unpause then j'\<lparr>jb_paused := False, jb_pause_reason := NotPaused\<rparr> else j')
                         in (None, save_later j' (AfterQueue j None) (if jb_paused j' then [] else [TRequest]) [] s)))"

definition continue_message_queue :: "job_sys \<Rightarrow> job_error option \<times> job_sys" where
  "continue_message_queue s =
     (case js_job s of
        None \<Rightarrow> (Some JobNotFound, s)
      | Some j \<Rightarrow>
          if jb_deleted j then (Some JobIsDeleted, s)
          else if (case first_waiting_queue_index (jb_queue j) of
                     Some n \<Rightarrow> qm_state (jb_queue j ! n) = QmBlocked | None \<Rightarrow> False) then (Some MessageQueueBlocked, s)
          else if \<not> jb_paused j then (None, add_tasks [TRequest] s)
          else (None, save_later (new_version (j\<lparr>jb_paused := False, jb_pause_reason := NotPaused\<rparr>)) (AfterQueue j None) [TRequest] [] s))"

definition pause_message_queue_for_stop :: "job_sys \<Rightarrow> (job_error + bool) \<times> job_sys" where
  "pause_message_queue_for_stop s =
     (case js_job s of
        None \<Rightarrow> (Inl JobNotFound, s)
      | Some j \<Rightarrow>
          if jb_deleted j then (Inl JobIsDeleted, s)
          else if jb_status j \<noteq> JobRunning \<and> jb_queue j = [] then (Inr False, s)
          else if jb_paused j \<and> jb_pause_reason j = UserStopped then (Inr True, s)
          else (Inr True, save_later (new_version (j\<lparr>jb_paused := True, jb_pause_reason := UserStopped\<rparr>)) (AfterQueue j None) [] [] s))"

definition clear_empty_message_queue_pause :: "task list \<Rightarrow> job_sys \<Rightarrow> job_sys" where
  "clear_empty_message_queue_pause follow s =
     (case js_job s of
        None \<Rightarrow> add_tasks follow s
      | Some j \<Rightarrow>
          if \<not> jb_paused j \<or> jb_queue j \<noteq> [] then add_tasks follow s
          else save_later (new_version (j\<lparr>jb_paused := False, jb_pause_reason := NotPaused\<rparr>)) (AfterQueue j None) follow follow s)"

subsection \<open>Dispatching\<close>

definition request_message_queue_dispatch :: "job_sys \<Rightarrow> job_sys" where
  "request_message_queue_dispatch s =
     (if js_stopping s \<or> js_dispatching s then s else add_tasks [TDispatch] (s\<lparr>js_dispatching := True\<rparr>))"

definition block_message_queue_head :: "job_env \<Rightarrow> string \<Rightarrow> string \<Rightarrow> job_sys \<Rightarrow> job_sys" where
  "block_message_queue_head env i cause s =
     (case js_job s of
        None \<Rightarrow> add_tasks [TFinish] s
      | Some j \<Rightarrow>
          (case first_waiting_queue_index (jb_queue j) of
             None \<Rightarrow> add_tasks [TFinish] s
           | Some n \<Rightarrow>
               if qm_id (jb_queue j ! n) \<noteq> i then add_tasks [TFinish] s
               else let m = (jb_queue j ! n)\<lparr>qm_state := QmBlocked, qm_error := cause, qm_updated_at := je_now env\<rparr>;
                        j' = new_version (j\<lparr>jb_queue := (jb_queue j)[n := m], jb_paused := True, jb_pause_reason := HeadBlocked\<rparr>)
                    in save_later (set_receipt_state i MsgBlocked j') (AfterQueue j None) [TUnflag] [TUnflag] s))"

definition complete_claimed_queue_item :: "string \<Rightarrow> job_sys \<Rightarrow> job_sys" where
  "complete_claimed_queue_item i s =
     (case js_job s of
        None \<Rightarrow> add_tasks [TClear True] s
      | Some j \<Rightarrow>
          (case first_index (\<lambda>m. qm_id m = i \<and> qm_state m = QmProcessing) (jb_queue j) of
             None \<Rightarrow> add_tasks [TClear True] s
           | Some n \<Rightarrow> save_later (new_version (j\<lparr>jb_queue := remove_at n (jb_queue j)\<rparr>)) (AfterQueue j None) [TClear True] [TClear True] s))"

subsection \<open>The end of a run\<close>

definition accumulate_turn_duration :: "int \<Rightarrow> job \<Rightarrow> job" where
  "accumulate_turn_duration terminal_at j =
     (if \<not> jb_turn_pending j then j
      else let j = j\<lparr>jb_turn_pending := False\<rparr>
           in if jb_started_at j \<le> 0 \<or> terminal_at < jb_started_at j then j
              else j\<lparr>jb_total_turn := jb_total_turn j + (terminal_at - jb_started_at j)\<rparr>)"

fun outcome_receipt :: "run_outcome \<Rightarrow> receipt_state" where
  "outcome_receipt OutcomeCompleted = MsgCompleted"
| "outcome_receipt OutcomeStopped = MsgStopped"
| "outcome_receipt OutcomeFailed = MsgFailed"

definition finish_active_client_message :: "run_outcome \<Rightarrow> int \<Rightarrow> job \<Rightarrow> job" where
  "finish_active_client_message outcome at j =
     (if jb_active j = [] then j
      else case aget (jb_receipts j) (jb_active j) of
        None \<Rightarrow> j\<lparr>jb_active := []\<rparr>
      | Some r \<Rightarrow> j\<lparr>jb_receipts := aput (jb_active j) (r\<lparr>cr_state := outcome_receipt outcome, cr_finished_at := at\<rparr>) (jb_receipts j),
                     jb_active := []\<rparr>)"

definition capture_terminal_snapshot :: "run_outcome \<Rightarrow> int \<Rightarrow> job \<Rightarrow> job" where
  "capture_terminal_snapshot outcome now j =
     (let j = j\<lparr>jb_outcome := Some outcome\<rparr>;
          j = (if jb_finished_at j \<le> 0 then j\<lparr>jb_finished_at := now\<rparr> else j)
      in finish_active_client_message outcome (jb_finished_at j) (accumulate_turn_duration (jb_finished_at j) j))"

fun is_terminal_job_status :: "job_status \<Rightarrow> bool" where
  "is_terminal_job_status JobCompleted = True"
| "is_terminal_job_status JobFailed = True"
| "is_terminal_job_status JobStopped = True"
| "is_terminal_job_status _ = False"

definition apply_terminal_status :: "job_status option \<Rightarrow> job_status \<Rightarrow> job \<Rightarrow> job" where
  "apply_terminal_status prior target j =
     (case prior of
        Some p \<Rightarrow> if is_terminal_job_status p \<or> jb_mode j = ModeGraph then j\<lparr>jb_status := p\<rparr> else j\<lparr>jb_status := target\<rparr>
      | None \<Rightarrow> j\<lparr>jb_status := target\<rparr>)"

fun outcome_status :: "run_outcome \<Rightarrow> job_status" where
  "outcome_status OutcomeCompleted = JobCompleted"
| "outcome_status OutcomeStopped = JobStopped"
| "outcome_status OutcomeFailed = JobFailed"

text \<open>\<open>finishJob\<close>, \<open>stopJob\<close> and \<open>failJob\<close>.\<close>

definition terminal_job :: "job_env \<Rightarrow> run_outcome \<Rightarrow> string \<Rightarrow> task list \<Rightarrow> job_sys \<Rightarrow> job_sys" where
  "terminal_job env outcome message follow s =
     (case js_job s of
        None \<Rightarrow> add_tasks follow (s\<lparr>js_prior := None\<rparr>)
      | Some j \<Rightarrow>
          let j = apply_terminal_status (js_prior s) (outcome_status outcome) j;
              j = (if message \<noteq> [] then j\<lparr>jb_last_error := message\<rparr> else j)
          in save_later (capture_terminal_snapshot outcome (je_now env) j) AfterTerminal follow follow (s\<lparr>js_prior := None\<rparr>))"

subsection \<open>Restart\<close>

text \<open>What the start of the process makes of a job it finds running.\<close>

definition reconcile_loaded_job :: "job_env \<Rightarrow> job \<Rightarrow> job" where
  "reconcile_loaded_job env j =
     (if jb_status j \<noteq> JobRunning then j
      else let j = j\<lparr>jb_status := JobFailed, jb_finished_at := je_now env, jb_turn_pending := False,
                     jb_last_error := ''interrupted: process restarted while running''\<rparr>
           in if jb_active j = [] then j
              else (case aget (jb_receipts j) (jb_active j) of
                      None \<Rightarrow> j
                    | Some r \<Rightarrow> j\<lparr>jb_receipts := aput (jb_active j) (r\<lparr>cr_state := MsgInterrupted, cr_finished_at := je_now env\<rparr>) (jb_receipts j)\<rparr>)
                   \<lparr>jb_active := []\<rparr>)"

definition restart :: "job_env \<Rightarrow> bool \<Rightarrow> job_sys \<Rightarrow> job_sys" where
  "restart env ok s =
     (let loaded = (case js_disk s of Some j \<Rightarrow> if jb_deleted j then None else Some (reconcile_loaded_job env j) | None \<Rightarrow> None)
      in s\<lparr>js_job := loaded, js_disk := (if ok \<and> loaded \<noteq> None then loaded else js_disk s), js_prior := None, js_dispatcher := False,
           js_dispatching := False, js_stopping := False, js_dones := None, js_cancels := None, js_cancelled := [],
           js_saving := None, js_tasks := []\<rparr>)"

text \<open>\<open>SetMessageQueueDispatcher\<close> drops a head that was being processed when the process ended.\<close>

definition interrupt_head :: "job_env \<Rightarrow> queued_message \<Rightarrow> queued_message list \<Rightarrow> job \<Rightarrow> job" where
  "interrupt_head env m rest j =
     (let j = new_version (j\<lparr>jb_queue := rest\<rparr>);
          j = (case aget (jb_receipts j) (qm_id m) of
                 Some r \<Rightarrow>
                   if cr_state r = MsgProcessing
                   then j\<lparr>jb_receipts := aput (qm_id m) (r\<lparr>cr_state := MsgInterrupted, cr_finished_at := je_now env\<rparr>) (jb_receipts j)\<rparr>
                   else j
               | None \<Rightarrow> j)
      in if jb_active j = qm_id m then j\<lparr>jb_active := []\<rparr> else j)"

definition set_message_queue_dispatcher :: "job_env \<Rightarrow> job_sys \<Rightarrow> job_sys" where
  "set_message_queue_dispatcher env s =
     (let s = s\<lparr>js_dispatcher := True\<rparr>
      in case js_job s of
           None \<Rightarrow> s
         | Some j \<Rightarrow>
             if jb_deleted j then s
             else (case jb_queue j of
                     m # rest \<Rightarrow>
                       if jb_mode j = ModeInteractive \<and> qm_state m = QmProcessing
                       then save_later (interrupt_head env m rest j) (AfterQueue j None) [TStartup] [TStartup] s
                       else add_tasks [TStartup] s
                   | [] \<Rightarrow> add_tasks [TStartup] s))"

subsection \<open>The machine\<close>

datatype run_return = RunOk | RunInterrupted | RunFailed string | RunAborted string

datatype task_input = NoInput | Prepared "string + string" | Returned run_return

fun needs_lock :: "task \<Rightarrow> bool" where
  "needs_lock (TSend i payload) = True"
| "needs_lock (TBlock i cause) = True"
| "needs_lock (TFail tok i q msg) = True"
| "needs_lock (TTerminal outcome tok i q) = True"
| "needs_lock (TComplete i) = True"
| "needs_lock (TClear q) = True"
| "needs_lock _ = False"

definition land :: "nat \<Rightarrow> string \<Rightarrow> bool \<Rightarrow> job_sys \<Rightarrow> job_sys" where
  "land tok i q s =
     (case js_job s of
        None \<Rightarrow> add_tasks [TCleanup tok i q] s
      | Some j \<Rightarrow>
          if jb_status j \<noteq> JobRunning then add_tasks [TCleanup tok i q] s
          else add_tasks [TTerminal (if tok \<in> set (js_cancelled s) then OutcomeStopped else OutcomeCompleted) tok i q] s)"

definition run_returns :: "job_env \<Rightarrow> run_return \<Rightarrow> nat \<Rightarrow> string \<Rightarrow> bool \<Rightarrow> job_sys \<Rightarrow> job_sys" where
  "run_returns env ret tok i q s =
     (let finished = s\<lparr>js_job := map_option (\<lambda>j. j\<lparr>jb_finished_at := je_now env\<rparr>) (js_job s)\<rparr>
      in case ret of
           RunOk \<Rightarrow> add_tasks [TLand tok i q] finished
         | RunInterrupted \<Rightarrow> add_tasks [TLand tok i q] s
         | RunFailed msg \<Rightarrow> add_tasks [TFail tok i q msg] finished
         | RunAborted msg \<Rightarrow> add_tasks [TFail tok i q msg] s)"

definition exec_task :: "job_env \<Rightarrow> task_input \<Rightarrow> task \<Rightarrow> job_sys \<Rightarrow> job_sys" where
  "exec_task env inp t s =
     (case t of
        TRequest \<Rightarrow> request_message_queue_dispatch s
      | TDispatch \<Rightarrow>
          (if \<not> js_dispatcher s then add_tasks [TFinish] s
           else case Option.bind (js_job s) ready_head of None \<Rightarrow> add_tasks [TFinish] s | Some m \<Rightarrow> add_tasks [TCheckDone m] s)
      | TCheckDone m \<Rightarrow> add_tasks [if js_dones s = None then TPrepare m else TFinish] s
      | TPrepare m \<Rightarrow>
          (case inp of
             Prepared (Inl cause) \<Rightarrow> add_tasks [TBlock (qm_id m) cause] s
           | Prepared (Inr payload) \<Rightarrow> add_tasks [TSend (qm_id m) payload] s
           | _ \<Rightarrow> add_tasks [TPrepare m] s)
      | TSend i payload \<Rightarrow>
          (case send_message env True i payload s of
             (Inl e, s') \<Rightarrow> if e = JobIsRunning \<or> e = MessageQueueBlocked then add_tasks [TFinish] s else add_tasks [TBlock i ''send failed''] s
           | (Inr Accepted, s') \<Rightarrow> s'
           | (Inr d, s') \<Rightarrow> add_tasks [TFinish] s)
      | TBlock i cause \<Rightarrow> block_message_queue_head env i cause s
      | TUnflag \<Rightarrow> add_tasks [TFinish] (s\<lparr>js_dispatching := False\<rparr>)
      | TFinish \<Rightarrow> add_tasks [TRecheck] (s\<lparr>js_dispatching := False\<rparr>)
      | TRecheck \<Rightarrow>
          (if js_dispatcher s \<and> Option.bind (js_job s) ready_head \<noteq> None then add_tasks [TRecheckDone] s else s)
      | TRecheckDone \<Rightarrow> (if js_dones s = None then add_tasks [TRequest] s else s)
      | TStartup \<Rightarrow>
          (case js_job s of
             None \<Rightarrow> s
           | Some j \<Rightarrow> if \<not> jb_deleted j \<and> jb_mode j = ModeInteractive \<and> jb_queue j \<noteq> [] \<and> \<not> jb_paused j
                       then add_tasks [TRequest] s else s)
      | TLaunch tok i q \<Rightarrow> add_tasks [TRun tok i q] (s\<lparr>js_started := js_started s @ (if i = [] then [] else [i])\<rparr>)
      | TRun tok i q \<Rightarrow> (case inp of Returned ret \<Rightarrow> run_returns env ret tok i q s | _ \<Rightarrow> add_tasks [TRun tok i q] s)
      | TFail tok i q msg \<Rightarrow> terminal_job env OutcomeFailed msg [TLand tok i q] s
      | TLand tok i q \<Rightarrow> land tok i q s
      | TTerminal outcome tok i q \<Rightarrow> terminal_job env outcome [] [TCleanup tok i q] s
      | TCleanup tok i q \<Rightarrow> add_tasks [if q then TComplete i else TClear False] (clear_run tok s)
      | TComplete i \<Rightarrow> complete_claimed_queue_item i s
      | TClear q \<Rightarrow> clear_empty_message_queue_pause [if q then TFinish else TRequest] s)"

definition step_task :: "job_env \<Rightarrow> nat \<Rightarrow> task_input \<Rightarrow> job_sys \<Rightarrow> job_sys" where
  "step_task env n inp s =
     (if n < length (js_tasks s)
      then let t = js_tasks s ! n
           in if needs_lock t \<and> js_saving s \<noteq> None then s
              else exec_task env inp t (s\<lparr>js_tasks := remove_at n (js_tasks s)\<rparr>)
      else s)"

definition stop_job :: "job_sys \<Rightarrow> job_sys" where
  "stop_job s = (case js_cancels s of Some tok \<Rightarrow> s\<lparr>js_cancelled := tok # js_cancelled s, js_cancels := None\<rparr> | None \<Rightarrow> s)"

definition stop_all :: "job_sys \<Rightarrow> job_sys" where
  "stop_all s = (let s = s\<lparr>js_stopping := True\<rparr>
     in case js_cancels s of Some tok \<Rightarrow> s\<lparr>js_cancelled := tok # js_cancelled s\<rparr> | None \<Rightarrow> s)"

definition mark_deleted :: "bool \<Rightarrow> job_sys \<Rightarrow> job_sys" where
  "mark_deleted ok s =
     (case js_job s of
        None \<Rightarrow> s
      | Some j \<Rightarrow> if jb_deleted j \<or> \<not> ok then s else s\<lparr>js_disk := Some (j\<lparr>jb_deleted := True\<rparr>), js_job := Some (j\<lparr>jb_deleted := True\<rparr>)\<rparr>)"

text \<open>The file goes when the tombstone is in place and no run is left to wait for.\<close>

definition delete_job :: "bool \<Rightarrow> job_sys \<Rightarrow> job_sys" where
  "delete_job ok s =
     (case js_job s of
        None \<Rightarrow> s
      | Some j \<Rightarrow> if \<not> jb_deleted j \<or> \<not> ok then s else s\<lparr>js_disk := None, js_job := None\<rparr>)"

definition execute_command :: "job_env \<Rightarrow> string \<Rightarrow> string \<Rightarrow> bool \<Rightarrow> job_sys \<Rightarrow> (job_error + disposition) \<times> job_sys" where
  "execute_command env i payload ok s =
     (if i = [] then (Inr Accepted, s)
      else case js_job s of
        None \<Rightarrow> (Inl JobNotFound, s)
      | Some j \<Rightarrow>
          if jb_deleted j then (Inl JobIsDeleted, s)
          else if ahas (jb_receipts j) i then (Inl ClientMessageIdConflict, s)
          else (case aget (jb_commands j) i of
                  Some h \<Rightarrow> if h \<noteq> je_hash env payload then (Inl ClientMessageIdConflict, s) else (Inr Duplicate, s)
                | None \<Rightarrow> let j = j\<lparr>jb_commands := aput i (je_hash env payload) (jb_commands j)\<rparr>
                          in (Inr Accepted, if ok then s\<lparr>js_disk := Some j, js_job := Some j\<rparr> else s)))"

datatype job_op =
    JSubmit string string
  | JSend string string
  | JDeleteMessage string
  | JContinue
  | JPause
  | JCommand string string bool
  | JSave bool bool
  | JTask nat task_input
  | JStop
  | JStopAll
  | JSetDispatcher
  | JMarkDeleted bool
  | JDelete bool
  | JRestart bool

fun op_needs_lock :: "job_op \<Rightarrow> bool" where
  "op_needs_lock (JSubmit i payload) = True"
| "op_needs_lock (JSend i payload) = True"
| "op_needs_lock (JDeleteMessage i) = True"
| "op_needs_lock JContinue = True"
| "op_needs_lock JPause = True"
| "op_needs_lock (JCommand i payload ok) = True"
| "op_needs_lock JSetDispatcher = True"
| "op_needs_lock (JMarkDeleted ok) = True"
| "op_needs_lock (JDelete ok) = True"
| "op_needs_lock _ = False"

definition exec_job :: "job_env \<times> job_op \<Rightarrow> job_sys \<Rightarrow> job_sys" where
  "exec_job eop s =
     (case eop of (env, op) \<Rightarrow>
        if op_needs_lock op \<and> js_saving s \<noteq> None then s
        else case op of
          JSubmit i payload \<Rightarrow> snd (submit_message env i payload s)
        | JSend i payload \<Rightarrow> snd (send_message env False i payload s)
        | JDeleteMessage i \<Rightarrow> snd (delete_queued_message env i s)
        | JContinue \<Rightarrow> snd (continue_message_queue s)
        | JPause \<Rightarrow> snd (pause_message_queue_for_stop s)
        | JCommand i payload ok \<Rightarrow> snd (execute_command env i payload ok s)
        | JSave ok again \<Rightarrow> finish_save ok again s
        | JTask n inp \<Rightarrow> step_task env n inp s
        | JStop \<Rightarrow> stop_job s
        | JStopAll \<Rightarrow> stop_all s
        | JSetDispatcher \<Rightarrow> set_message_queue_dispatcher env s
        | JMarkDeleted ok \<Rightarrow> mark_deleted ok s
        | JDelete ok \<Rightarrow> delete_job ok s
        | JRestart ok \<Rightarrow> restart env ok s)"

definition new_job :: job where
  "new_job = \<lparr> jb_mode = ModeInteractive, jb_deleted = False, jb_status = JobPending, jb_started_at = 0, jb_finished_at = 0, jb_total_turn = 0,
     jb_turn_pending = False, jb_outcome = None, jb_last_error = [], jb_active = [], jb_receipts = [], jb_commands = [], jb_queue = [],
     jb_queue_version = 0, jb_paused = False, jb_pause_reason = NotPaused \<rparr>"

definition created :: "job_mode \<Rightarrow> job_sys" where
  "created mode = (let j = new_job\<lparr>jb_mode := mode\<rparr> in
     \<lparr> js_job = Some j, js_disk = Some j, js_prior = None, js_dispatcher = False, js_dispatching = False, js_stopping = False, js_dones = None,
       js_cancels = None, js_cancelled = [], js_next = 0, js_saving = None, js_tasks = [], js_acked = [], js_started = [] \<rparr>)"

end
