(* ===== verification/JobQueued.thy ===== *)
theory JobQueued
  imports JobQueue "HOL-Library.Sublist"
begin

subsection \<open>The queue and the receipts\<close>

fun live :: "receipt_state \<Rightarrow> bool" where
  "live MsgQueued = True"
| "live MsgBlocked = True"
| "live _ = False"

fun matching :: "queued_state \<Rightarrow> receipt_state \<Rightarrow> bool" where
  "matching QmQueued st = (st = MsgQueued)"
| "matching QmBlocked st = (st = MsgBlocked)"
| "matching QmProcessing st = (\<not> live st)"

definition waiting_ids :: "job \<Rightarrow> string list" where
  "waiting_ids j = map qm_id (filter (\<lambda>m. qm_state m \<noteq> QmProcessing) (jb_queue j))"

definition known :: "job \<Rightarrow> string \<Rightarrow> bool" where
  "known j i \<longleftrightarrow> ahas (jb_receipts j) i"

definition spent :: "job \<Rightarrow> string \<Rightarrow> bool" where
  "spent j i \<longleftrightarrow> (case aget (jb_receipts j) i of Some r \<Rightarrow> \<not> live (cr_state r) | None \<Rightarrow> False)"

definition item_ok :: "(string \<times> client_receipt) list \<Rightarrow> queued_message \<Rightarrow> bool" where
  "item_ok rs m \<longleftrightarrow> (case aget rs (qm_id m) of Some r \<Rightarrow> matching (qm_state m) (cr_state r) | None \<Rightarrow> False)"

definition q_ok :: "job \<Rightarrow> bool" where
  "q_ok j \<longleftrightarrow> distinct (map qm_id (jb_queue j)) \<and> (\<forall>m \<in> set (jb_queue j). item_ok (jb_receipts j) m)
     \<and> (\<forall>i. known j i \<longrightarrow> spent j i \<or> i \<in> set (waiting_ids j))
     \<and> (jb_active j \<noteq> [] \<longrightarrow> spent j (jb_active j))"

definition evolves :: "job \<Rightarrow> job \<Rightarrow> bool" where
  "evolves j j' \<longleftrightarrow> q_ok j' \<and> (\<forall>i. spent j i \<longrightarrow> spent j' i) \<and> (\<forall>i. known j i \<longrightarrow> known j' i)
     \<and> subseq (waiting_ids j') (waiting_ids j)"

lemmas job_facts = waiting_ids_def known_def spent_def

lemma job_facts_fields [simp]:
  "waiting_ids (j\<lparr>jb_status := a\<rparr>) = waiting_ids j" "known (j\<lparr>jb_status := a\<rparr>) = known j" "spent (j\<lparr>jb_status := a\<rparr>) = spent j"
  "waiting_ids (j\<lparr>jb_started_at := b\<rparr>) = waiting_ids j" "known (j\<lparr>jb_started_at := b\<rparr>) = known j" "spent (j\<lparr>jb_started_at := b\<rparr>) = spent j"
  "waiting_ids (j\<lparr>jb_finished_at := b\<rparr>) = waiting_ids j" "known (j\<lparr>jb_finished_at := b\<rparr>) = known j" "spent (j\<lparr>jb_finished_at := b\<rparr>) = spent j"
  "waiting_ids (j\<lparr>jb_total_turn := b\<rparr>) = waiting_ids j" "known (j\<lparr>jb_total_turn := b\<rparr>) = known j" "spent (j\<lparr>jb_total_turn := b\<rparr>) = spent j"
  "waiting_ids (j\<lparr>jb_turn_pending := c\<rparr>) = waiting_ids j" "known (j\<lparr>jb_turn_pending := c\<rparr>) = known j" "spent (j\<lparr>jb_turn_pending := c\<rparr>) = spent j"
  "waiting_ids (j\<lparr>jb_outcome := d\<rparr>) = waiting_ids j" "known (j\<lparr>jb_outcome := d\<rparr>) = known j" "spent (j\<lparr>jb_outcome := d\<rparr>) = spent j"
  "waiting_ids (j\<lparr>jb_last_error := e\<rparr>) = waiting_ids j" "known (j\<lparr>jb_last_error := e\<rparr>) = known j" "spent (j\<lparr>jb_last_error := e\<rparr>) = spent j"
  "waiting_ids (j\<lparr>jb_active := e\<rparr>) = waiting_ids j" "known (j\<lparr>jb_active := e\<rparr>) = known j" "spent (j\<lparr>jb_active := e\<rparr>) = spent j"
  "waiting_ids (j\<lparr>jb_commands := f\<rparr>) = waiting_ids j" "known (j\<lparr>jb_commands := f\<rparr>) = known j" "spent (j\<lparr>jb_commands := f\<rparr>) = spent j"
  "waiting_ids (j\<lparr>jb_queue_version := b\<rparr>) = waiting_ids j" "known (j\<lparr>jb_queue_version := b\<rparr>) = known j" "spent (j\<lparr>jb_queue_version := b\<rparr>) = spent j"
  "waiting_ids (j\<lparr>jb_paused := c\<rparr>) = waiting_ids j" "known (j\<lparr>jb_paused := c\<rparr>) = known j" "spent (j\<lparr>jb_paused := c\<rparr>) = spent j"
  "waiting_ids (j\<lparr>jb_pause_reason := g\<rparr>) = waiting_ids j" "known (j\<lparr>jb_pause_reason := g\<rparr>) = known j" "spent (j\<lparr>jb_pause_reason := g\<rparr>) = spent j"
  "waiting_ids (j\<lparr>jb_deleted := c\<rparr>) = waiting_ids j" "known (j\<lparr>jb_deleted := c\<rparr>) = known j" "spent (j\<lparr>jb_deleted := c\<rparr>) = spent j"
  "waiting_ids (j\<lparr>jb_receipts := h\<rparr>) = waiting_ids j" "known (j\<lparr>jb_queue := q\<rparr>) = known j" "spent (j\<lparr>jb_queue := q\<rparr>) = spent j"
  by (simp_all add: job_facts fun_eq_iff)

lemma q_ok_fields [simp]:
  "q_ok (j\<lparr>jb_status := a\<rparr>) = q_ok j" "q_ok (j\<lparr>jb_started_at := b\<rparr>) = q_ok j" "q_ok (j\<lparr>jb_finished_at := b\<rparr>) = q_ok j"
  "q_ok (j\<lparr>jb_total_turn := b\<rparr>) = q_ok j" "q_ok (j\<lparr>jb_turn_pending := c\<rparr>) = q_ok j" "q_ok (j\<lparr>jb_outcome := d\<rparr>) = q_ok j"
  "q_ok (j\<lparr>jb_last_error := e\<rparr>) = q_ok j" "q_ok (j\<lparr>jb_commands := f\<rparr>) = q_ok j" "q_ok (j\<lparr>jb_queue_version := b\<rparr>) = q_ok j"
  "q_ok (j\<lparr>jb_paused := c\<rparr>) = q_ok j" "q_ok (j\<lparr>jb_pause_reason := g\<rparr>) = q_ok j" "q_ok (j\<lparr>jb_deleted := c\<rparr>) = q_ok j"
  by (simp_all add: q_ok_def)

lemma q_ok_idle [simp]: "q_ok j \<Longrightarrow> q_ok (j\<lparr>jb_active := []\<rparr>)"
  by (simp add: q_ok_def)

lemma spent_known: "spent j i \<Longrightarrow> known j i"
  by (auto simp: job_facts split: option.splits)

lemma spent_aput: "spent (j\<lparr>jb_receipts := aput i r (jb_receipts j)\<rparr>) k = (if k = i then \<not> live (cr_state r) else spent j k)"
  by (simp add: spent_def)

lemma known_aput: "known (j\<lparr>jb_receipts := aput i r (jb_receipts j)\<rparr>) k = (k = i \<or> known j k)"
  by (simp add: known_def)

lemma waiting_not_spent:
  assumes "q_ok j" "i \<in> set (waiting_ids j)" shows "\<not> spent j i"
proof -
  from assms(2) obtain m where m: "m \<in> set (jb_queue j)" "qm_state m \<noteq> QmProcessing" "qm_id m = i"
    by (auto simp: waiting_ids_def)
  with assms(1) have "item_ok (jb_receipts j) m" by (simp add: q_ok_def)
  with m show ?thesis by (cases "qm_state m") (auto simp: item_ok_def spent_def split: option.splits)
qed

lemma evolves_refl: "q_ok j \<Longrightarrow> evolves j j"
  by (simp add: evolves_def)

lemma evolves_q_ok: "evolves j j' \<Longrightarrow> q_ok j'"
  by (simp add: evolves_def)

lemma evolves_trans: "evolves j j' \<Longrightarrow> evolves j' k \<Longrightarrow> evolves j k"
  by (auto simp: evolves_def intro: subseq_order.trans)

subsection \<open>The steps of a job\<close>

text \<open>A message that is out of the queue gets another receipt.\<close>

lemma receipt_over:
  assumes "q_ok j" "spent j i \<or> \<not> known j i" "\<not> live (cr_state r)"
  shows "evolves j (j\<lparr>jb_receipts := aput i r (jb_receipts j)\<rparr>)"
proof -
  let ?j = "j\<lparr>jb_receipts := aput i r (jb_receipts j)\<rparr>"
  have "item_ok (aput i r (jb_receipts j)) m" if "m \<in> set (jb_queue j)" for m
  proof -
    have ok: "item_ok (jb_receipts j) m" using assms(1) that by (simp add: q_ok_def)
    show ?thesis
    proof (cases "qm_id m = i")
      case True
      then have "qm_state m = QmProcessing"
        using ok assms(2) by (cases "qm_state m") (auto simp: item_ok_def job_facts split: option.splits)
      then show ?thesis using True assms(3) by (simp add: item_ok_def)
    next
      case False then show ?thesis using ok by (simp add: item_ok_def)
    qed
  qed
  then have "q_ok ?j" using assms by (auto simp: q_ok_def spent_aput known_aput)
  then show ?thesis using assms by (auto simp: evolves_def spent_aput known_aput)
qed

lemma items_apart:
  assumes "q_ok j" "jb_queue j = a @ m # b" "x \<in> set (a @ b)"
  shows "qm_id x \<noteq> qm_id m" "item_ok (aput (qm_id m) r (jb_receipts j)) x"
proof -
  show apart: "qm_id x \<noteq> qm_id m" using assms by (auto simp: q_ok_def image_iff)
  have "item_ok (jb_receipts j) x" using assms by (auto simp: q_ok_def)
  then show "item_ok (aput (qm_id m) r (jb_receipts j)) x" using apart by (simp add: item_ok_def)
qed

text \<open>An item leaves the queue, with its receipt spent.\<close>

lemma item_leaves:
  assumes "q_ok j" "jb_queue j = a @ m # b" "\<not> live (cr_state r)"
  shows "evolves j (j\<lparr>jb_queue := a @ b, jb_receipts := aput (qm_id m) r (jb_receipts j)\<rparr>)"
proof -
  let ?j = "j\<lparr>jb_queue := a @ b, jb_receipts := aput (qm_id m) r (jb_receipts j)\<rparr>"
  have sub: "subseq (waiting_ids ?j) (waiting_ids j)" using assms(2) by (auto simp: waiting_ids_def intro: list_emb_append_mono)
  have "item_ok (aput (qm_id m) r (jb_receipts j)) x" if "x \<in> set (a @ b)" for x
    using items_apart(2) [OF assms(1,2) that] .
  moreover have "k \<in> set (waiting_ids j) \<longrightarrow> k = qm_id m \<or> k \<in> set (waiting_ids ?j)" for k
    using assms(2) by (auto simp: waiting_ids_def split: if_splits)
  then have "known j k \<longrightarrow> k \<noteq> qm_id m \<longrightarrow> spent j k \<or> k \<in> set (waiting_ids ?j)" for k
    using assms(1) unfolding q_ok_def by blast
  ultimately have "q_ok ?j" using assms by (auto simp: q_ok_def spent_def known_def)
  then show ?thesis using sub assms(3) by (auto simp: evolves_def spent_def known_def)
qed

lemma processed_leaves:
  assumes "q_ok j" "jb_queue j = a @ m # b" "qm_state m = QmProcessing"
  shows "evolves j (j\<lparr>jb_queue := a @ b\<rparr>)"
proof -
  let ?j = "j\<lparr>jb_queue := a @ b\<rparr>"
  have same: "waiting_ids ?j = waiting_ids j" using assms(2,3) by (simp add: waiting_ids_def)
  then have "q_ok ?j" using assms by (auto simp: q_ok_def)
  then show ?thesis using same by (simp add: evolves_def)
qed

text \<open>A waiting item changes its state with its receipt.\<close>

lemma item_changes:
  assumes "q_ok j" "jb_queue j = a @ m # b" "qm_state m \<noteq> QmProcessing" "qm_id m' = qm_id m" "matching (qm_state m') (cr_state r)"
    and "\<forall>x \<in> set a. qm_state x = QmProcessing"
  shows "evolves j (j\<lparr>jb_queue := a @ m' # b, jb_receipts := aput (qm_id m) r (jb_receipts j)\<rparr>)"
proof -
  let ?j = "j\<lparr>jb_queue := a @ m' # b, jb_receipts := aput (qm_id m) r (jb_receipts j)\<rparr>"
  have not_spent: "\<not> spent j (qm_id m)" using assms(1-3) by (intro waiting_not_spent) (auto simp: waiting_ids_def)
  have sub: "subseq (waiting_ids ?j) (waiting_ids j)" using assms(2-4) by (auto simp: waiting_ids_def intro: list_emb_append_mono)
  have items: "item_ok (aput (qm_id m) r (jb_receipts j)) x" if "x \<in> set (a @ m' # b)" for x
    using items_apart(2) [OF assms(1,2), of x r] that assms(4,5) by (cases "x = m'") (auto simp: item_ok_def)
  have "known j k \<longrightarrow> k \<noteq> qm_id m \<longrightarrow> spent j k \<or> k \<in> set (waiting_ids ?j)" for k
    using assms by (auto simp: q_ok_def waiting_ids_def)
  moreover have "spent ?j (qm_id m) \<or> qm_id m \<in> set (waiting_ids ?j)"
    using assms(4,5) by (cases "qm_state m'") (auto simp: waiting_ids_def spent_def)
  moreover have "jb_active j \<noteq> [] \<longrightarrow> spent ?j (jb_active j)"
    using assms(1) not_spent by (auto simp: q_ok_def spent_def)
  moreover have "distinct (map qm_id (jb_queue ?j))" using assms(1,2,4) by (simp add: q_ok_def)
  ultimately have "q_ok ?j" using items unfolding q_ok_def by (auto simp: spent_def known_def)
  moreover have "spent j k \<longrightarrow> spent ?j k" for k using not_spent by (auto simp: spent_def)
  ultimately show ?thesis using sub by (auto simp: evolves_def known_def)
qed

lemma first_index_split:
  assumes "first_index P xs = Some n"
  obtains a x b where "xs = a @ x # b" "length a = n" "P x" "\<forall>y \<in> set a. \<not> P y"
proof -
  note found = first_index_Some [OF assms]
  then show thesis by (intro that [of "take n xs" "xs ! n" "drop (Suc n) xs"]) (simp_all add: id_take_nth_drop [symmetric])
qed

lemma first_waiting_split:
  assumes "first_waiting_queue_index q = Some n"
  obtains a m b where "q = a @ m # b" "length a = n" "qm_state m \<noteq> QmProcessing" "\<forall>x \<in> set a. qm_state x = QmProcessing"
  using first_index_split [OF assms [unfolded first_waiting_queue_index_def]] by auto

lemma remove_at_split: "length a = n \<Longrightarrow> remove_at n (a @ m # b) = a @ b"
  by (auto simp: remove_at_def)

lemma new_version_simps [simp]: "q_ok (new_version j) = q_ok j" "spent (new_version j) = spent j" "known (new_version j) = known j"
  "waiting_ids (new_version j) = waiting_ids j" "evolves i (new_version j) = evolves i j"
  by (simp_all add: new_version_def evolves_def)

lemma evolves_fields [simp]:
  "evolves i (j\<lparr>jb_status := a\<rparr>) = evolves i j" "evolves i (j\<lparr>jb_started_at := b\<rparr>) = evolves i j" "evolves i (j\<lparr>jb_finished_at := b\<rparr>) = evolves i j"
  "evolves i (j\<lparr>jb_total_turn := b\<rparr>) = evolves i j" "evolves i (j\<lparr>jb_turn_pending := c\<rparr>) = evolves i j" "evolves i (j\<lparr>jb_outcome := d\<rparr>) = evolves i j"
  "evolves i (j\<lparr>jb_last_error := e\<rparr>) = evolves i j" "evolves i (j\<lparr>jb_commands := f\<rparr>) = evolves i j" "evolves i (j\<lparr>jb_queue_version := b\<rparr>) = evolves i j"
  "evolves i (j\<lparr>jb_paused := c\<rparr>) = evolves i j" "evolves i (j\<lparr>jb_pause_reason := g\<rparr>) = evolves i j" "evolves i (j\<lparr>jb_deleted := c\<rparr>) = evolves i j"
  by (simp_all add: evolves_def)

lemma evolves_idle: "evolves i j \<Longrightarrow> evolves i (j\<lparr>jb_active := []\<rparr>)"
  by (simp add: evolves_def)

lemma evolves_active: "evolves i j \<Longrightarrow> spent j k \<Longrightarrow> evolves i (j\<lparr>jb_active := k\<rparr>)"
  by (simp add: evolves_def q_ok_def)

text \<open>The submission of a message that is not known.\<close>

lemma submitted:
  assumes "q_ok j" "\<not> known j i" "qm_id m = i" "qm_state m = QmQueued" "cr_state r = MsgQueued"
  defines "j' \<equiv> j\<lparr>jb_queue := jb_queue j @ [m], jb_receipts := aput i r (jb_receipts j)\<rparr>"
  shows "q_ok j'" "waiting_ids j' = waiting_ids j @ [i]" "spent j' k = spent j k" "known j' k = (k = i \<or> known j k)"
proof -
  show w: "waiting_ids j' = waiting_ids j @ [i]" using assms by (simp add: waiting_ids_def)
  show sp: "spent j' k = spent j k" for k using assms spent_known [of j i] by (auto simp: spent_def)
  show kn: "known j' k = (k = i \<or> known j k)" for k using assms by (simp add: known_def)
  have absent: "qm_id x \<noteq> i" if "x \<in> set (jb_queue j)" for x
    using assms(1,2) that by (auto simp: q_ok_def item_ok_def known_def split: option.splits)
  then have "item_ok (aput i r (jb_receipts j)) x" if "x \<in> set (jb_queue j @ [m])" for x
    using assms that by (auto simp: q_ok_def item_ok_def)
  moreover have "distinct (map qm_id (jb_queue j'))" using assms(1,3) absent by (force simp: q_ok_def j'_def)
  moreover have "known j' k \<longrightarrow> spent j' k \<or> k \<in> set (waiting_ids j')" for k
    unfolding w sp kn using assms(1) by (auto simp: q_ok_def)
  moreover have "jb_active j' = jb_active j" "jb_receipts j' = aput i r (jb_receipts j)" "jb_queue j' = jb_queue j @ [m]"
    by (simp_all add: j'_def)
  ultimately show "q_ok j'" using assms(1) unfolding q_ok_def by (simp add: sp)
qed

text \<open>A run is started, from the head of the queue or beside it.\<close>

lemma start_evolves:
  assumes "q_ok j" "i = [] \<or> spent j i \<or> \<not> known j i"
  shows "evolves j (start_run_job env i p j) \<and> (i \<noteq> [] \<longrightarrow> spent (start_run_job env i p j) i)"
proof -
  define j1 where "j1 = j\<lparr>jb_status := JobRunning, jb_started_at := je_now env, jb_finished_at := 0, jb_turn_pending := True, jb_outcome := None\<rparr>"
  have one: "evolves j j1" "q_ok j1" "spent j1 = spent j" "known j1 = known j"
    using assms(1) by (simp_all add: j1_def evolves_refl)
  show ?thesis
  proof (cases "i = []")
    case True then show ?thesis using one by (simp add: start_run_job_def j1_def)
  next
    case False
    then obtain r where r: "start_run_job env i p j = j1\<lparr>jb_receipts := aput i r (jb_receipts j1), jb_active := i\<rparr>" "cr_state r = MsgProcessing"
      unfolding start_run_job_def j1_def Let_def by simp
    have two: "evolves j1 (j1\<lparr>jb_receipts := aput i r (jb_receipts j1)\<rparr>)" "spent (j1\<lparr>jb_receipts := aput i r (jb_receipts j1)\<rparr>) i"
      using assms(2) False one r(2) by (auto intro!: receipt_over simp: spent_aput)
    then show ?thesis using evolves_trans [OF one(1) evolves_active [OF two]] two(2) by (simp add: r(1))
  qed
qed

lemma claim_evolves:
  assumes "q_ok j" "aget (jb_receipts j) i = Some r" "first_waiting_queue_index (jb_queue j) = Some n" "qm_id (jb_queue j ! n) = i" "i \<noteq> []"
  shows "evolves j (start_run_job env i p (claim_head env n j)) \<and> spent (start_run_job env i p (claim_head env n j)) i"
proof -
  obtain a m b where q: "jb_queue j = a @ m # b" "length a = n" "qm_state m \<noteq> QmProcessing" "\<forall>x \<in> set a. qm_state x = QmProcessing"
    using first_waiting_split [OF assms(3)] by blast
  then have m: "jb_queue j ! n = m" "qm_id m = i" using assms(4) by auto
  define r' where "r' = r\<lparr>cr_state := MsgProcessing\<rparr>"
  define j1 where "j1 = j\<lparr>jb_status := JobRunning, jb_started_at := je_now env, jb_finished_at := 0, jb_turn_pending := True, jb_outcome := None\<rparr>"
  obtain s where s: "start_run_job env i p (claim_head env n j)
      = j1\<lparr>jb_queue := a @ m\<lparr>qm_state := QmProcessing, qm_updated_at := je_now env\<rparr> # b,
           jb_receipts := aput i s (jb_receipts j1), jb_queue_version := jb_queue_version j + 1, jb_active := i\<rparr>" "cr_state s = MsgProcessing"
    using assms(5) q m unfolding start_run_job_def claim_head_def new_version_def j1_def Let_def
    by (cases j) (simp add: list_update_append)
  have one: "evolves j j1" "q_ok j1" "jb_queue j1 = jb_queue j" "jb_receipts j1 = jb_receipts j" using assms(1) by (simp_all add: j1_def evolves_refl)
  let ?k = "j1\<lparr>jb_queue := a @ m\<lparr>qm_state := QmProcessing, qm_updated_at := je_now env\<rparr> # b, jb_receipts := aput (qm_id m) s (jb_receipts j1)\<rparr>"
  have two: "evolves j1 ?k" using one q s by (intro item_changes) simp_all
  have sp: "spent ?k i" using s(2) m by (simp add: spent_def)
  have "evolves j (?k\<lparr>jb_queue_version := jb_queue_version j + 1, jb_active := i\<rparr>)"
    using evolves_trans [OF one(1) two] sp by (intro evolves_active) simp_all
  then show ?thesis using s m sp by (simp add: s(1))
qed

lemma block_evolves:
  assumes "q_ok j" "first_waiting_queue_index (jb_queue j) = Some n" "qm_id (jb_queue j ! n) = i"
  shows "evolves j (set_receipt_state i MsgBlocked (new_version (j\<lparr>jb_queue := (jb_queue j)
      [n := (jb_queue j ! n)\<lparr>qm_state := QmBlocked, qm_error := cause, qm_updated_at := at\<rparr>], jb_paused := True, jb_pause_reason := HeadBlocked\<rparr>)))"
    (is "evolves j ?k")
proof -
  obtain a m b where q: "jb_queue j = a @ m # b" "length a = n" "qm_state m \<noteq> QmProcessing" "\<forall>x \<in> set a. qm_state x = QmProcessing"
    using first_waiting_split [OF assms(2)] by blast
  then have m: "jb_queue j ! n = m" "qm_id m = i" using assms(3) by auto
  have "item_ok (jb_receipts j) m" using assms(1) q(1) by (simp add: q_ok_def)
  then obtain r where r: "aget (jb_receipts j) i = Some r" using m by (auto simp: item_ok_def split: option.splits)
  let ?m = "m\<lparr>qm_state := QmBlocked, qm_error := cause, qm_updated_at := at\<rparr>"
  have "?k = j\<lparr>jb_queue := a @ ?m # b, jb_receipts := aput (qm_id m) (r\<lparr>cr_state := MsgBlocked\<rparr>) (jb_receipts j),
      jb_queue_version := jb_queue_version j + 1, jb_paused := True, jb_pause_reason := HeadBlocked\<rparr>"
    using q m r by (cases j) (simp add: set_receipt_state_def new_version_def list_update_append)
  then show ?thesis using item_changes [OF assms(1) q(1,3) _ _ q(4), of ?m "r\<lparr>cr_state := MsgBlocked\<rparr>"] by simp
qed

lemma complete_evolves:
  assumes "q_ok j" "first_index (\<lambda>m. qm_id m = i \<and> qm_state m = QmProcessing) (jb_queue j) = Some n"
  shows "evolves j (new_version (j\<lparr>jb_queue := remove_at n (jb_queue j)\<rparr>))"
proof -
  obtain a m b where q: "jb_queue j = a @ m # b" "length a = n" "qm_id m = i \<and> qm_state m = QmProcessing"
    by (rule first_index_split [OF assms(2)])
  show ?thesis using processed_leaves [OF assms(1) q(1)] q(3) by (simp add: q(1) remove_at_split [OF q(2)])
qed

lemma delete_evolves:
  assumes "q_ok j" "first_index (\<lambda>m. qm_id m = i) (jb_queue j) = Some n" "cr_state r = MsgDeleted"
  shows "evolves j (new_version (j\<lparr>jb_queue := remove_at n (jb_queue j), jb_receipts := aput i r (jb_receipts j)\<rparr>))"
proof -
  obtain a m b where q: "jb_queue j = a @ m # b" "length a = n" "qm_id m = i"
    by (rule first_index_split [OF assms(2)])
  show ?thesis using item_leaves [OF assms(1) q(1), of r] assms(3) by (simp add: q remove_at_split [OF q(2)])
qed

lemma interrupt_evolves:
  assumes "q_ok j" "jb_queue j = m # rest" "qm_state m = QmProcessing"
  shows "evolves j (interrupt_head env m rest j)"
proof -
  define k where "k = new_version (j\<lparr>jb_queue := rest\<rparr>)"
  have k: "evolves j k" using processed_leaves [OF assms(1), of "[]" m rest] assms(2,3) by (simp add: k_def)
  have rs: "jb_receipts k = jb_receipts j" "jb_active k = jb_active j" by (simp_all add: k_def new_version_def)
  define l where "l = (case aget (jb_receipts k) (qm_id m) of
                 Some r \<Rightarrow> if cr_state r = MsgProcessing
                   then k\<lparr>jb_receipts := aput (qm_id m) (r\<lparr>cr_state := MsgInterrupted, cr_finished_at := je_now env\<rparr>) (jb_receipts k)\<rparr>
                   else k
               | None \<Rightarrow> k)"
  have "evolves k l"
    using receipt_over [OF evolves_q_ok [OF k], of "qm_id m"] evolves_refl [OF evolves_q_ok [OF k]]
    by (auto simp: l_def spent_def split: option.split)
  with k have l: "evolves j l" by (rule evolves_trans)
  have "interrupt_head env m rest j = (if jb_active l = qm_id m then l\<lparr>jb_active := []\<rparr> else l)"
    by (simp add: interrupt_head_def k_def [symmetric] l_def rs Let_def)
  then show ?thesis using l evolves_idle [OF l] by simp
qed

lemma active_over:
  assumes "q_ok j" "jb_active j \<noteq> []" "aget (jb_receipts j) (jb_active j) = Some r" "\<not> live (cr_state r')"
  shows "evolves j (j\<lparr>jb_receipts := aput (jb_active j) r' (jb_receipts j), jb_active := []\<rparr>)"
  using evolves_idle [OF receipt_over [OF assms(1), of "jb_active j" r']] assms by (simp add: q_ok_def)

lemma reconcile_evolves:
  assumes "q_ok j" shows "evolves j (reconcile_loaded_job env j)"
proof -
  define k where "k = j\<lparr>jb_status := JobFailed, jb_finished_at := je_now env, jb_turn_pending := False,
                     jb_last_error := ''interrupted: process restarted while running''\<rparr>"
  have k: "evolves j k" "q_ok k" using assms by (simp_all add: k_def evolves_refl)
  have "evolves k (k\<lparr>jb_active := []\<rparr>)" using evolves_idle [OF evolves_refl [OF k(2)]] .
  then have "evolves k (if jb_active k = [] then k else (case aget (jb_receipts k) (jb_active k) of
                      None \<Rightarrow> k
                    | Some r \<Rightarrow> k\<lparr>jb_receipts := aput (jb_active k) (r\<lparr>cr_state := MsgInterrupted, cr_finished_at := je_now env\<rparr>) (jb_receipts k)\<rparr>)
                   \<lparr>jb_active := []\<rparr>)"
    using active_over [OF k(2)] evolves_refl [OF k(2)] by (auto split: option.split)
  from evolves_trans [OF k(1) this] show ?thesis
    using evolves_refl [OF assms] by (simp add: reconcile_loaded_job_def k_def [symmetric] Let_def)
qed

lemma accumulate_evolves: "evolves i (accumulate_turn_duration t j) = evolves i j" "q_ok (accumulate_turn_duration t j) = q_ok j"
  by (simp_all add: accumulate_turn_duration_def Let_def)

lemma capture_evolves:
  assumes "q_ok j" shows "evolves j (capture_terminal_snapshot outcome now j)"
proof -
  define k where "k = (let j = j\<lparr>jb_outcome := Some outcome\<rparr> in if jb_finished_at j \<le> 0 then j\<lparr>jb_finished_at := now\<rparr> else j)"
  have k: "evolves j k" "q_ok k" using assms by (simp_all add: k_def Let_def evolves_refl)
  define l where "l = accumulate_turn_duration (jb_finished_at k) k"
  have l: "evolves j l" "q_ok l" using k by (simp_all add: l_def accumulate_evolves)
  have "\<not> live (outcome_receipt outcome)" by (cases outcome) simp_all
  then have "evolves l (finish_active_client_message outcome (jb_finished_at k) l)"
    using active_over [OF l(2)] evolves_idle [OF evolves_refl [OF l(2)]] evolves_refl [OF l(2)]
    by (auto simp: finish_active_client_message_def split: option.split)
  from evolves_trans [OF l(1) this] show ?thesis
    by (simp add: capture_terminal_snapshot_def k_def l_def Let_def)
qed

lemma terminal_status_evolves: "evolves i (apply_terminal_status p t j) = evolves i j"
  by (simp add: apply_terminal_status_def split: option.split)

lemma restore_queue:
  "q_ok (restore_message_queue_state p j) = q_ok p" "spent (restore_message_queue_state p j) = spent p"
  "known (restore_message_queue_state p j) = known p" "waiting_ids (restore_message_queue_state p j) = waiting_ids p"
  by (auto simp: restore_message_queue_state_def q_ok_def job_facts fun_eq_iff)

lemma restore_run:
  "q_ok (restore_run_state p j) = q_ok p" "spent (restore_run_state p j) = spent p"
  "known (restore_run_state p j) = known p" "waiting_ids (restore_run_state p j) = waiting_ids p"
  by (simp_all add: restore_run_state_def restore_queue)

end
