(* ===== verification/JobDelivery.thy ===== *)
theory JobDelivery
  imports JobQueued
begin

section \<open>Every message once, in order, and none lost\<close>

text \<open>
  The invariant of the queue's machine. A copy of the job, in memory, on disk, or kept to be put back
  when a write fails, is sound when its queue and its receipts agree, every message that was handed
  to the agent is spent in it, every message that was accepted is known in it, and no message that was
  accepted before one that was handed over is still waiting. Every operation, every step of
  every goroutine, every outcome of a write and every restart keep this.
\<close>

subsection \<open>The invariant of the machine\<close>

fun launches_of :: "task \<Rightarrow> string list" where
  "launches_of (TLaunch tok i q) = (if i = [] then [] else [i])"
| "launches_of _ = []"

definition launches :: "task list \<Rightarrow> string list" where
  "launches ts = concat (map launches_of ts)"

lemma launches_simps [simp]:
  "launches [] = []" "launches (t # ts) = launches_of t @ launches ts" "launches (ts @ us) = launches ts @ launches us"
  by (simp_all add: launches_def)

text \<open>The messages that have been handed to the agent, or are about to be.\<close>

definition marked :: "job_sys \<Rightarrow> string list" where
  "marked s = js_started s @ launches (js_tasks s)"

definition copy_ok :: "string set \<Rightarrow> string list \<Rightarrow> job \<Rightarrow> bool" where
  "copy_ok ms acked c \<longleftrightarrow> q_ok c \<and> (\<forall>i \<in> ms. spent c i) \<and> (\<forall>i \<in> set acked. known c i)
     \<and> (\<forall>y \<in> ms. \<forall>x. subseq [x, y] acked \<longrightarrow> spent c x)"

definition pending :: "saving option \<Rightarrow> string list" where
  "pending sv = (case sv of
     Some v \<Rightarrow> (case sv_after v of AfterQueue p (Some i) \<Rightarrow> [i] | _ \<Rightarrow> [])
   | None \<Rightarrow> [])"

definition launch_ok :: "string list \<Rightarrow> job \<Rightarrow> job option \<Rightarrow> string \<Rightarrow> bool" where
  "launch_ok acked p mem i \<longleftrightarrow> \<not> spent p i
     \<and> (\<forall>j. mem = Some j \<longrightarrow> spent j i \<and> (\<forall>x. subseq [x, i] acked \<longrightarrow> spent j x))"

definition saving_ok :: "string set \<Rightarrow> string list \<Rightarrow> job option \<Rightarrow> saving \<Rightarrow> bool" where
  "saving_ok ms acked mem v \<longleftrightarrow> launches (sv_else v) = [] \<and> (case sv_after v of
     AfterQueue p ack \<Rightarrow> launches (sv_then v) = [] \<and> copy_ok ms acked p \<and> subseq (waiting_ids p) acked
       \<and> (\<forall>i. ack = Some i \<longrightarrow> \<not> known p i \<and> (\<forall>j. mem = Some j \<longrightarrow> known j i))
   | AfterSend p tok prior \<Rightarrow> copy_ok ms acked p \<and> subseq (waiting_ids p) acked \<and> distinct (launches (sv_then v))
       \<and> (\<forall>i \<in> set (launches (sv_then v)). launch_ok acked p mem i)
   | AfterTerminal \<Rightarrow> launches (sv_then v) = [])"

definition state_ok :: "string set \<Rightarrow> string list \<Rightarrow> job option \<Rightarrow> job option \<Rightarrow> saving option \<Rightarrow> bool" where
  "state_ok ms acked mem disk sv \<longleftrightarrow> (\<forall>j. mem = Some j \<longrightarrow> copy_ok ms acked j \<and> subseq (waiting_ids j) (acked @ pending sv))
     \<and> (\<forall>j. disk = Some j \<longrightarrow> copy_ok ms acked j \<and> subseq (waiting_ids j) acked)
     \<and> (\<forall>v. sv = Some v \<longrightarrow> saving_ok ms acked mem v)"

definition sys_ok :: "job_sys \<Rightarrow> bool" where
  "sys_ok s \<longleftrightarrow> distinct (marked s) \<and> distinct (js_acked s)
     \<and> state_ok (set (marked s)) (js_acked s) (js_job s) (js_disk s) (js_saving s)"

lemma marked_fields [simp]:
  "marked (s\<lparr>js_job := a\<rparr>) = marked s" "marked (s\<lparr>js_disk := a\<rparr>) = marked s" "marked (s\<lparr>js_prior := b\<rparr>) = marked s"
  "marked (s\<lparr>js_dispatcher := c\<rparr>) = marked s" "marked (s\<lparr>js_dispatching := c\<rparr>) = marked s" "marked (s\<lparr>js_stopping := c\<rparr>) = marked s"
  "marked (s\<lparr>js_dones := d\<rparr>) = marked s" "marked (s\<lparr>js_cancels := d\<rparr>) = marked s" "marked (s\<lparr>js_cancelled := e\<rparr>) = marked s"
  "marked (s\<lparr>js_next := f\<rparr>) = marked s" "marked (s\<lparr>js_saving := g\<rparr>) = marked s" "marked (s\<lparr>js_acked := h\<rparr>) = marked s"
  by (simp_all add: marked_def)

lemma sys_ok_fields [simp]:
  "sys_ok (s\<lparr>js_prior := b\<rparr>) = sys_ok s"
  "sys_ok (s\<lparr>js_dispatcher := c\<rparr>) = sys_ok s" "sys_ok (s\<lparr>js_dispatching := c\<rparr>) = sys_ok s" "sys_ok (s\<lparr>js_stopping := c\<rparr>) = sys_ok s"
  "sys_ok (s\<lparr>js_dones := d\<rparr>) = sys_ok s" "sys_ok (s\<lparr>js_cancels := d\<rparr>) = sys_ok s" "sys_ok (s\<lparr>js_cancelled := e\<rparr>) = sys_ok s"
  "sys_ok (s\<lparr>js_next := f\<rparr>) = sys_ok s"
  by (simp_all add: sys_ok_def)

lemma sys_ok_add_tasks [simp]: "launches ts = [] \<Longrightarrow> sys_ok (add_tasks ts s) = sys_ok s"
  by (simp add: sys_ok_def add_tasks_def marked_def)

lemma sys_ok_clear_run [simp]: "sys_ok (clear_run tok s) = sys_ok s"
  by (simp add: clear_run_def)

lemma sys_ok_finished [simp]: "sys_ok (s\<lparr>js_job := map_option (\<lambda>j. j\<lparr>jb_finished_at := t\<rparr>) (js_job s)\<rparr>) = sys_ok s"
proof -
  have "state_ok ms acked (map_option (\<lambda>j. j\<lparr>jb_finished_at := t\<rparr>) mem) disk sv = state_ok ms acked mem disk sv" for ms acked mem disk sv
    by (cases mem) (auto simp: state_ok_def copy_ok_def saving_ok_def launch_ok_def split: after_save.split)
  then show ?thesis by (simp add: sys_ok_def)
qed

lemma copy_evolves: "copy_ok ms acked j \<Longrightarrow> evolves j k \<Longrightarrow> copy_ok ms acked k"
  by (auto simp: copy_ok_def evolves_def)

lemma evolves_waiting: "evolves j k \<Longrightarrow> subseq (waiting_ids j) xs \<Longrightarrow> subseq (waiting_ids k) xs"
  by (auto simp: evolves_def intro: subseq_order.trans)

lemma idle_mem:
  assumes "sys_ok s" "js_saving s = None" "js_job s = Some j"
  shows "copy_ok (set (marked s)) (js_acked s) j" "subseq (waiting_ids j) (js_acked s)" "q_ok j"
  using assms by (simp_all add: sys_ok_def state_ok_def pending_def copy_ok_def)

text \<open>A change that is saved for itself, and one at the end of a run.\<close>

lemma save_later_ok:
  assumes "sys_ok s" "js_saving s = None" "js_job s = Some j" "evolves j k" "launches ok = []" "launches failed = []"
    and "cont = AfterQueue j None \<or> cont = AfterTerminal"
  shows "sys_ok (save_later k cont ok failed s)"
proof -
  note mem = idle_mem [OF assms(1-3)]
  have "copy_ok (set (marked s)) (js_acked s) k" "subseq (waiting_ids k) (js_acked s)"
    using copy_evolves [OF mem(1) assms(4)] evolves_waiting [OF assms(4) mem(2)] by simp_all
  then show ?thesis using assms mem(1,2)
    by (auto simp: sys_ok_def save_later_def state_ok_def pending_def saving_ok_def)
qed

subsection \<open>Orders\<close>

lemma subseq_single [simp]: "subseq [x] xs \<longleftrightarrow> x \<in> set xs"
  by (induction xs) auto

lemma subseq_pair_set: "subseq [x, y] xs \<Longrightarrow> x \<in> set xs \<and> y \<in> set xs"
  by (induction xs) (auto split: if_splits)

lemma pair_not_both: "distinct xs \<Longrightarrow> subseq [x, y] xs \<Longrightarrow> subseq [y, x] xs \<Longrightarrow> False"
proof (induction xs)
  case (Cons a xs)
  then show ?case by (auto split: if_splits dest: subseq_pair_set)
qed simp

lemma pair_of_snoc: "y \<noteq> i \<Longrightarrow> subseq [x, y] (xs @ [i]) \<Longrightarrow> subseq [x, y] xs"
proof (induction xs)
  case Nil then show ?case by (cases "x = i") simp_all
next
  case (Cons a xs) then show ?case by (auto split: if_splits)
qed

lemma head_is_first:
  assumes "distinct xs" "subseq (y # ws) xs" "subseq [x, y] xs" shows "x \<notin> set ws"
proof
  assume "x \<in> set ws"
  then have "subseq [y, x] (y # ws)" by simp
  then have "subseq [y, x] xs" using assms(2) by (rule subseq_order.trans)
  with assms show False using pair_not_both by fast
qed

lemma notin_subseq_snoc: "subseq xs (ys @ [i]) \<Longrightarrow> i \<notin> set xs \<Longrightarrow> subseq xs ys"
proof (induction ys arbitrary: xs)
  case Nil then show ?case by (cases xs) (auto split: if_splits)
next
  case (Cons y ys) then show ?case by (cases xs) (auto split: if_splits)
qed

subsection \<open>Submitting and starting\<close>

lemma submit_message_ok:
  assumes "sys_ok s" "js_saving s = None" shows "sys_ok (snd (submit_message env i p s))"
proof (cases "snd (submit_message env i p s) = s")
  case False
  then obtain j where j: "js_job s = Some j" "aget (jb_receipts j) i = None" and res: "snd (submit_message env i p s) =
      (let m = \<lparr> qm_id = i, qm_payload = p, qm_state = QmQueued, qm_error = [], qm_created_at = je_now env, qm_updated_at = je_now env \<rparr>;
           r = \<lparr> cr_state = MsgQueued, cr_hash = je_hash env p, cr_accepted_at = je_now env, cr_finished_at = 0 \<rparr>
       in save_later (new_version (j\<lparr>jb_queue := jb_queue j @ [m], jb_receipts := aput i r (jb_receipts j)\<rparr>)) (AfterQueue j (Some i)) [TRequest] [] s)"
    by (auto simp: submit_message_def Let_def split: option.splits if_splits)
  note mem = idle_mem [OF assms j(1)]
  have new: "\<not> known j i" using j(2) by (simp add: known_def)
  let ?j = "j\<lparr>jb_queue := jb_queue j @ [\<lparr> qm_id = i, qm_payload = p, qm_state = QmQueued, qm_error = [], qm_created_at = je_now env, qm_updated_at = je_now env \<rparr>],
      jb_receipts := aput i \<lparr> cr_state = MsgQueued, cr_hash = je_hash env p, cr_accepted_at = je_now env, cr_finished_at = 0 \<rparr> (jb_receipts j)\<rparr>"
  note sub = submitted [OF mem(3) new, of "\<lparr> qm_id = i, qm_payload = p, qm_state = QmQueued, qm_error = [], qm_created_at = je_now env, qm_updated_at = je_now env \<rparr>"
      "\<lparr> cr_state = MsgQueued, cr_hash = je_hash env p, cr_accepted_at = je_now env, cr_finished_at = 0 \<rparr>", simplified]
  have "copy_ok (set (marked s)) (js_acked s) (new_version ?j)" using mem(1) sub by (auto simp: copy_ok_def)
  moreover have "subseq (waiting_ids (new_version ?j)) (js_acked s @ [i])" using mem(2) sub by simp
  ultimately show ?thesis using assms j mem new sub(4)
    by (auto simp: res Let_def sys_ok_def save_later_def state_ok_def pending_def saving_ok_def)
qed (simp add: assms)

text \<open>A run that is started from the queue starts the message that was accepted first.\<close>

lemma earlier_spent:
  assumes "copy_ok ms acked j" "subseq (waiting_ids j) acked" "distinct acked" "first_waiting_queue_index (jb_queue j) = Some n"
    and "subseq [x, qm_id (jb_queue j ! n)] acked"
  shows "spent j x"
proof -
  obtain a m b where q: "jb_queue j = a @ m # b" "length a = n" "qm_state m \<noteq> QmProcessing" "\<forall>x \<in> set a. qm_state x = QmProcessing"
    using first_waiting_split [OF assms(4)] by blast
  define ws where "ws = map qm_id (filter (\<lambda>m. qm_state m \<noteq> QmProcessing) b)"
  have m: "jb_queue j ! n = m" and w: "waiting_ids j = qm_id m # ws" using q by (auto simp: waiting_ids_def ws_def)
  have x: "subseq [x, qm_id m] acked" using assms(5) by (simp add: m)
  then have "x \<notin> set ws" using head_is_first [OF assms(3)] assms(2) by (simp add: w)
  moreover have "x \<noteq> qm_id m" using x assms(3) pair_not_both by fast
  moreover have "known j x" using assms(1) subseq_pair_set [OF x] by (simp add: copy_ok_def)
  ultimately show ?thesis using assms(1) by (auto simp: copy_ok_def q_ok_def w)
qed

lemma launch_started_ok:
  assumes "sys_ok s" "js_saving s = None" "js_job s = Some j" "evolves j k"
    and "i \<noteq> [] \<Longrightarrow> \<not> spent j i \<and> spent k i \<and> (\<forall>x. subseq [x, i] (js_acked s) \<longrightarrow> spent k x)"
  shows "sys_ok (launch env q i j k s)"
proof -
  note mem = idle_mem [OF assms(1-3)]
  have "copy_ok (set (marked s)) (js_acked s) k" "subseq (waiting_ids k) (js_acked s)"
    using copy_evolves [OF mem(1) assms(4)] evolves_waiting [OF assms(4) mem(2)] by simp_all
  then show ?thesis using assms mem
    by (auto simp: launch_def Let_def sys_ok_def save_later_def state_ok_def pending_def saving_ok_def launch_ok_def)
qed

lemma send_message_ok:
  assumes "sys_ok s" "js_saving s = None" shows "sys_ok (snd (send_message env q i p s))"
proof (cases "js_job s")
  case (Some j)
  note mem = idle_mem [OF assms Some]
  have acked: "distinct (js_acked s)" using assms(1) by (simp add: sys_ok_def)
  have direct: "sys_ok (launch env q i j (start_run_job env i p j) s)" if "i = [] \<or> aget (jb_receipts j) i = None"
  proof (rule launch_started_ok [OF assms Some])
    have new: "i = [] \<or> \<not> known j i" using that by (auto simp: known_def)
    then show "evolves j (start_run_job env i p j)" using start_evolves [OF mem(3)] by auto
    assume "i \<noteq> []"
    then show "\<not> spent j i \<and> spent (start_run_job env i p j) i \<and> (\<forall>x. subseq [x, i] (js_acked s) \<longrightarrow> spent (start_run_job env i p j) x)"
    proof -
      have fresh: "\<not> known j i" using new \<open>i \<noteq> []\<close> by simp
      then have "\<not> spent j i" using spent_known by blast
      moreover have "i \<notin> set (js_acked s)" using fresh mem(1) by (auto simp: copy_ok_def)
      then have "\<not> subseq [x, i] (js_acked s)" for x using subseq_pair_set by fast
      moreover have "spent (start_run_job env i p j) i" using start_evolves [OF mem(3), of i env p] new \<open>i \<noteq> []\<close> by simp
      ultimately show ?thesis by simp
    qed
  qed
  have queued: "sys_ok (launch env q i j (start_run_job env i p (claim_head env n j)) s)"
    if "aget (jb_receipts j) i = Some r" "cr_state r = MsgQueued" "first_waiting_queue_index (jb_queue j) = Some n" "qm_id (jb_queue j ! n) = i" "i \<noteq> []" for r n
  proof (rule launch_started_ok [OF assms Some])
    note claim = claim_evolves [OF mem(3) that(1,3,4,5), of env p]
    then show "evolves j (start_run_job env i p (claim_head env n j))" by simp
    have "spent j x" if "subseq [x, i] (js_acked s)" for x
      using earlier_spent [OF mem(1,2) acked \<open>first_waiting_queue_index (jb_queue j) = Some n\<close>] that \<open>qm_id (jb_queue j ! n) = i\<close> by simp
    moreover have "\<not> spent j i" using that(1,2) by (simp add: spent_def)
    ultimately show "\<not> spent j i \<and> spent (start_run_job env i p (claim_head env n j)) i
        \<and> (\<forall>x. subseq [x, i] (js_acked s) \<longrightarrow> spent (start_run_job env i p (claim_head env n j)) x)"
      using claim by (simp add: evolves_def)
  qed
  show ?thesis
  proof (cases "if i = [] then None else aget (jb_receipts j) i")
    case None
    then have direct_id: "i = [] \<or> aget (jb_receipts j) i = None" by (auto split: if_splits)
    show ?thesis using direct [OF direct_id] direct_id assms(1) by (cases "i = []") (simp_all add: send_message_def Let_def Some)
  next
    case found: (Some r)
    then have i: "i \<noteq> []" "aget (jb_receipts j) i = Some r" by (auto split: if_splits)
    show ?thesis
    proof (cases "first_waiting_queue_index (jb_queue j)")
      case None then show ?thesis using assms(1) \<open>js_job s = Some j\<close> by (simp add: send_message_def Let_def i)
    next
      case (Some n)
      then show ?thesis using queued [OF i(2) _ Some _ i(1)] assms(1) \<open>js_job s = Some j\<close>
        by (simp add: send_message_def Let_def i)
    qed
  qed
qed (simp add: send_message_def assms)

subsection \<open>The outcome of a write\<close>

lemma marked_add_tasks [simp]: "marked (add_tasks ts s) = marked s @ launches ts"
  by (simp add: marked_def add_tasks_def)

lemma add_tasks_fields [simp]:
  "js_job (add_tasks ts s) = js_job s" "js_disk (add_tasks ts s) = js_disk s" "js_saving (add_tasks ts s) = js_saving s"
  "js_acked (add_tasks ts s) = js_acked s" "js_started (add_tasks ts s) = js_started s"
  "js_dispatching (add_tasks ts s) = js_dispatching s" "js_dones (add_tasks ts s) = js_dones s" "js_dispatcher (add_tasks ts s) = js_dispatcher s"
  "js_stopping (add_tasks ts s) = js_stopping s"
  by (simp_all add: add_tasks_def)

lemma prior_noted [simp]:
  fixes s :: job_sys
  defines "n \<equiv> \<lambda>prior s. (case js_job s of
      Some j \<Rightarrow> if jb_mode j = ModeGraph \<or> should_preserve_prior_status prior then s\<lparr>js_prior := Some prior\<rparr> else s
    | None \<Rightarrow> s)"
  shows "sys_ok (n prior s) = sys_ok s"
  by (simp add: n_def split: option.split)

lemma saved_ok:
  assumes "sys_ok s" "js_saving s = Some v" "js_job s = Some j" "sv_after v \<noteq> AfterTerminal \<longrightarrow> (\<exists>p. sv_after v = AfterQueue p None)"
  shows "sys_ok (add_tasks (sv_then v) (s\<lparr>js_disk := Some j, js_saving := None\<rparr>))"
proof -
  have "launches (sv_then v) = []" "pending (Some v) = []"
    using assms by (auto simp: sys_ok_def state_ok_def saving_ok_def pending_def split: after_save.splits)
  then show ?thesis using assms(1-3) by (simp add: sys_ok_def state_ok_def pending_def)
qed

lemma accepted_ok:
  assumes "sys_ok s" "js_saving s = Some v" "js_job s = Some j" "sv_after v = AfterQueue p (Some i)"
  shows "sys_ok (add_tasks (sv_then v) (s\<lparr>js_disk := Some j, js_saving := None, js_acked := js_acked s @ [i]\<rparr>))"
proof -
  let ?ms = "set (marked s)" and ?acked = "js_acked s"
  have st: "launches (sv_then v) = []" "copy_ok ?ms ?acked p" "\<not> known p i" "known j i" "copy_ok ?ms ?acked j"
      "subseq (waiting_ids j) (?acked @ [i])" "distinct (marked s)" "distinct ?acked"
    using assms by (simp_all add: sys_ok_def state_ok_def saving_ok_def pending_def)
  have new: "i \<notin> ?ms" "i \<notin> set ?acked" using st(2,3) spent_known by (auto simp: copy_ok_def)
  have "spent j x" if "y \<in> ?ms" "subseq [x, y] (?acked @ [i])" for x y
    using pair_of_snoc [OF _ that(2)] that(1) new(1) st(5) by (auto simp: copy_ok_def)
  then have "copy_ok ?ms (?acked @ [i]) j" using st(4,5) by (auto simp: copy_ok_def)
  then show ?thesis using st new by (simp add: sys_ok_def state_ok_def pending_def assms(3))
qed

lemma launched_ok:
  assumes "sys_ok s" "js_saving s = Some v" "js_job s = Some j" "sv_after v = AfterSend p tok prior"
  shows "sys_ok (add_tasks (sv_then v) (s\<lparr>js_disk := Some j, js_saving := None\<rparr>))"
proof -
  let ?ms = "set (marked s)" and ?acked = "js_acked s" and ?l = "launches (sv_then v)"
  have st: "copy_ok ?ms ?acked p" "distinct ?l" "\<forall>i \<in> set ?l. launch_ok ?acked p (Some j) i" "copy_ok ?ms ?acked j"
      "subseq (waiting_ids j) ?acked" "distinct (marked s)" "distinct ?acked"
    using assms by (simp_all add: sys_ok_def state_ok_def saving_ok_def pending_def)
  have "set ?l \<inter> ?ms = {}" using st(1,3) by (auto simp: copy_ok_def launch_ok_def)
  then have "distinct (marked s @ ?l)" using st(2,6) by auto
  moreover have "copy_ok (?ms \<union> set ?l) ?acked j" using st(3,4) by (auto simp: copy_ok_def launch_ok_def)
  ultimately show ?thesis using st by (simp add: sys_ok_def state_ok_def pending_def assms(3))
qed

lemma save_succeeds_ok:
  assumes "sys_ok s" "js_saving s = Some v" "js_job s = Some j"
  shows "sys_ok (save_succeeds v s)"
proof (cases "sv_after v")
  case (AfterQueue p ack)
  then show ?thesis using saved_ok [OF assms] accepted_ok [OF assms]
    by (cases ack) (auto simp: save_succeeds_def Let_def assms(3))
next
  case (AfterSend p tok prior)
  have "sys_ok (add_tasks ts (s\<lparr>js_prior := b\<rparr>)) = sys_ok (add_tasks ts s)" for ts s b
    by (simp add: sys_ok_def)
  then show ?thesis using launched_ok [OF assms AfterSend]
    by (simp add: save_succeeds_def Let_def AfterSend assms(3))
next
  case AfterTerminal
  then show ?thesis using saved_ok [OF assms] by (simp add: save_succeeds_def Let_def assms(3))
qed

lemma save_fails_ok:
  assumes "sys_ok s" "js_saving s = Some v" shows "sys_ok (save_fails again v s)"
proof (cases "sv_after v")
  case (AfterQueue p ack)
  have "launches (sv_else v) = []" "copy_ok (set (marked s)) (js_acked s) p" "subseq (waiting_ids p) (js_acked s)"
    using assms AfterQueue by (simp_all add: sys_ok_def state_ok_def saving_ok_def)
  then show ?thesis using assms AfterQueue
    by (auto simp: save_fails_def sys_ok_def state_ok_def pending_def copy_ok_def restore_queue)
next
  case (AfterSend p tok prior)
  have "launches (sv_else v) = []" "copy_ok (set (marked s)) (js_acked s) p" "subseq (waiting_ids p) (js_acked s)"
    using assms AfterSend by (simp_all add: sys_ok_def state_ok_def saving_ok_def)
  then show ?thesis using assms AfterSend
    by (simp add: save_fails_def) (auto simp: sys_ok_def state_ok_def pending_def copy_ok_def restore_run)
next
  case AfterTerminal
  then have tasks: "launches (sv_then v) = []" "pending (Some v) = []"
    using assms by (auto simp: sys_ok_def state_ok_def saving_ok_def pending_def)
  have fields: "copy_ok ms acked (j\<lparr>jb_last_error := e\<rparr>) = copy_ok ms acked j" for ms acked j e
    by (simp add: copy_ok_def)
  show ?thesis
  proof (cases "js_job s")
    case None then show ?thesis using assms AfterTerminal tasks by (simp add: save_fails_def sys_ok_def state_ok_def pending_def)
  next
    case (Some j)
    then show ?thesis using assms AfterTerminal tasks
      by (simp add: save_fails_def Let_def sys_ok_def state_ok_def pending_def fields)
  qed
qed

lemma finish_save_ok: "sys_ok s \<Longrightarrow> sys_ok (finish_save ok again s)"
  by (auto simp: finish_save_def save_fails_ok save_succeeds_ok split: option.split)

subsection \<open>Every operation\<close>

lemma delete_queued_message_ok:
  assumes "sys_ok s" "js_saving s = None" shows "sys_ok (snd (delete_queued_message env i s))"
proof (cases "js_job s")
  case (Some j)
  show ?thesis
  proof (cases "first_index (\<lambda>m. qm_id m = i) (jb_queue j)")
    case None
    then show ?thesis using assms by (simp add: delete_queued_message_def Some split: option.split)
  next
    case found: (Some n)
    define r where "r = (case aget (jb_receipts j) i of
        Some r \<Rightarrow> r | None \<Rightarrow> \<lparr> cr_state = MsgDeleted, cr_hash = [], cr_accepted_at = 0, cr_finished_at = 0 \<rparr>)
      \<lparr>cr_state := MsgDeleted, cr_finished_at := je_now env\<rparr>"
    define k where "k = new_version (j\<lparr>jb_queue := remove_at n (jb_queue j), jb_receipts := aput i r (jb_receipts j)\<rparr>)"
    have "evolves j k" unfolding k_def by (rule delete_evolves [OF idle_mem(3) [OF assms Some] found]) (simp add: r_def)
    then have "sys_ok (save_later (k\<lparr>jb_paused := b, jb_pause_reason := c\<rparr>) (AfterQueue j None) ts [] s)" "sys_ok (save_later k (AfterQueue j None) ts [] s)"
      if "launches ts = []" for b c ts
      using save_later_ok [OF assms Some] that by simp_all
    then show ?thesis using assms by (simp add: delete_queued_message_def Some found r_def [symmetric] k_def [symmetric] Let_def)
  qed
qed (use assms in \<open>simp add: delete_queued_message_def\<close>)

lemma continue_ok: "sys_ok s \<Longrightarrow> js_saving s = None \<Longrightarrow> sys_ok (snd (continue_message_queue s))"
  using idle_mem(3) [of s]
  by (auto simp: continue_message_queue_def intro!: save_later_ok evolves_refl split: option.split)

lemma pause_ok: "sys_ok s \<Longrightarrow> js_saving s = None \<Longrightarrow> sys_ok (snd (pause_message_queue_for_stop s))"
  using idle_mem(3) [of s]
  by (auto simp: pause_message_queue_for_stop_def intro!: save_later_ok evolves_refl split: option.split)

lemma clear_pause_ok:
  "sys_ok s \<Longrightarrow> js_saving s = None \<Longrightarrow> launches ts = [] \<Longrightarrow> sys_ok (clear_empty_message_queue_pause ts s)"
  using idle_mem(3) [of s]
  by (auto simp: clear_empty_message_queue_pause_def intro!: save_later_ok evolves_refl split: option.split)

lemma request_ok: "sys_ok (request_message_queue_dispatch s) = sys_ok s"
  by (simp add: request_message_queue_dispatch_def)

lemma block_ok: "sys_ok s \<Longrightarrow> js_saving s = None \<Longrightarrow> sys_ok (block_message_queue_head env i cause s)"
  using idle_mem(3) [of s]
  by (auto simp: block_message_queue_head_def Let_def intro!: save_later_ok block_evolves split: option.split)

lemma complete_item_ok: "sys_ok s \<Longrightarrow> js_saving s = None \<Longrightarrow> sys_ok (complete_claimed_queue_item i s)"
  using idle_mem(3) [of s]
  by (auto simp: complete_claimed_queue_item_def intro!: save_later_ok complete_evolves split: option.split)

lemma terminal_ok:
  assumes "sys_ok s" "js_saving s = None" "launches follow = []"
  shows "sys_ok (terminal_job env outcome message follow s)"
proof (cases "js_job s")
  case (Some j)
  define k where "k = (let j = apply_terminal_status (js_prior s) (outcome_status outcome) j in if message \<noteq> [] then j\<lparr>jb_last_error := message\<rparr> else j)"
  have k: "evolves j k" using idle_mem(3) [OF assms(1,2) Some] by (simp add: k_def Let_def terminal_status_evolves evolves_refl)
  have ev: "evolves j (capture_terminal_snapshot outcome (je_now env) k)"
    using evolves_trans [OF k capture_evolves [OF evolves_q_ok [OF k]]] .
  have "sys_ok (save_later (capture_terminal_snapshot outcome (je_now env) k) AfterTerminal follow follow (s\<lparr>js_prior := None\<rparr>))"
    by (rule save_later_ok [where j = j]) (use assms Some ev in simp_all)
  then show ?thesis by (simp add: terminal_job_def Some k_def Let_def)
qed (use assms in \<open>simp add: terminal_job_def\<close>)

lemma restart_ok:
  assumes "sys_ok s" shows "sys_ok (restart env ok s)"
proof -
  have keep: "distinct (js_started s)" "set (js_started s) \<subseteq> set (marked s)" using assms by (auto simp: sys_ok_def marked_def)
  have fewer: "copy_ok (set (marked s)) acked j \<Longrightarrow> copy_ok (set (js_started s)) acked j" for acked j
    using keep(2) by (auto simp: copy_ok_def)
  have ev: "evolves j (reconcile_loaded_job env j)" if "js_disk s = Some j" for j
    using assms that by (intro reconcile_evolves) (simp add: sys_ok_def state_ok_def copy_ok_def)
  have disk: "copy_ok (set (js_started s)) (js_acked s) j" "subseq (waiting_ids j) (js_acked s)" if "js_disk s = Some j" for j
    using assms that fewer by (simp_all add: sys_ok_def state_ok_def)
  have new: "copy_ok (set (js_started s)) (js_acked s) (reconcile_loaded_job env j)" "subseq (waiting_ids (reconcile_loaded_job env j)) (js_acked s)"
    if "js_disk s = Some j" for j
    using copy_evolves [OF disk(1) ev] evolves_waiting [OF ev disk(2)] that by simp_all
  show ?thesis
  proof (cases "js_disk s")
    case None then show ?thesis using assms keep(1) by (simp add: restart_def Let_def sys_ok_def state_ok_def marked_def pending_def)
  next
    case (Some j)
    then show ?thesis using assms keep(1) disk [OF Some] new [OF Some]
      by (simp add: restart_def Let_def sys_ok_def state_ok_def marked_def pending_def)
  qed
qed

lemma set_dispatcher_ok:
  assumes "sys_ok s" "js_saving s = None" shows "sys_ok (set_message_queue_dispatcher env s)"
proof (cases "js_job s")
  case (Some j)
  show ?thesis
  proof (cases "jb_queue j")
    case (Cons m rest)
    have "sys_ok (save_later (interrupt_head env m rest j) (AfterQueue j None) [TStartup] [TStartup] (s\<lparr>js_dispatcher := True\<rparr>))"
      if "qm_state m = QmProcessing"
      by (rule save_later_ok [where j = j]) (use assms Some that interrupt_evolves [OF idle_mem(3) [OF assms Some] Cons that] in simp_all)
    then show ?thesis using assms by (simp add: set_message_queue_dispatcher_def Some Cons Let_def)
  qed (use assms in \<open>simp add: set_message_queue_dispatcher_def Some Let_def\<close>)
qed (use assms in \<open>simp add: set_message_queue_dispatcher_def Let_def\<close>)

lemma both_copies:
  assumes "sys_ok s" "js_saving s = None" "js_job s = Some j" "evolves j k"
  shows "sys_ok (s\<lparr>js_disk := Some k, js_job := Some k\<rparr>)"
proof -
  note mem = idle_mem [OF assms(1-3)]
  have "copy_ok (set (marked s)) (js_acked s) k" "subseq (waiting_ids k) (js_acked s)"
    using copy_evolves [OF mem(1) assms(4)] evolves_waiting [OF assms(4) mem(2)] by simp_all
  then show ?thesis using assms(1,2) by (simp add: sys_ok_def state_ok_def pending_def)
qed

lemma mark_deleted_ok: "sys_ok s \<Longrightarrow> js_saving s = None \<Longrightarrow> sys_ok (mark_deleted ok s)"
  using idle_mem(3) [of s] by (auto simp: mark_deleted_def intro!: both_copies evolves_refl split: option.split)

lemma delete_job_ok: "sys_ok s \<Longrightarrow> js_saving s = None \<Longrightarrow> sys_ok (delete_job ok s)"
  by (auto simp: delete_job_def sys_ok_def state_ok_def split: option.split)

lemma execute_command_ok: "sys_ok s \<Longrightarrow> js_saving s = None \<Longrightarrow> sys_ok (snd (execute_command env i p ok s))"
  using idle_mem(3) [of s]
  by (auto simp: execute_command_def Let_def intro!: both_copies evolves_refl split: option.split)

lemma stop_ok: "sys_ok (stop_job s) = sys_ok s" "sys_ok (stop_all s) = sys_ok s"
  by (simp_all add: stop_job_def stop_all_def Let_def split: option.split)

subsection \<open>Every step of a goroutine\<close>

lemma fewer_tasks_ok:
  assumes "sys_ok s" "js_tasks s = a @ t # b" shows "sys_ok (s\<lparr>js_tasks := a @ b\<rparr>)"
proof -
  let ?s = "s\<lparr>js_tasks := a @ b\<rparr>"
  have sub: "set (marked ?s) \<subseteq> set (marked s)" using assms(2) by (auto simp: marked_def)
  have "distinct (marked ?s)" using assms by (auto simp: sys_ok_def marked_def)
  moreover have "copy_ok (set (marked s)) acked j \<Longrightarrow> copy_ok (set (marked ?s)) acked j" for acked j
    using sub by (auto simp: copy_ok_def)
  then have "state_ok (set (marked s)) acked mem disk sv \<Longrightarrow> state_ok (set (marked ?s)) acked mem disk sv" for acked mem disk sv
    by (auto simp: state_ok_def saving_ok_def split: after_save.splits)
  ultimately show ?thesis using assms(1) by (simp add: sys_ok_def)
qed

lemma launch_step_ok:
  assumes "sys_ok s" "js_tasks s = a @ TLaunch tok i q # b"
  shows "sys_ok (exec_task env inp (TLaunch tok i q) (s\<lparr>js_tasks := a @ b\<rparr>))"
proof -
  let ?s = "exec_task env inp (TLaunch tok i q) (s\<lparr>js_tasks := a @ b\<rparr>)"
  have "set (marked ?s) = set (marked s)" "distinct (marked ?s) = distinct (marked s)"
    using assms(2) by (auto simp: exec_task_def marked_def add_tasks_def)
  moreover have "js_job ?s = js_job s" "js_disk ?s = js_disk s" "js_saving ?s = js_saving s" "js_acked ?s = js_acked s"
    by (simp_all add: exec_task_def)
  ultimately show ?thesis using assms(1) by (simp add: sys_ok_def)
qed

lemma exec_task_ok:
  assumes "sys_ok s" "needs_lock t \<longrightarrow> js_saving s = None" "launches_of t = []"
  shows "sys_ok (exec_task env inp t s)"
proof (cases t)
  case TRequest then show ?thesis using assms by (simp add: exec_task_def request_ok)
next
  case TDispatch then show ?thesis using assms by (simp add: exec_task_def split: option.split)
next
  case (TCheckDone m) then show ?thesis using assms by (simp add: exec_task_def)
next
  case (TPrepare m) then show ?thesis using assms by (simp add: exec_task_def split: task_input.split sum.split)
next
  case (TSend i p)
  then have "sys_ok (snd (send_message env True i p s))" using assms by (intro send_message_ok) simp_all
  then show ?thesis using assms TSend
    by (cases "send_message env True i p s") (auto simp: exec_task_def split: sum.split disposition.split)
next
  case (TBlock i c) then show ?thesis using assms by (simp add: exec_task_def block_ok)
next
  case TUnflag then show ?thesis using assms by (simp add: exec_task_def)
next
  case TFinish then show ?thesis using assms by (simp add: exec_task_def)
next
  case TRecheck then show ?thesis using assms by (simp add: exec_task_def)
next
  case TRecheckDone then show ?thesis using assms by (simp add: exec_task_def)
next
  case TStartup then show ?thesis using assms by (simp add: exec_task_def split: option.split)
next
  case (TLaunch tok i q) then show ?thesis using assms by (cases "i = []") (simp_all add: exec_task_def)
next
  case (TRun tok i q)
  have "sys_ok (run_returns env ret tok i q s)" for ret
    using assms(1) by (cases ret) (simp_all add: run_returns_def)
  then show ?thesis using assms TRun by (simp add: exec_task_def split: task_input.split)
next
  case (TFail tok i q m) then show ?thesis using assms by (simp add: exec_task_def terminal_ok)
next
  case (TLand tok i q) then show ?thesis using assms by (simp add: exec_task_def land_def split: option.split)
next
  case (TTerminal out tok i q) then show ?thesis using assms by (simp add: exec_task_def terminal_ok)
next
  case (TCleanup tok i q) then show ?thesis using assms by (simp add: exec_task_def)
next
  case (TComplete i) then show ?thesis using assms by (simp add: exec_task_def complete_item_ok)
next
  case (TClear q) then show ?thesis using assms by (simp add: exec_task_def clear_pause_ok)
qed

lemma step_task_ok:
  assumes "sys_ok s" shows "sys_ok (step_task env n inp s)"
proof (cases "n < length (js_tasks s) \<and> \<not> (needs_lock (js_tasks s ! n) \<and> js_saving s \<noteq> None)")
  case True
  define a t b where "a = take n (js_tasks s)" and "t = js_tasks s ! n" and "b = drop (Suc n) (js_tasks s)"
  have split: "js_tasks s = a @ t # b" and rest: "remove_at n (js_tasks s) = a @ b"
    using True by (simp_all add: a_def t_def b_def id_take_nth_drop [symmetric] remove_at_def)
  have step: "step_task env n inp s = exec_task env inp t (s\<lparr>js_tasks := a @ b\<rparr>)"
    using True by (auto simp: step_task_def Let_def rest t_def [symmetric])
  show ?thesis
  proof (cases "launches_of t = []")
    case True2: True
    show ?thesis unfolding step
      using True by (intro exec_task_ok fewer_tasks_ok [OF assms split] True2) (simp add: t_def)
  next
    case False
    then obtain tok i q where "t = TLaunch tok i q" by (cases t) auto
    then show ?thesis using launch_step_ok [OF assms] split by (simp add: step)
  qed
qed (use assms in \<open>auto simp: step_task_def Let_def\<close>)

subsection \<open>The machine\<close>

lemma exec_job_ok: "sys_ok s \<Longrightarrow> sys_ok (exec_job (env, op) s)"
proof (cases "op_needs_lock op \<and> js_saving s \<noteq> None")
  case False
  then show "sys_ok s \<Longrightarrow> ?thesis"
    by (cases op) (simp_all add: exec_job_def submit_message_ok send_message_ok delete_queued_message_ok continue_ok pause_ok
        execute_command_ok finish_save_ok step_task_ok stop_ok set_dispatcher_ok mark_deleted_ok delete_job_ok restart_ok)
qed (simp add: exec_job_def)

lemma created_ok: "sys_ok (created mode)"
  by (simp add: created_def Let_def sys_ok_def state_ok_def copy_ok_def marked_def q_ok_def job_facts new_job_def)

definition job_created :: "job_sys \<Rightarrow> bool" where
  "job_created s \<longleftrightarrow> s = created ModeInteractive \<or> s = created ModeGraph"

interpretation queue: guarded_system job_created exec_job sys_ok
  by unfold_locales (auto simp: job_created_def created_ok exec_job_ok)

end
