(* ===== verification/JobProgress.thy ===== *)
theory JobProgress
  imports JobDelivery
begin

section \<open>No message is left ready with nobody to start it\<close>

text \<open>
  A dispatch request is dropped while another dispatcher holds the flag, and a dispatcher gives up while the
  last run is still being cleared. That is sound only because whoever made it give up asks again when it is
  done. The invariant of this theory names that goroutine: the holder of the flag, the run that
  is to be cleared, or any task at all when a message is ready.
\<close>

subsection \<open>Who looks next\<close>

text \<open>The tasks of the goroutine that holds the dispatch flag, and those of a run that has not been cleared.\<close>

fun holds_flag :: "task \<Rightarrow> bool" where
  "holds_flag TDispatch = True"
| "holds_flag (TCheckDone m) = True"
| "holds_flag (TPrepare m) = True"
| "holds_flag (TSend i p) = True"
| "holds_flag (TBlock i c) = True"
| "holds_flag TUnflag = True"
| "holds_flag TFinish = True"
| "holds_flag (TLaunch tok i q) = q"
| "holds_flag (TRun tok i q) = q"
| "holds_flag (TFail tok i q m) = q"
| "holds_flag (TLand tok i q) = q"
| "holds_flag (TTerminal r tok i q) = q"
| "holds_flag (TCleanup tok i q) = q"
| "holds_flag (TComplete i) = True"
| "holds_flag (TClear q) = q"
| "holds_flag _ = False"

fun run_of :: "task \<Rightarrow> nat option" where
  "run_of (TLaunch tok i q) = Some tok"
| "run_of (TRun tok i q) = Some tok"
| "run_of (TFail tok i q m) = Some tok"
| "run_of (TLand tok i q) = Some tok"
| "run_of (TTerminal r tok i q) = Some tok"
| "run_of (TCleanup tok i q) = Some tok"
| "run_of _ = None"

definition coming :: "job_sys \<Rightarrow> task list" where
  "coming s = js_tasks s @ (case js_saving s of Some v \<Rightarrow> sv_then v | None \<Rightarrow> [])"

definition alive :: "job_sys \<Rightarrow> bool" where
  "alive s \<longleftrightarrow> (case js_job s of Some j \<Rightarrow> \<not> jb_deleted j | None \<Rightarrow> False)"

definition message_ready :: "job_sys \<Rightarrow> bool" where
  "message_ready s \<longleftrightarrow> js_dispatcher s \<and> \<not> js_stopping s \<and> Option.bind (js_job s) ready_head \<noteq> None"

definition awake_on :: "task list \<Rightarrow> job_sys \<Rightarrow> bool" where
  "awake_on ts s \<longleftrightarrow> (alive s \<longrightarrow>
       (message_ready s \<longrightarrow> ts @ coming s \<noteq> [])
     \<and> (js_dispatching s \<longrightarrow> (\<exists>t \<in> set (ts @ coming s). holds_flag t))
     \<and> (\<forall>tok. js_dones s = Some tok \<longrightarrow> (\<exists>t \<in> set (ts @ coming s). run_of t = Some tok)))"

abbreviation awake :: "job_sys \<Rightarrow> bool" where
  "awake \<equiv> awake_on []"

text \<open>\<open>ns\<close> carries on what the tasks \<open>ts\<close> were about.\<close>

definition carries :: "task list \<Rightarrow> task list \<Rightarrow> bool" where
  "carries ns ts \<longleftrightarrow> (\<forall>t \<in> set ts. (holds_flag t \<longrightarrow> list_ex holds_flag ns)
     \<and> (run_of t \<noteq> None \<longrightarrow> list_ex (\<lambda>n. run_of n = run_of t) ns))"

lemma carries_Nil [simp]: "carries ns []"
  by (simp add: carries_def)

lemma coming_add [simp]: "set (coming (add_tasks ns s)) = set ns \<union> set (coming s)"
  by (auto simp: coming_def add_tasks_def)

lemma awake_by:
  assumes "awake_on ts s" "alive s' \<longrightarrow> alive s" "set (coming s) \<union> set ns \<subseteq> set (coming s')" "carries ns ts"
    and "ns \<noteq> [] \<or> \<not> message_ready s' \<or> ts = [] \<and> (message_ready s' \<longrightarrow> message_ready s)"
    and "js_dispatching s' \<longrightarrow> js_dispatching s \<or> list_ex holds_flag ns"
    and "\<And>tok. js_dones s' = Some tok \<Longrightarrow> js_dones s = Some tok \<or> list_ex (\<lambda>n. run_of n = Some tok) ns"
  shows "awake s'"
proof -
  have "coming s' \<noteq> []" if "alive s'" "message_ready s'"
    using that assms(1,2,3,5) by (cases "coming s'") (auto simp: awake_on_def)
  moreover have "\<exists>t \<in> set (coming s'). holds_flag t" if "alive s'" "js_dispatching s'"
    using that assms(1,2,3,4,6) by (fastforce simp: awake_on_def carries_def list_ex_iff)
  moreover have "\<exists>t \<in> set (coming s'). run_of t = Some tok" if now: "alive s'" "js_dones s' = Some tok" for tok
  proof (cases "js_dones s = Some tok")
    case True
    then obtain t where t: "t \<in> set (ts @ coming s)" "run_of t = Some tok" using True now assms(1,2) unfolding awake_on_def by blast
    show ?thesis
    proof (cases "t \<in> set ts")
      case True then show ?thesis using t(2) assms(3,4) by (fastforce simp: carries_def list_ex_iff)
    qed (use t assms(3) in auto)
  next
    case False then show ?thesis using assms(7) [OF now(2)] assms(3) by (auto simp: list_ex_iff)
  qed
  ultimately show ?thesis by (simp add: awake_on_def)
qed

lemma alive_simps [simp]:
  "alive (add_tasks ns s) = alive s" "alive (s\<lparr>js_prior := p\<rparr>) = alive s" "alive (s\<lparr>js_dispatching := b\<rparr>) = alive s"
  "alive (s\<lparr>js_started := xs\<rparr>) = alive s" "alive (clear_run tok s) = alive s" "alive (s\<lparr>js_dispatcher := b\<rparr>) = alive s"
  "alive (s\<lparr>js_job := map_option (\<lambda>j. j\<lparr>jb_finished_at := t\<rparr>) (js_job s)\<rparr>) = alive s"
  by (auto simp: alive_def add_tasks_def clear_run_def split: option.split)

lemma ready_simps [simp]:
  "message_ready (add_tasks ns s) = message_ready s" "message_ready (s\<lparr>js_prior := p\<rparr>) = message_ready s"
  "message_ready (s\<lparr>js_dispatching := b\<rparr>) = message_ready s" "message_ready (s\<lparr>js_started := xs\<rparr>) = message_ready s"
  "message_ready (clear_run tok s) = message_ready s"
  by (auto simp: message_ready_def add_tasks_def clear_run_def)

lemma coming_simps [simp]:
  "coming (s\<lparr>js_prior := p\<rparr>) = coming s" "coming (s\<lparr>js_dispatching := b\<rparr>) = coming s" "coming (s\<lparr>js_started := xs\<rparr>) = coming s"
  "coming (clear_run tok s) = coming s" "coming (s\<lparr>js_job := x\<rparr>) = coming s" "coming (s\<lparr>js_dispatcher := b\<rparr>) = coming s"
  by (simp_all add: coming_def clear_run_def)

lemma awake_add:
  "awake_on ts s \<Longrightarrow> ns \<noteq> [] \<Longrightarrow> carries ns ts \<Longrightarrow> awake (add_tasks ns s)"
  by (rule awake_by [where ns = ns]) (simp_all, auto simp: add_tasks_def)

lemma awake_save:
  assumes "awake_on ts s" "js_job s = Some j" "js_saving s = None" "jb_deleted k = jb_deleted j" "carries ns ts"
    and "ns \<noteq> [] \<or> ready_head k = None"
  shows "awake (save_later k cont ns els s)"
  using assms(1)
proof (rule awake_by [where ns = ns])
  show "ns \<noteq> [] \<or> \<not> message_ready (save_later k cont ns els s) \<or> ts = [] \<and> (message_ready (save_later k cont ns els s) \<longrightarrow> message_ready s)"
    using assms(6) by (auto simp: message_ready_def save_later_def)
qed (use assms in \<open>simp_all add: alive_def save_later_def coming_def\<close>)

subsection \<open>Every step of a goroutine\<close>

lemma awake_request: "awake_on [TRequest] s \<Longrightarrow> awake (request_message_queue_dispatch s)"
  "awake s \<Longrightarrow> awake (request_message_queue_dispatch s)"
proof -
  have "awake (request_message_queue_dispatch s)" if "awake_on ts s" "ts = [TRequest] \<or> ts = []" for ts
  proof (cases "js_stopping s \<or> js_dispatching s")
    case True
    then show ?thesis using that by (auto simp: request_message_queue_dispatch_def awake_on_def message_ready_def)
  next
    case False
    have "awake (add_tasks [TDispatch] (s\<lparr>js_dispatching := True\<rparr>))"
      by (rule awake_by [OF that(1), where ns = "[TDispatch]"]) (use that(2) in \<open>auto simp: carries_def\<close>)
    then show ?thesis using False by (simp add: request_message_queue_dispatch_def)
  qed
  then show "awake_on [TRequest] s \<Longrightarrow> awake (request_message_queue_dispatch s)" "awake s \<Longrightarrow> awake (request_message_queue_dispatch s)"
    by blast+
qed

lemma awake_block:
  assumes "awake_on [TBlock i c] s" "js_saving s = None" shows "awake (block_message_queue_head env i c s)"
proof -
  have add: "awake (add_tasks [TFinish] s)" by (rule awake_add [OF assms(1)]) (simp_all add: carries_def)
  have "awake (save_later k (AfterQueue j None) [TUnflag] [TUnflag] s)" if "js_job s = Some j" "jb_deleted k = jb_deleted j" for j k
    by (rule awake_save [OF assms(1) that(1) assms(2) that(2)]) (simp_all add: carries_def)
  moreover have "jb_deleted (set_receipt_state i st k) = jb_deleted k" for st k
    by (simp add: set_receipt_state_def split: option.split)
  ultimately show ?thesis using add
    by (auto simp: block_message_queue_head_def Let_def new_version_def split: option.split)
qed

lemma awake_complete:
  assumes "awake_on [TComplete i] s" "js_saving s = None" shows "awake (complete_claimed_queue_item i s)"
proof -
  have add: "awake (add_tasks [TClear True] s)" by (rule awake_add [OF assms(1)]) (simp_all add: carries_def)
  have "awake (save_later k (AfterQueue j None) [TClear True] [TClear True] s)" if "js_job s = Some j" "jb_deleted k = jb_deleted j" for j k
    by (rule awake_save [OF assms(1) that(1) assms(2) that(2)]) (simp_all add: carries_def)
  then show ?thesis using add
    by (auto simp: complete_claimed_queue_item_def Let_def new_version_def split: option.split)
qed

lemma awake_clear:
  assumes "awake_on [TClear q] s" "js_saving s = None"
  shows "awake (clear_empty_message_queue_pause [if q then TFinish else TRequest] s)"
proof -
  let ?ts = "[if q then TFinish else TRequest]"
  have add: "awake (add_tasks ?ts s)" by (rule awake_add [OF assms(1)]) (simp_all add: carries_def)
  have "awake (save_later k (AfterQueue j None) ?ts ?ts s)" if "js_job s = Some j" "jb_deleted k = jb_deleted j" for j k
    by (rule awake_save [OF assms(1) that(1) assms(2) that(2)]) (simp_all add: carries_def)
  then show ?thesis using add
    by (auto simp: clear_empty_message_queue_pause_def Let_def new_version_def split: option.split)
qed

lemma terminal_deleted: "jb_deleted (capture_terminal_snapshot r now j) = jb_deleted j" "jb_deleted (apply_terminal_status p t j) = jb_deleted j"
  by (simp_all add: capture_terminal_snapshot_def finish_active_client_message_def accumulate_turn_duration_def apply_terminal_status_def Let_def
      split: option.split)

lemma awake_prior: "awake_on ts (s\<lparr>js_prior := p\<rparr>) = awake_on ts s"
  by (simp add: awake_on_def)

lemma awake_terminal:
  assumes "awake_on [t] s" "js_saving s = None" "carries [n] [t]"
  shows "awake (terminal_job env r m [n] s)"
proof -
  have "awake (save_later k AfterTerminal [n] [n] (s\<lparr>js_prior := None\<rparr>))" if "js_job s = Some j" "jb_deleted k = jb_deleted j" for j k
    by (rule awake_save [where j = j]) (use assms that in \<open>simp_all add: awake_prior\<close>)
  moreover have "awake (add_tasks [n] (s\<lparr>js_prior := None\<rparr>))"
    by (rule awake_add [where ts = "[t]"]) (use assms in \<open>simp_all add: awake_prior\<close>)
  ultimately show ?thesis by (simp add: terminal_job_def Let_def terminal_deleted split: option.split)
qed

lemma awake_launch:
  assumes "awake_on ts s" "js_job s = Some j" "js_saving s = None" "jb_deleted k = jb_deleted j" "ts = [TSend i p] \<and> q \<or> ts = []"
  shows "awake (launch env q i j k s)"
  using assms(1)
proof (rule awake_by [where ns = "[TLaunch (js_next s) i q]"])
  show "alive (launch env q i j k s) \<longrightarrow> alive s" using assms by (simp add: alive_def launch_def save_later_def Let_def)
  show "carries [TLaunch (js_next s) i q] ts" using assms(5) by (auto simp: carries_def)
qed (use assms in \<open>auto simp: launch_def save_later_def Let_def coming_def\<close>)

lemma awake_send:
  assumes "awake_on ts s" "js_saving s = None" "ts = [TSend i p] \<and> q \<or> ts = []" "send_message env q i p s = (Inr Accepted, s')"
  shows "awake s'"
proof -
  obtain j k where "js_job s = Some j" "s' = launch env q i j k s" "jb_deleted k = jb_deleted j"
    using assms(4) by (auto simp: send_message_def Let_def start_run_job_def claim_head_def new_version_def
        split: option.splits if_splits)
  then show ?thesis using awake_launch assms by blast
qed

lemma coming_more [simp]: "coming (add_tasks (n # ns) s) \<noteq> []"
  by (simp add: coming_def add_tasks_def)

lemma awake_run_returns:
  assumes "awake_on [TRun tok i q] s" shows "awake (run_returns env ret tok i q s)"
proof -
  let ?f = "s\<lparr>js_job := map_option (\<lambda>j. j\<lparr>jb_finished_at := je_now env\<rparr>) (js_job s)\<rparr>"
  have "ready_head (j\<lparr>jb_finished_at := t\<rparr>) = ready_head j" for j t by (simp add: ready_head_def split: option.split)
  then have "message_ready ?f = message_ready s" by (cases "js_job s") (simp_all add: message_ready_def)
  then have "awake_on ts ?f = awake_on ts s" for ts by (simp add: awake_on_def)
  moreover have "awake (add_tasks [n] s')" if "awake_on [TRun tok i q] s'" "n = TLand tok i q \<or> (\<exists>m. n = TFail tok i q m)" for n s'
    by (rule awake_add [OF that(1)]) (use that(2) in \<open>auto simp: carries_def\<close>)
  ultimately show ?thesis using assms by (simp add: run_returns_def Let_def split: run_return.split)
qed

lemma exec_task_awake:
  assumes "awake_on [t] s" "needs_lock t \<longrightarrow> js_saving s = None"
  shows "awake (exec_task env inp t s)"
proof -
  have one: "awake (add_tasks [n] s)" if "carries [n] [t]" for n
    by (rule awake_add [OF assms(1)]) (use that in simp_all)
  show ?thesis
  proof (cases t)
    case TRequest then show ?thesis using assms awake_request by (simp add: exec_task_def)
  next
    case TDispatch then show ?thesis using one by (simp add: exec_task_def carries_def split: option.split)
  next
    case (TCheckDone m) then show ?thesis using one by (simp add: exec_task_def carries_def)
  next
    case (TPrepare m) then show ?thesis using one by (simp add: exec_task_def carries_def split: task_input.split sum.split)
  next
    case (TSend i p)
    then have "awake s'" if "send_message env True i p s = (Inr Accepted, s')" for s'
      using awake_send [OF assms(1) _ _ that] assms(2) by simp
    then show ?thesis using one TSend
      by (auto simp: exec_task_def carries_def split: sum.split disposition.split prod.split)
  next
    case (TBlock i c) then show ?thesis using awake_block assms by (simp add: exec_task_def)
  next
    case TUnflag
    have "awake (add_tasks [TFinish] (s\<lparr>js_dispatching := False\<rparr>))"
      by (rule awake_by [OF assms(1), where ns = "[TFinish]"]) (use TUnflag in \<open>auto simp: carries_def\<close>)
    then show ?thesis using TUnflag by (simp add: exec_task_def)
  next
    case TFinish
    have "awake (add_tasks [TRecheck] (s\<lparr>js_dispatching := False\<rparr>))"
      using assms(1) TFinish by (auto simp: awake_on_def)
    then show ?thesis using TFinish by (simp add: exec_task_def)
  next
    case TRecheck
    have "awake s" if "\<not> message_ready s" using assms(1) that TRecheck by (simp add: awake_on_def)
    moreover have "message_ready s \<longrightarrow> js_dispatcher s \<and> Option.bind (js_job s) ready_head \<noteq> None" by (simp add: message_ready_def)
    ultimately show ?thesis using one TRecheck by (auto simp: exec_task_def carries_def)
  next
    case TRecheckDone
    have "awake s" if "js_dones s \<noteq> None" using assms(1) that TRecheckDone by (auto simp: awake_on_def)
    then show ?thesis using one TRecheckDone by (auto simp: exec_task_def carries_def)
  next
    case TStartup
    have "awake s" if "\<not> message_ready s" using assms(1) that TStartup by (simp add: awake_on_def)
    moreover have "message_ready s \<longrightarrow> (\<exists>j. js_job s = Some j \<and> \<not> jb_deleted j \<and> jb_mode j = ModeInteractive \<and> jb_queue j \<noteq> [] \<and> \<not> jb_paused j)"
      by (cases "js_job s") (auto simp: message_ready_def ready_head_def first_waiting_queue_index_def split: option.splits if_splits)
    ultimately show ?thesis using one TStartup by (auto simp: exec_task_def carries_def split: option.split)
  next
    case (TLaunch tok i q)
    have "awake_on [TLaunch tok i q] (s\<lparr>js_started := xs\<rparr>)" for xs using assms(1) TLaunch by (simp add: awake_on_def)
    then have "awake (add_tasks [TRun tok i q] (s\<lparr>js_started := xs\<rparr>))" for xs by (rule awake_add) (simp_all add: carries_def)
    then show ?thesis using TLaunch by (simp add: exec_task_def)
  next
    case (TRun tok i q)
    then show ?thesis using one assms(1) awake_run_returns by (simp add: exec_task_def carries_def split: task_input.split)
  next
    case (TFail tok i q m)
    then show ?thesis using awake_terminal [OF assms(1), of "TLand tok i q"] assms(2) by (simp add: exec_task_def carries_def)
  next
    case (TLand tok i q)
    then show ?thesis using one by (simp add: exec_task_def land_def carries_def split: option.split)
  next
    case (TTerminal r tok i q)
    then show ?thesis using awake_terminal [OF assms(1), of "TCleanup tok i q"] assms(2) by (simp add: exec_task_def carries_def)
  next
    case (TCleanup tok i q)
    let ?n = "if q then TComplete i else TClear False"
    have cleared: "js_dones (clear_run tok s) = (if js_dones s = Some tok then None else js_dones s)"
      "js_dispatching (clear_run tok s) = js_dispatching s" by (simp_all add: clear_run_def)
    have "awake (add_tasks [?n] (clear_run tok s))"
      using assms(1) TCleanup by (auto simp: awake_on_def cleared)
    then show ?thesis using TCleanup by (simp add: exec_task_def)
  next
    case (TComplete i) then show ?thesis using awake_complete assms by (simp add: exec_task_def)
  next
    case (TClear q) then show ?thesis using awake_clear [of q] assms by (simp add: exec_task_def)
  qed
qed

lemma step_task_awake:
  assumes "awake s" shows "awake (step_task env n inp s)"
proof (cases "n < length (js_tasks s) \<and> \<not> (needs_lock (js_tasks s ! n) \<and> js_saving s \<noteq> None)")
  case True
  define a t b where "a = take n (js_tasks s)" and "t = js_tasks s ! n" and "b = drop (Suc n) (js_tasks s)"
  have split: "js_tasks s = a @ t # b" and rest: "remove_at n (js_tasks s) = a @ b"
    using True by (simp_all add: a_def t_def b_def id_take_nth_drop [symmetric] remove_at_def)
  have step: "step_task env n inp s = exec_task env inp t (s\<lparr>js_tasks := a @ b\<rparr>)"
    using True by (auto simp: step_task_def Let_def rest t_def [symmetric])
  have "awake_on [t] (s\<lparr>js_tasks := a @ b\<rparr>)"
    using assms by (auto simp: awake_on_def alive_def message_ready_def coming_def split)
  then show ?thesis unfolding step using True by (intro exec_task_awake) (auto simp: t_def)
qed (use assms in \<open>auto simp: step_task_def Let_def\<close>)

subsection \<open>Every operation, when the writes succeed\<close>

fun write_succeeds :: "job_op \<Rightarrow> bool" where
  "write_succeeds (JSave ok again) = ok"
| "write_succeeds _ = True"

lemma awake_saved:
  assumes "awake s" "js_job s = Some j" "js_saving s = None" "jb_deleted k = jb_deleted j" "ns \<noteq> [] \<or> ready_head k = None"
  shows "awake (save_later k cont ns els s)"
  by (rule awake_save [OF assms(1-4) carries_Nil assms(5)])

lemma paused_not_ready [simp]: "jb_paused k \<Longrightarrow> ready_head k = None"
  by (simp add: ready_head_def split: option.split)

lemma awake_submit: "awake s \<Longrightarrow> js_saving s = None \<Longrightarrow> awake (snd (submit_message env i p s))"
  by (auto simp: submit_message_def Let_def new_version_def intro: awake_saved split: option.split)

lemma awake_direct:
  assumes "awake s" "js_saving s = None" shows "awake (snd (send_message env False i p s))"
proof (cases "send_message env False i p s")
  case (Pair res s')
  have "s' = s" if "res \<noteq> Inr Accepted"
    using Pair that by (auto simp: send_message_def Let_def split: option.splits if_splits)
  then show ?thesis using awake_send [OF assms, of i p False env s'] Pair assms(1) by (cases "res = Inr Accepted") auto
qed

lemma awake_delete: "awake s \<Longrightarrow> js_saving s = None \<Longrightarrow> awake (snd (delete_queued_message env i s))"
  by (auto simp: delete_queued_message_def Let_def new_version_def intro!: awake_saved split: option.split)

lemma awake_continue: "awake s \<Longrightarrow> js_saving s = None \<Longrightarrow> awake (snd (continue_message_queue s))"
  by (auto simp: continue_message_queue_def Let_def new_version_def intro!: awake_saved intro: awake_add split: option.split)

lemma awake_pause: "awake s \<Longrightarrow> js_saving s = None \<Longrightarrow> awake (snd (pause_message_queue_for_stop s))"
  by (auto simp: pause_message_queue_for_stop_def Let_def new_version_def intro!: awake_saved split: option.split)

lemma awake_job:
  assumes "awake s" "js_job s = Some j" "jb_deleted k \<or> jb_deleted k = jb_deleted j \<and> ready_head k = ready_head j"
  shows "awake (s\<lparr>js_disk := d, js_job := Some k\<rparr>)"
proof (cases "jb_deleted k")
  case False
  let ?s = "s\<lparr>js_disk := d, js_job := Some k\<rparr>"
  have "alive ?s = alive s" "message_ready ?s = message_ready s" "coming ?s = coming s"
    using False assms(2,3) by (simp_all add: alive_def message_ready_def coming_def)
  then show ?thesis using assms(1) by (simp add: awake_on_def)
qed (simp add: awake_on_def alive_def)

lemma awake_command: "awake s \<Longrightarrow> awake (snd (execute_command env i p ok s))"
  by (auto simp: execute_command_def Let_def ready_head_def intro!: awake_job split: option.split)

lemma awake_deleted: "awake s \<Longrightarrow> awake (mark_deleted ok s)" "awake s \<Longrightarrow> awake (delete_job ok s)"
  by (auto simp: mark_deleted_def intro!: awake_job split: option.split)
    (auto simp: delete_job_def awake_on_def alive_def split: option.split)

lemma awake_save_done:
  assumes "awake s" shows "awake (finish_save True again s)"
proof (cases "js_saving s")
  case (Some v)
  show ?thesis
  proof (cases "alive s")
    case True
    then obtain j where j: "js_job s = Some j" "\<not> jb_deleted j" by (auto simp: alive_def split: option.splits)
    define t where "t = finish_save True again s"
    have "js_job t = js_job s" "js_saving t = None" "js_tasks t = js_tasks s @ sv_then v" "js_dispatching t = js_dispatching s"
        "js_dones t = js_dones s" "js_dispatcher t = js_dispatcher s" "js_stopping t = js_stopping s"
      using Some j by (auto simp: t_def finish_save_def save_succeeds_def Let_def add_tasks_def split: after_save.split)
    then have "coming t = coming s" "alive t = alive s" "message_ready t = message_ready s" "js_dispatching t = js_dispatching s" "js_dones t = js_dones s"
      using Some by (simp_all add: coming_def alive_def message_ready_def)
    then show ?thesis using assms by (simp add: awake_on_def t_def [symmetric])
  next
    case False
    then have "\<not> alive (finish_save True again s)"
      using Some by (auto simp: alive_def finish_save_def save_fails_def clear_run_def restore_run_state_def restore_message_queue_state_def Let_def
          split: option.splits after_save.splits)
    then show ?thesis by (simp add: awake_on_def)
  qed
qed (use assms in \<open>simp add: finish_save_def\<close>)

lemma awake_set_dispatcher:
  assumes "awake s" "js_saving s = None" shows "awake (set_message_queue_dispatcher env s)"
proof -
  let ?s = "s\<lparr>js_dispatcher := True\<rparr>"
  have add: "awake (add_tasks [TStartup] ?s)"
    by (rule awake_by [OF assms(1), where ns = "[TStartup]"]) auto
  have not_ready: "awake ?s" if "\<not> alive s" using that by (simp add: awake_on_def)
  have save: "awake (save_later k cont [TStartup] els ?s)" if "js_job s = Some j" "jb_deleted k = jb_deleted j" for j k cont els
    by (rule awake_by [OF assms(1), where ns = "[TStartup]"]) (use that assms in \<open>auto simp: save_later_def alive_def coming_def\<close>)
  have "jb_deleted (interrupt_head env m rest j) = jb_deleted j" for m rest j
    by (simp add: interrupt_head_def new_version_def Let_def split: option.split)
  then show ?thesis using add not_ready save
    by (auto simp: set_message_queue_dispatcher_def Let_def alive_def split: option.split list.split)
qed

lemma exec_job_awake:
  assumes "awake s" "write_succeeds op" shows "awake (exec_job (env, op) s)"
proof (cases "op_needs_lock op \<and> js_saving s \<noteq> None")
  case False
  have "awake (stop_job s)" "awake (stop_all s)"
    using assms(1) by (auto simp: stop_job_def stop_all_def Let_def awake_on_def alive_def message_ready_def coming_def split: option.split)
  moreover have "awake (restart env ok s)" for ok
    by (simp add: restart_def Let_def awake_on_def message_ready_def)
  ultimately show ?thesis using False assms
    by (cases op) (simp_all add: exec_job_def awake_submit awake_direct awake_delete awake_continue awake_pause awake_command awake_save_done
        step_task_awake awake_set_dispatcher awake_deleted)
qed (use assms in \<open>simp add: exec_job_def\<close>)

lemma run_awake:
  assumes "\<forall>(env, op) \<in> set ops. write_succeeds op" "awake s" shows "awake (fold exec_job ops s)"
  using assms by (induction ops arbitrary: s) (auto simp: exec_job_awake)

lemma created_awake: "awake (created mode)"
  by (simp add: created_def Let_def awake_on_def message_ready_def)

end
