(* ===== verification/JobClaims.thy ===== *)
theory JobClaims
  imports JobProgress
begin

section \<open>What the queue promises\<close>

text \<open>
  The properties of the message queue over every run of its machine, the runs they are applied to, and four
  interleavings, of a failed write or of two goroutines, that end where the code does not mean to.
\<close>

lemma reached_ok: "sys_ok (fold exec_job ops (created mode))"
  by (rule queue.run_invar) (cases mode; simp add: job_created_def)

subsection \<open>Runs of the machine\<close>

definition queue_env :: job_env where
  "queue_env = \<lparr> je_now = 5, je_hash = (\<lambda>p. p) \<rparr>"

definition queue_ops :: "job_op list \<Rightarrow> (job_env \<times> job_op) list" where
  "queue_ops ops = map (\<lambda>op. (queue_env, op)) ops"

definition queue_trace :: "job_op list \<Rightarrow> job_sys" where
  "queue_trace ops = fold exec_job (queue_ops ops) (created ModeInteractive)"

definition first_started :: "job_op list" where
  "first_started = [JSetDispatcher, JTask 0 NoInput, JSubmit ''a'' ''x'', JSave True False, JTask 0 NoInput, JTask 0 NoInput, JTask 0 NoInput,
     JTask 0 (Prepared (Inr ''x'')), JTask 0 NoInput, JSave True False, JTask 0 NoInput]"

definition second_started :: "job_op list" where
  "second_started = first_started @ [JSubmit ''b'' ''y'', JSave True False, JTask 1 NoInput,
     JTask 0 (Returned RunOk), JTask 0 NoInput, JTask 0 NoInput, JSave True False, JTask 0 NoInput, JTask 0 NoInput, JSave True False,
     JTask 0 NoInput, JTask 0 NoInput, JTask 0 NoInput, JTask 0 NoInput, JTask 0 NoInput, JTask 0 NoInput, JTask 0 NoInput,
     JTask 0 (Prepared (Inr ''y'')), JTask 0 NoInput, JSave True False, JTask 0 NoInput]"

lemma first_started_facts:
  "js_acked (queue_trace first_started) = [''a'']" "js_started (queue_trace first_started) = [''a'']"
  "case js_job (queue_trace first_started) of Some j \<Rightarrow> \<not> jb_deleted j \<and> jb_mode j = ModeInteractive | None \<Rightarrow> False"
  by code_simp+

lemma second_started_facts:
  "js_acked (queue_trace second_started) = [''a'', ''b'']" "js_started (queue_trace second_started) = [''a'', ''b'']"
  "js_disk (queue_trace second_started) \<noteq> None"
  by code_simp+

subsection \<open>Properties\<close>

text \<open>C3: A message that is sent to a chat is handed to its agent at most once: whatever is submitted, sent,
  deleted, paused or stopped, whichever writes fail and whenever the process is restarted.\<close>

theorem message_runs_at_most_once: "distinct (js_started (fold exec_job ops (created mode)))"
  using reached_ok [of ops mode] by (simp add: sys_ok_def marked_def)

text \<open>C4: A message whose submission was confirmed is never lost: as long as the job is on disk it is there, in the queue and
  waiting, or with a receipt that says what became of it.\<close>

theorem accepted_message_never_lost:
  assumes "s = fold exec_job ops (created mode)" "i \<in> set (js_acked s)" "js_disk s = Some j"
  shows "i \<in> set (waiting_ids j) \<or> spent j i"
  using reached_ok [of ops mode] assms by (auto simp: sys_ok_def state_ok_def copy_ok_def q_ok_def)

lemma accepted_message_never_lost_witness:
  "\<exists>j. js_disk (queue_trace second_started) = Some j \<and> (''b'' \<in> set (waiting_ids j) \<or> spent j ''b'')"
  using accepted_message_never_lost [where s = "queue_trace second_started" and ops = "queue_ops second_started" and mode = ModeInteractive and i = "''b''"]
    second_started_facts by (auto simp: queue_trace_def)

text \<open>C9: Messages are started in the order in which they were accepted: when a message has been handed to the agent, each
  one that was accepted before it is no longer waiting, in memory or on disk.\<close>

theorem messages_start_in_order:
  assumes "s = fold exec_job ops (created mode)" "subseq [x, y] (js_acked s)" "y \<in> set (js_started s)"
    and "js_job s = Some j \<or> js_disk s = Some j"
  shows "spent j x \<and> x \<notin> set (waiting_ids j)"
proof -
  have "copy_ok (set (marked s)) (js_acked s) j" "y \<in> set (marked s)"
    using reached_ok [of ops mode] assms by (auto simp: sys_ok_def state_ok_def marked_def)
  then have "spent j x" "q_ok j" using assms(2) by (auto simp: copy_ok_def)
  then show ?thesis using waiting_not_spent by blast
qed

lemma messages_start_in_order_witness:
  "\<exists>j. js_disk (queue_trace second_started) = Some j \<and> spent j ''a'' \<and> ''a'' \<notin> set (waiting_ids j)"
  using messages_start_in_order [where s = "queue_trace second_started" and ops = "queue_ops second_started" and mode = ModeInteractive
      and x = "''a''" and y = "''b''"] second_started_facts by (auto simp: queue_trace_def)

text \<open>C10: When all writes succeed, a chat at rest has nothing left to start: as soon as no goroutine is under way, no message is ready,
  so no wakeup is ever lost between a dispatcher that gives up and one that is turned away.\<close>

theorem chat_at_rest_is_drained:
  assumes "s = fold exec_job ops (created mode)" "\<forall>(env, op) \<in> set ops. write_succeeds op"
    and "js_tasks s = []" "js_saving s = None" "js_dispatcher s" "\<not> js_stopping s" "js_job s = Some j"
  shows "ready_head j = None"
proof (cases "jb_deleted j")
  case False
  have "awake s" using run_awake [OF assms(2) created_awake, of mode] by (simp add: assms(1))
  then show ?thesis using assms(3-7) False by (simp add: awake_on_def alive_def message_ready_def coming_def)
qed (simp add: ready_head_def split: option.split)

lemma chat_at_rest_is_drained_witness:
  "\<exists>j. js_job (queue_trace [JSetDispatcher, JTask 0 NoInput]) = Some j \<and> ready_head j = None"
proof -
  have "js_tasks (queue_trace [JSetDispatcher, JTask 0 NoInput]) = []" "js_saving (queue_trace [JSetDispatcher, JTask 0 NoInput]) = None"
    "js_dispatcher (queue_trace [JSetDispatcher, JTask 0 NoInput])" "\<not> js_stopping (queue_trace [JSetDispatcher, JTask 0 NoInput])"
    "js_job (queue_trace [JSetDispatcher, JTask 0 NoInput]) \<noteq> None"
    "\<forall>(env, op) \<in> set (queue_ops [JSetDispatcher, JTask 0 NoInput]). write_succeeds op"
    by code_simp+
  then show ?thesis
    using chat_at_rest_is_drained [where s = "queue_trace [JSetDispatcher, JTask 0 NoInput]" and ops = "queue_ops [JSetDispatcher, JTask 0 NoInput]"
        and mode = ModeInteractive] by (auto simp: queue_trace_def)
qed

text \<open>Submitting a confirmed message again changes nothing, whatever has happened since: the answer is that it is a duplicate, that it was deleted,
  or that its identifier is taken by another payload.\<close>

theorem resubmission_changes_nothing:
  assumes "s = fold exec_job ops (created mode)" "i \<in> set (js_acked s)" "js_job s = Some j" "\<not> jb_deleted j"
    and "jb_mode j = ModeInteractive" "i \<noteq> []" "p \<noteq> []"
  shows "submit_message env i p s \<in> {(Inr Duplicate, s), (Inr AlreadyDeleted, s), (Inl ClientMessageIdConflict, s)}"
proof -
  have "known j i" using reached_ok [of ops mode] assms(1-3) by (auto simp: sys_ok_def state_ok_def copy_ok_def)
  then obtain r where "aget (jb_receipts j) i = Some r" by (auto simp: known_def)
  then show ?thesis using assms(3-7) by (auto simp: submit_message_def)
qed

lemma resubmission_changes_nothing_witness:
  "submit_message queue_env ''a'' ''x'' (queue_trace first_started)
     \<in> {(Inr Duplicate, queue_trace first_started), (Inr AlreadyDeleted, queue_trace first_started), (Inl ClientMessageIdConflict, queue_trace first_started)}"
  using resubmission_changes_nothing [where s = "queue_trace first_started" and ops = "queue_ops first_started" and mode = ModeInteractive
      and i = "''a''" and p = "''x''" and env = queue_env] first_started_facts
  by (cases "js_job (queue_trace first_started)") (auto simp: queue_trace_def)

subsection \<open>Interleavings that go wrong\<close>

text \<open>A message may run although its submission failed: a dispatcher that looks at the queue while the submission is being written
  takes it, the write fails and the queue is put back, and the dispatcher's send, which finds no receipt, starts the message as a new one.\<close>

theorem failed_submission_still_runs:
  "let s = queue_trace [JSetDispatcher, JSubmit ''a'' ''x'', JTask 0 NoInput, JTask 0 NoInput, JTask 0 NoInput, JTask 0 NoInput,
             JTask 0 (Prepared (Inr ''x'')), JSave False False, JTask 0 NoInput, JSave True False, JTask 0 NoInput]
   in js_acked s = [] \<and> js_started s = [''a'']"
  by code_simp

text \<open>When the write that removes a finished message from the queue fails, the message stays there as being processed, and nothing behind it is
  started any more: not when its goroutine ends, and not when the user continues the queue.\<close>

theorem failed_removal_blocks_queue:
  "let s = queue_trace (first_started @ [JSubmit ''b'' ''y'', JSave True False, JTask 1 NoInput, JTask 0 (Returned RunOk), JTask 0 NoInput,
             JTask 0 NoInput, JSave True False, JTask 0 NoInput, JTask 0 NoInput, JSave False False, JTask 0 NoInput, JTask 0 NoInput, JTask 0 NoInput,
             JContinue, JTask 0 NoInput, JTask 0 NoInput, JTask 0 NoInput, JTask 0 NoInput])
   in js_tasks s = [] \<and> js_saving s = None \<and> js_started s = [''a''] \<and>
      (case js_job s of None \<Rightarrow> False
       | Some j \<Rightarrow> jb_status j = JobCompleted \<and> \<not> jb_paused j \<and> map (\<lambda>m. (qm_id m, qm_state m)) (jb_queue j) = [(''a'', QmProcessing), (''b'', QmQueued)])"
  by code_simp

text \<open>When the write of a pause fails, a message may be left ready with nobody to start it: the dispatcher looked while the queue was paused
  in memory and gave up, and putting the queue back asks nobody to look again.\<close>

theorem failed_pause_loses_wakeup:
  "let s = queue_trace [JSetDispatcher, JTask 0 NoInput, JSubmit ''a'' ''x'', JSave True False, JPause, JTask 0 NoInput, JTask 0 NoInput, JTask 0 NoInput,
             JTask 0 NoInput, JSave False False]
   in js_tasks s = [] \<and> js_saving s = None \<and> message_ready s"
  by code_simp


end
