(* ===== verification/Auth.thy ===== *)
theory Auth
  imports GoText
begin

section \<open>Accounts, roles and logins\<close>

text \<open>
  \<open>services/auth\<close>: the users and roles of an instance, their sessions, and the limits on failed logins. Every
  exported function holds the service's lock from its first line to its last, so an operation is one step on the
  state, with the outcome of each of its writes as an input. Roles and users are
  kept in memory and on disk, sessions on disk only. The hash of a token, the hash of a password and
  its comparison, and the tables of \<open>unicode\<close> (lower case, folding, letters and digits) are parameters; files that
  cannot be read or parsed at the start of the process are not modelled.
\<close>

subsection \<open>State\<close>

record auth_role =
  ro_id :: string
  ro_name :: string
  ro_description :: string
  ro_permissions :: "string list"
  ro_built_in :: bool
  ro_version :: int
  ro_created_at :: int
  ro_updated_at :: int
  ro_created_by :: string
  ro_updated_by :: string

record auth_user =
  usr_id :: string
  usr_name :: string
  usr_display :: string
  usr_hash :: string
  usr_roles :: "string list"
  usr_status :: string
  usr_must_change :: bool
  usr_version :: int
  usr_created_at :: int
  usr_updated_at :: int
  usr_created_by :: string
  usr_updated_by :: string

record auth_session =
  ses_user :: string
  ses_csrf :: string
  ses_created_at :: int

record login_failure =
  lf_count :: nat
  lf_window_start :: int
  lf_blocked_until :: "int option"
  lf_last_attempt :: int

datatype auth_error =
    StateConflict | NotInitialized | InRecovery | ConfirmationDiffers | UsernameLength | UsernameCharacter | UsernameTaken
  | PasswordTooShort | PasswordTooSimple | HashFailed | TokenFailed | WriteFailed | RevokeFailed
  | RateLimited int | InvalidCredentials | UserDisabled | Unauthorized | RecordNotFound | VersionConflict
  | UserDeleted | NoRolesGiven | UnknownRole string | UnknownStatus string | LastAdministrator
  | RoleNameMissing | RoleNameTaken | RoleBuiltIn | RoleAssigned string | UnknownPermission string | PermissionsMissing "string list"

datatype auth_problem =
    NoSystemFile | SystemNotInitialized | UnsupportedSchema int | RoleIncomplete | DuplicateRoleName | DuplicateRoleId | DuplicateUserId
  | NoUsers | BuiltInMissing string | BuiltInUnmarked string | UserIncomplete | UsernameNotNormalized | BadStatus string | UserWithoutRoles string
  | NoPasswordHash | DuplicateUsername | UserProblem auth_error | NoActiveAdministrator | RoleProblem auth_error

datatype auth_state = AuthUninitialized | AuthReady | AuthRecovery auth_problem

record auth_disk =
  ad_system :: "(int \<times> bool) option"
  ad_users :: "(string \<times> auth_user) list"
  ad_roles :: "(string \<times> auth_role) list"
  ad_sessions :: "(string \<times> auth_session) list"

record auth_sys =
  as_state :: auth_state
  as_users :: "(string \<times> auth_user) list"
  as_roles :: "(string \<times> auth_role) list"
  as_failures :: "(string \<times> login_failure) list"
  as_cleanup_at :: int
  as_disk :: auth_disk

text \<open>What does not change while the process runs, and what one call is given: the time, the fresh identifier, the random tokens,
  and which writes, deletions and listings succeed.\<close>

record auth_params =
  ap_lower :: "string \<Rightarrow> string"
  ap_fold_equal :: "string \<Rightarrow> string \<Rightarrow> bool"
  ap_letter :: "rune \<Rightarrow> bool"
  ap_digit :: "rune \<Rightarrow> bool"
  ap_token_hash :: "string \<Rightarrow> string"
  ap_password_ok :: "string \<Rightarrow> string \<Rightarrow> bool"

record auth_env =
  ae_now :: int
  ae_uuid :: string
  ae_tokens :: "(string \<times> string) option"
  ae_hash :: "string \<Rightarrow> string option"
  ae_save :: "nat \<Rightarrow> bool"
  ae_drop :: "string \<Rightarrow> bool"
  ae_listed :: bool

subsection \<open>Constants\<close>

definition status_active :: string where "status_active = ''active''"
definition status_disabled :: string where "status_disabled = ''disabled''"
definition status_deleted :: string where "status_deleted = ''deleted''"
definition admin_role :: string where "admin_role = ''admin''"
definition member_role :: string where "member_role = ''member''"
definition viewer_role :: string where "viewer_role = ''viewer''"

definition login_failure_window :: int where "login_failure_window = 600000000000"
definition login_failure_block :: int where "login_failure_block = 600000000000"
definition login_cleanup_period :: int where "login_cleanup_period = 60000000000"
definition login_ip_limit :: nat where "login_ip_limit = 10"
definition login_account_limit :: nat where "login_account_limit = 5"
definition max_tracked_failures :: nat where "max_tracked_failures = 8192"

definition permission_ids :: "string list" where
  "permission_ids = [''workspace.read'', ''workspace.write'', ''job.read'', ''job.execute'', ''job.manage'', ''job.share'',
     ''workflow.read'', ''workflow.write'', ''workflow.execute'', ''schedule.read'', ''schedule.write'', ''schedule.execute'',
     ''file.read'', ''file.write'', ''file.share'', ''agent.read'', ''agent.manage'', ''config.read'', ''config.write'',
     ''im.read'', ''im.manage'', ''im.send'', ''stats.read'', ''logs.read'', ''logs.manage'', ''logs.report'',
     ''skills.read'', ''skills.manage'', ''system.manage'', ''users.read'', ''users.manage'', ''roles.read'', ''roles.manage'']"

definition permission_dependencies :: "(string \<times> string list) list" where
  "permission_dependencies = [
     (''workspace.write'', [''workspace.read'']), (''job.execute'', [''job.read'', ''agent.read'', ''workspace.read'']),
     (''job.manage'', [''job.read'']), (''job.share'', [''job.read'']), (''workflow.write'', [''workflow.read'']),
     (''workflow.execute'', [''workflow.read'', ''job.execute'']),
     (''schedule.write'', [''schedule.read'', ''workflow.read'', ''workspace.read'']),
     (''schedule.execute'', [''schedule.read'', ''workflow.execute'']),
     (''file.write'', [''file.read'']), (''file.share'', [''file.read'']), (''agent.manage'', [''agent.read'']),
     (''config.write'', [''config.read'']), (''im.manage'', [''im.read'']), (''im.send'', [''im.read'']),
     (''logs.manage'', [''logs.read'']), (''skills.manage'', [''skills.read'']),
     (''users.manage'', [''users.read'', ''roles.read'']), (''roles.manage'', [''roles.read''])]"

definition member_permissions :: "string list" where
  "member_permissions = [''workspace.read'', ''workspace.write'', ''job.read'', ''job.execute'', ''job.manage'', ''job.share'',
     ''workflow.read'', ''workflow.write'', ''workflow.execute'', ''schedule.read'', ''schedule.write'', ''schedule.execute'',
     ''file.read'', ''file.write'', ''file.share'', ''agent.read'', ''config.read'', ''stats.read'', ''logs.report'', ''skills.read'']"

definition viewer_permissions :: "string list" where
  "viewer_permissions = [''workspace.read'', ''job.read'', ''workflow.read'', ''schedule.read'', ''file.read'', ''agent.read'',
     ''config.read'', ''stats.read'', ''logs.report'', ''skills.read'']"

definition all_permission_ids :: "string list" where "all_permission_ids = sort permission_ids"

definition built_in_role :: "int \<Rightarrow> string \<Rightarrow> string \<Rightarrow> string \<Rightarrow> string list \<Rightarrow> auth_role" where
  "built_in_role now i name description perms = \<lparr> ro_id = i, ro_name = name, ro_description = description, ro_permissions = perms, ro_built_in = True,
     ro_version = 1, ro_created_at = now, ro_updated_at = now, ro_created_by = ''system'', ro_updated_by = ''system'' \<rparr>"

definition built_in_roles :: "int \<Rightarrow> auth_role list" where
  "built_in_roles now =
     [built_in_role now admin_role ''Administrator'' ''All current and future permissions'' all_permission_ids,
      built_in_role now member_role ''Member'' ''Daily shared-instance use'' member_permissions,
      built_in_role now viewer_role ''Viewer'' ''Read-only shared-instance access'' viewer_permissions]"

subsection \<open>Checking what is submitted\<close>

definition unique_sorted :: "string list \<Rightarrow> string list" where
  "unique_sorted xs = sort (remdups (filter (\<lambda>x. x \<noteq> []) (map trim_space xs)))"

definition normalize_username :: "auth_params \<Rightarrow> string \<Rightarrow> auth_error + string" where
  "normalize_username p v =
     (let v = ap_lower p (trim_space v)
      in if length v < 3 \<or> length v > 64 then Inl UsernameLength
         else if list_all (\<lambda>r. ap_letter p r \<or> ap_digit p r \<or> r = byte CHR ''-'' \<or> r = byte CHR ''_'' \<or> r = byte CHR ''.'') (runes_of v) then Inr v
         else Inl UsernameCharacter)"

definition validate_password :: "auth_params \<Rightarrow> string \<Rightarrow> auth_error option" where
  "validate_password p v =
     (if length v < 8 then Some PasswordTooShort
      else if list_ex (ap_letter p) (runes_of v) \<and> list_ex (ap_digit p) (runes_of v) then None else Some PasswordTooSimple)"

definition missing_dependencies :: "string list \<Rightarrow> string list" where
  "missing_dependencies ps =
     concat (map (\<lambda>(x, deps). if x \<in> set ps then filter (\<lambda>d. d \<notin> set ps) deps else []) permission_dependencies)"

definition validate_permissions :: "string list \<Rightarrow> auth_error + string list" where
  "validate_permissions xs =
     (let ps = unique_sorted xs
      in case find (\<lambda>x. x \<notin> set permission_ids) ps of
           Some x \<Rightarrow> Inl (UnknownPermission x)
         | None \<Rightarrow> if missing_dependencies ps \<noteq> [] then Inl (PermissionsMissing (unique_sorted (missing_dependencies ps))) else Inr ps)"

definition validate_role_ids :: "(string \<times> auth_role) list \<Rightarrow> string list \<Rightarrow> auth_error option" where
  "validate_role_ids roles ids = map_option UnknownRole (find (\<lambda>i. \<not> ahas roles i) (unique_sorted ids))"

definition display_name :: "string \<Rightarrow> string \<Rightarrow> string" where
  "display_name v fallback = (let v = trim_space v in if v = [] then fallback else v)"

definition valid_status :: "string \<Rightarrow> bool" where
  "valid_status st \<longleftrightarrow> st = status_active \<or> st = status_disabled \<or> st = status_deleted"

definition username_exists :: "(string \<times> auth_user) list \<Rightarrow> string \<Rightarrow> string \<Rightarrow> bool" where
  "username_exists users name except \<longleftrightarrow> list_ex (\<lambda>(i, u). i \<noteq> except \<and> usr_name u = name) users"

definition is_active_admin :: "auth_user \<Rightarrow> bool" where
  "is_active_admin u \<longleftrightarrow> usr_status u = status_active \<and> admin_role \<in> set (usr_roles u)"

definition has_active_admin_after :: "(string \<times> auth_user) list \<Rightarrow> auth_user \<Rightarrow> bool" where
  "has_active_admin_after users updated \<longleftrightarrow> list_ex (\<lambda>(i, u). is_active_admin (if i = usr_id updated then updated else u)) users"

definition role_name_exists :: "auth_params \<Rightarrow> (string \<times> auth_role) list \<Rightarrow> string \<Rightarrow> string \<Rightarrow> bool" where
  "role_name_exists p roles name except \<longleftrightarrow> list_ex (\<lambda>(i, r). i \<noteq> except \<and> ap_fold_equal p (ro_name r) name) roles"

subsection \<open>The start of the process\<close>

fun load_roles :: "auth_params \<Rightarrow> auth_role list \<Rightarrow> (string \<times> string) list \<Rightarrow> (string \<times> auth_role) list
    \<Rightarrow> auth_problem option \<times> (string \<times> auth_role) list" where
  "load_roles p [] names m = (None, m)"
| "load_roles p (r # rs) names m =
     (if ro_id r = [] \<or> trim_space (ro_name r) = [] then (Some RoleIncomplete, m)
      else let k = ap_lower p (trim_space (ro_name r))
           in if ahas names k then (Some DuplicateRoleName, m)
              else if ahas m (ro_id r) then (Some DuplicateRoleId, m)
              else load_roles p rs (aput k (ro_id r) names) (aput (ro_id r) r m))"

fun load_users :: "auth_user list \<Rightarrow> (string \<times> auth_user) list \<Rightarrow> auth_problem option \<times> (string \<times> auth_user) list" where
  "load_users [] m = (None, m)"
| "load_users (u # us) m =
     (if ahas m (usr_id u) then (Some DuplicateUserId, m) else load_users us (aput (usr_id u) u m))"

fun check_built_ins :: "(string \<times> auth_role) list \<Rightarrow> string list \<Rightarrow> auth_problem option" where
  "check_built_ins roles [] = None"
| "check_built_ins roles (i # ids) =
     (case aget roles i of
        None \<Rightarrow> Some (BuiltInMissing i)
      | Some r \<Rightarrow> if \<not> ro_built_in r then Some (BuiltInUnmarked i) else check_built_ins roles ids)"

fun check_users :: "auth_params \<Rightarrow> (string \<times> auth_role) list \<Rightarrow> auth_user list \<Rightarrow> string list \<Rightarrow> bool \<Rightarrow> auth_problem + bool" where
  "check_users p roles [] seen admin = Inr admin"
| "check_users p roles (u # us) seen admin =
     (if usr_id u = [] \<or> usr_name u = [] then Inl UserIncomplete
      else if ap_lower p (trim_space (usr_name u)) \<noteq> usr_name u then Inl UsernameNotNormalized
      else if \<not> valid_status (usr_status u) then Inl (BadStatus (usr_status u))
      else if usr_status u \<noteq> status_deleted \<and> usr_roles u = [] then Inl (UserWithoutRoles (usr_id u))
      else if trim_space (usr_hash u) = [] then Inl NoPasswordHash
      else if usr_name u \<in> set seen then Inl DuplicateUsername
      else case (if usr_status u = status_deleted then None else validate_role_ids roles (usr_roles u)) of
             Some e \<Rightarrow> Inl (UserProblem e)
           | None \<Rightarrow> check_users p roles us (usr_name u # seen) (admin \<or> is_active_admin u))"

fun check_roles :: "auth_role list \<Rightarrow> auth_problem option" where
  "check_roles [] = None"
| "check_roles (r # rs) = (case validate_permissions (ro_permissions r) of Inl e \<Rightarrow> Some (RoleProblem e) | Inr ps \<Rightarrow> check_roles rs)"

definition validate_auth :: "auth_params \<Rightarrow> (string \<times> auth_user) list \<Rightarrow> (string \<times> auth_role) list \<Rightarrow> auth_problem option" where
  "validate_auth p users roles =
     (if users = [] then Some NoUsers
      else case check_built_ins roles [admin_role, member_role, viewer_role] of
        Some e \<Rightarrow> Some e
      | None \<Rightarrow>
          (case check_users p roles (map snd users) [] False of
             Inl e \<Rightarrow> Some e
           | Inr admin \<Rightarrow> if \<not> admin then Some NoActiveAdministrator else check_roles (map snd roles)))"

definition load_auth :: "auth_params \<Rightarrow> auth_disk \<Rightarrow> auth_sys" where
  "load_auth p d =
     (let fresh = \<lparr> as_state = AuthUninitialized, as_users = [], as_roles = [], as_failures = [], as_cleanup_at = 0, as_disk = d \<rparr>
      in if ad_system d = None \<and> ad_users d = [] \<and> ad_roles d = [] then fresh
         else case ad_system d of
           None \<Rightarrow> fresh\<lparr>as_state := AuthRecovery NoSystemFile\<rparr>
         | Some (schema, initialized) \<Rightarrow>
             if \<not> initialized then fresh\<lparr>as_state := AuthRecovery SystemNotInitialized\<rparr>
             else if schema \<noteq> 1 then fresh\<lparr>as_state := AuthRecovery (UnsupportedSchema schema)\<rparr>
             else (case load_roles p (map snd (ad_roles d)) [] [] of
               (Some e, rs) \<Rightarrow> fresh\<lparr>as_roles := rs, as_state := AuthRecovery e\<rparr>
             | (None, rs) \<Rightarrow>
                 (case load_users (map snd (ad_users d)) [] of
                    (Some e, us) \<Rightarrow> fresh\<lparr>as_roles := rs, as_users := us, as_state := AuthRecovery e\<rparr>
                  | (None, us) \<Rightarrow>
                      fresh\<lparr>as_roles := rs, as_users := us,
                        as_state := (case validate_auth p us rs of Some e \<Rightarrow> AuthRecovery e | None \<Rightarrow> AuthReady)\<rparr>)))"

definition require_ready :: "auth_sys \<Rightarrow> auth_error option" where
  "require_ready s = (case as_state s of AuthReady \<Rightarrow> None | AuthRecovery e \<Rightarrow> Some InRecovery | AuthUninitialized \<Rightarrow> Some NotInitialized)"

subsection \<open>Failed logins\<close>

definition before :: "int \<Rightarrow> int option \<Rightarrow> bool" where
  "before now t = (case t of None \<Rightarrow> False | Some x \<Rightarrow> now < x)"

definition active_login_failure :: "string \<Rightarrow> int \<Rightarrow> (string \<times> login_failure) list \<Rightarrow> login_failure option \<times> (string \<times> login_failure) list" where
  "active_login_failure key now m =
     (case aget m key of
        None \<Rightarrow> (None, m)
      | Some f \<Rightarrow> if \<not> before now (lf_blocked_until f) \<and> now - lf_window_start f \<ge> login_failure_window then (None, adel key m) else (Some f, m))"

definition cleanup_login_failures :: "int \<Rightarrow> auth_sys \<Rightarrow> auth_sys" where
  "cleanup_login_failures now s =
     (if length (as_failures s) < max_tracked_failures \<and> now < as_cleanup_at s then s
      else s\<lparr>as_failures := fold (\<lambda>k m. snd (active_login_failure k now m)) (akeys (as_failures s)) (as_failures s),
             as_cleanup_at := now + login_cleanup_period\<rparr>)"

fun oldest_failure :: "(string \<times> login_failure) list \<Rightarrow> (string \<times> int) option \<Rightarrow> (string \<times> int) option" where
  "oldest_failure [] best = best"
| "oldest_failure ((k, f) # m) best =
     oldest_failure m (case best of
        None \<Rightarrow> Some (k, lf_last_attempt f)
      | Some (k', t) \<Rightarrow> if lf_last_attempt f < t then Some (k, lf_last_attempt f) else best)"

definition make_failure_capacity :: "int \<Rightarrow> auth_sys \<Rightarrow> auth_sys" where
  "make_failure_capacity now s =
     (if length (as_failures s) < max_tracked_failures then s
      else let s = cleanup_login_failures now s
           in if length (as_failures s) < max_tracked_failures then s
              else case oldest_failure (as_failures s) None of None \<Rightarrow> s | Some (k, t) \<Rightarrow> s\<lparr>as_failures := adel k (as_failures s)\<rparr>)"

definition ip_failure_key :: "auth_params \<Rightarrow> string \<Rightarrow> string" where
  "ip_failure_key p source = ''ip:'' @ ap_token_hash p (trim_space source)"

definition account_failure_key :: "auth_params \<Rightarrow> string \<Rightarrow> string" where
  "account_failure_key p name = ''account:'' @ ap_token_hash p (ap_lower p (trim_space name))"

definition login_failure_scopes :: "auth_params \<Rightarrow> string \<Rightarrow> string \<Rightarrow> (string \<times> nat) list" where
  "login_failure_scopes p name source = [(ip_failure_key p source, login_ip_limit), (account_failure_key p name, login_account_limit)]"

fun blocked_scopes :: "(string \<times> nat) list \<Rightarrow> int \<Rightarrow> int option \<Rightarrow> auth_sys \<Rightarrow> int option \<times> auth_sys" where
  "blocked_scopes [] now retry s = (retry, s)"
| "blocked_scopes ((key, limit) # ks) now retry s =
     (case active_login_failure key now (as_failures s) of
        (f, m) \<Rightarrow> blocked_scopes ks now
          (case f of
             Some f \<Rightarrow> (case lf_blocked_until f of
                Some t \<Rightarrow> if now < t \<and> (case retry of None \<Rightarrow> True | Some r \<Rightarrow> r < t) then Some t else retry
              | None \<Rightarrow> retry)
           | None \<Rightarrow> retry) (s\<lparr>as_failures := m\<rparr>))"

definition login_blocked_until :: "(string \<times> nat) list \<Rightarrow> int \<Rightarrow> auth_sys \<Rightarrow> int option \<times> auth_sys" where
  "login_blocked_until scopes now s = blocked_scopes scopes now None (cleanup_login_failures now s)"

definition count_failure :: "nat \<Rightarrow> int \<Rightarrow> login_failure \<Rightarrow> login_failure" where
  "count_failure limit now f =
     (let f = f\<lparr>lf_count := Suc (lf_count f), lf_last_attempt := now\<rparr>
      in if lf_count f \<ge> limit then f\<lparr>lf_blocked_until := Some (now + login_failure_block)\<rparr> else f)"

fun record_login_failure :: "(string \<times> nat) list \<Rightarrow> int \<Rightarrow> auth_sys \<Rightarrow> auth_sys" where
  "record_login_failure [] now s = s"
| "record_login_failure ((key, limit) # ks) now s =
     (case active_login_failure key now (as_failures s) of
        (Some f, m) \<Rightarrow> record_login_failure ks now (s\<lparr>as_failures := aput key (count_failure limit now f) m\<rparr>)
      | (None, m) \<Rightarrow>
          let s = make_failure_capacity now (s\<lparr>as_failures := m\<rparr>);
              f = \<lparr> lf_count = 0, lf_window_start = now, lf_blocked_until = None, lf_last_attempt = 0 \<rparr>
          in record_login_failure ks now (s\<lparr>as_failures := aput key (count_failure limit now f) (as_failures s)\<rparr>))"

subsection \<open>Sessions\<close>

text \<open>A principal is the user, the permissions and the CSRF token.\<close>

type_synonym principal = "auth_user \<times> string list \<times> string"

fun collect_permissions :: "(string \<times> auth_role) list \<Rightarrow> string list \<Rightarrow> string list \<Rightarrow> auth_error + string list" where
  "collect_permissions roles [] ps = Inr ps"
| "collect_permissions roles (i # ids) ps =
     (case aget roles i of
        None \<Rightarrow> Inl (UnknownRole i)
      | Some r \<Rightarrow> collect_permissions roles ids (ps @ ro_permissions r @ (if i = admin_role then all_permission_ids else [])))"

definition principal_of :: "(string \<times> auth_role) list \<Rightarrow> auth_user \<Rightarrow> string \<Rightarrow> auth_error + principal" where
  "principal_of roles u csrf =
     (case collect_permissions roles (usr_roles u) [] of
        Inl e \<Rightarrow> Inl e
      | Inr ps \<Rightarrow> Inr (u, sort (remdups ps), csrf))"

definition has_permission :: "principal \<Rightarrow> string \<Rightarrow> bool" where
  "has_permission pr x \<longleftrightarrow> x \<in> set (fst (snd pr))"

definition put_session :: "string \<Rightarrow> auth_session \<Rightarrow> auth_sys \<Rightarrow> auth_sys" where
  "put_session h ses s = s\<lparr>as_disk := (as_disk s)\<lparr>ad_sessions := aput h ses (ad_sessions (as_disk s))\<rparr>\<rparr>"

definition drop_session :: "string \<Rightarrow> auth_sys \<Rightarrow> auth_sys" where
  "drop_session h s = s\<lparr>as_disk := (as_disk s)\<lparr>ad_sessions := adel h (ad_sessions (as_disk s))\<rparr>\<rparr>"

definition create_session :: "auth_params \<Rightarrow> auth_env \<Rightarrow> nat \<Rightarrow> auth_user \<Rightarrow> auth_sys \<Rightarrow> (auth_error + string \<times> principal) \<times> auth_sys" where
  "create_session p env n u s =
     (case ae_tokens env of
        None \<Rightarrow> (Inl TokenFailed, s)
      | Some (token, csrf) \<Rightarrow>
          if \<not> ae_save env n then (Inl WriteFailed, s)
          else let h = ap_token_hash p token;
                   s = put_session h \<lparr> ses_user = usr_id u, ses_csrf = csrf, ses_created_at = ae_now env \<rparr> s
               in case principal_of (as_roles s) u csrf of
                    Inl e \<Rightarrow> (Inl e, if ae_drop env h then drop_session h s else s)
                  | Inr pr \<Rightarrow> (Inr (token, pr), s))"

definition authenticate :: "auth_params \<Rightarrow> string \<Rightarrow> auth_sys \<Rightarrow> auth_error + principal" where
  "authenticate p token s =
     (case require_ready s of
        Some e \<Rightarrow> Inl e
      | None \<Rightarrow>
          if token = [] then Inl Unauthorized
          else (case aget (ad_sessions (as_disk s)) (ap_token_hash p token) of
                  None \<Rightarrow> Inl Unauthorized
                | Some ses \<Rightarrow>
                    (case aget (as_users s) (ses_user ses) of
                       None \<Rightarrow> Inl Unauthorized
                     | Some u \<Rightarrow> if usr_status u \<noteq> status_active then Inl Unauthorized else principal_of (as_roles s) u (ses_csrf ses))))"

definition logout :: "auth_params \<Rightarrow> auth_env \<Rightarrow> string \<Rightarrow> auth_sys \<Rightarrow> auth_error option \<times> auth_sys" where
  "logout p env token s =
     (if token = [] then (None, s)
      else let h = ap_token_hash p token
           in if ae_drop env h then (None, drop_session h s) else (Some WriteFailed, s))"

definition revoke_user_sessions :: "auth_env \<Rightarrow> string \<Rightarrow> auth_sys \<Rightarrow> bool \<times> auth_sys" where
  "revoke_user_sessions env i s =
     (if \<not> ae_listed env then (False, s)
      else let own = map fst (filter (\<lambda>(h, ses). ses_user ses = i) (ad_sessions (as_disk s)))
           in (list_all (ae_drop env) own, fold drop_session (filter (ae_drop env) own) s))"

subsection \<open>Accounts\<close>

definition write_user :: "auth_user \<Rightarrow> auth_sys \<Rightarrow> auth_sys" where
  "write_user u s = s\<lparr>as_disk := (as_disk s)\<lparr>ad_users := aput (usr_id u) u (ad_users (as_disk s))\<rparr>\<rparr>"

definition write_role :: "auth_role \<Rightarrow> auth_sys \<Rightarrow> auth_sys" where
  "write_role r s = s\<lparr>as_disk := (as_disk s)\<lparr>ad_roles := aput (ro_id r) r (ad_roles (as_disk s))\<rparr>\<rparr>"

text \<open>The file first, then the map.\<close>

definition store_user :: "auth_user \<Rightarrow> auth_sys \<Rightarrow> auth_sys" where
  "store_user u s = (write_user u s)\<lparr>as_users := aput (usr_id u) u (as_users s)\<rparr>"

definition store_role :: "auth_role \<Rightarrow> auth_sys \<Rightarrow> auth_sys" where
  "store_role r s = (write_role r s)\<lparr>as_roles := aput (ro_id r) r (as_roles s)\<rparr>"

definition touched :: "auth_env \<Rightarrow> string \<Rightarrow> auth_user \<Rightarrow> auth_user" where
  "touched env actor u = u\<lparr>usr_version := usr_version u + 1, usr_updated_at := ae_now env, usr_updated_by := actor\<rparr>"

fun store_built_ins :: "auth_env \<Rightarrow> nat \<Rightarrow> auth_role list \<Rightarrow> auth_sys \<Rightarrow> bool \<times> auth_sys" where
  "store_built_ins env n [] s = (True, s)"
| "store_built_ins env n (r # rs) s = (if ae_save env n then store_built_ins env (Suc n) rs (store_role r s) else (False, s))"

definition initialize :: "auth_params \<Rightarrow> auth_env \<Rightarrow> string \<Rightarrow> string \<Rightarrow> string \<Rightarrow> string \<Rightarrow> auth_sys \<Rightarrow> (auth_error + string \<times> principal) \<times> auth_sys" where
  "initialize p env name display password confirm s =
     (if as_state s \<noteq> AuthUninitialized then (Inl StateConflict, s)
      else if password \<noteq> confirm then (Inl ConfirmationDiffers, s)
      else case normalize_username p name of
        Inl e \<Rightarrow> (Inl e, s)
      | Inr name \<Rightarrow>
          (case validate_password p password of
             Some e \<Rightarrow> (Inl e, s)
           | None \<Rightarrow>
               (case ae_hash env password of
                  None \<Rightarrow> (Inl HashFailed, s)
                | Some hash \<Rightarrow>
                    (case store_built_ins env 0 (built_in_roles (ae_now env)) s of
                       (False, s) \<Rightarrow> (Inl WriteFailed, s)
                     | (True, s) \<Rightarrow>
                         let u = \<lparr> usr_id = ''user-'' @ ae_uuid env, usr_name = name, usr_display = display_name display name, usr_hash = hash,
                                   usr_roles = [admin_role], usr_status = status_active, usr_must_change = False, usr_version = 1,
                                   usr_created_at = ae_now env, usr_updated_at = ae_now env, usr_created_by = ''system'', usr_updated_by = ''system'' \<rparr>
                         in if \<not> ae_save env 3 then (Inl WriteFailed, s)
                            else let s = write_user u s
                                 in if \<not> ae_save env 4 then (Inl WriteFailed, s)
                                    else create_session p env 5 u
                                      (s\<lparr>as_disk := (as_disk s)\<lparr>ad_system := Some (1, True)\<rparr>, as_users := aput (usr_id u) u (as_users s),
                                         as_state := AuthReady\<rparr>)))))"

definition login :: "auth_params \<Rightarrow> auth_env \<Rightarrow> string \<Rightarrow> string \<Rightarrow> string \<Rightarrow> auth_sys \<Rightarrow> (auth_error + string \<times> principal) \<times> auth_sys" where
  "login p env name password source s =
     (case require_ready s of
        Some e \<Rightarrow> (Inl e, s)
      | None \<Rightarrow>
          let name = ap_lower p (trim_space name);
              scopes = login_failure_scopes p name source
          in case login_blocked_until scopes (ae_now env) s of
               (Some t, s) \<Rightarrow> (Inl (RateLimited t), s)
             | (None, s) \<Rightarrow>
                 (case find (\<lambda>u. usr_name u = name) (map snd (as_users s)) of
                    None \<Rightarrow> (Inl InvalidCredentials, record_login_failure scopes (ae_now env) s)
                  | Some u \<Rightarrow>
                      if \<not> ap_password_ok p (usr_hash u) password then (Inl InvalidCredentials, record_login_failure scopes (ae_now env) s)
                      else if usr_status u \<noteq> status_active then (Inl UserDisabled, record_login_failure scopes (ae_now env) s)
                      else create_session p env 0 u (s\<lparr>as_failures := adel (account_failure_key p name) (as_failures s)\<rparr>)))"

definition create_user :: "auth_params \<Rightarrow> auth_env \<Rightarrow> string \<Rightarrow> string \<Rightarrow> string \<Rightarrow> string list \<Rightarrow> string \<Rightarrow> auth_sys \<Rightarrow> (auth_error + auth_user) \<times> auth_sys" where
  "create_user p env name display password roles actor s =
     (case require_ready s of
        Some e \<Rightarrow> (Inl e, s)
      | None \<Rightarrow>
          (case normalize_username p name of
             Inl e \<Rightarrow> (Inl e, s)
           | Inr name \<Rightarrow>
               if username_exists (as_users s) name [] then (Inl UsernameTaken, s)
               else case validate_password p password of
                 Some e \<Rightarrow> (Inl e, s)
               | None \<Rightarrow>
                   let roles = (if roles = [] then [member_role] else roles)
                   in case validate_role_ids (as_roles s) roles of
                        Some e \<Rightarrow> (Inl e, s)
                      | None \<Rightarrow>
                          (case ae_hash env password of
                             None \<Rightarrow> (Inl HashFailed, s)
                           | Some hash \<Rightarrow>
                               let u = \<lparr> usr_id = ''user-'' @ ae_uuid env, usr_name = name, usr_display = display_name display name, usr_hash = hash,
                                         usr_roles = unique_sorted roles, usr_status = status_active, usr_must_change = True, usr_version = 1,
                                         usr_created_at = ae_now env, usr_updated_at = ae_now env, usr_created_by = actor, usr_updated_by = actor \<rparr>
                               in if ae_save env 0 then (Inr u, store_user u s) else (Inl WriteFailed, s))))"

record user_update =
  uu_version :: int
  uu_name :: "string option"
  uu_display :: "string option"
  uu_roles :: "string list option"
  uu_status :: "string option"

text \<open>The changes of a request, one after the other.\<close>

definition changed_name :: "auth_params \<Rightarrow> auth_sys \<Rightarrow> user_update \<Rightarrow> auth_user \<Rightarrow> auth_error + auth_user" where
  "changed_name p s req u =
     (case uu_name req of
        None \<Rightarrow> Inr u
      | Some name \<Rightarrow>
          (case normalize_username p name of
             Inl e \<Rightarrow> Inl e
           | Inr name \<Rightarrow> if username_exists (as_users s) name (usr_id u) then Inl UsernameTaken else Inr (u\<lparr>usr_name := name\<rparr>)))"

definition changed_roles :: "auth_sys \<Rightarrow> user_update \<Rightarrow> auth_user \<Rightarrow> auth_error + auth_user" where
  "changed_roles s req n =
     (case uu_roles req of
        None \<Rightarrow> Inr n
      | Some ids \<Rightarrow>
          if ids = [] then Inl NoRolesGiven
          else (case validate_role_ids (as_roles s) ids of Some e \<Rightarrow> Inl e | None \<Rightarrow> Inr (n\<lparr>usr_roles := unique_sorted ids\<rparr>)))"

definition changed_status :: "user_update \<Rightarrow> auth_user \<Rightarrow> auth_error + auth_user" where
  "changed_status req n =
     (case uu_status req of
        None \<Rightarrow> Inr n
      | Some st \<Rightarrow> if valid_status st then Inr (n\<lparr>usr_status := st\<rparr>) else Inl (UnknownStatus st))"

definition apply_user_update :: "auth_params \<Rightarrow> auth_sys \<Rightarrow> user_update \<Rightarrow> auth_user \<Rightarrow> auth_error + auth_user" where
  "apply_user_update p s req u =
     (case changed_name p s req u of
        Inl e \<Rightarrow> Inl e
      | Inr n \<Rightarrow>
          (case changed_roles s req (case uu_display req of None \<Rightarrow> n | Some d \<Rightarrow> n\<lparr>usr_display := display_name d (usr_name u)\<rparr>) of
             Inl e \<Rightarrow> Inl e
           | Inr n \<Rightarrow> changed_status req n))"

definition update_user :: "auth_params \<Rightarrow> auth_env \<Rightarrow> string \<Rightarrow> user_update \<Rightarrow> string \<Rightarrow> auth_sys \<Rightarrow> (auth_error + auth_user) \<times> auth_sys" where
  "update_user p env i req actor s =
     (case aget (as_users s) i of
        None \<Rightarrow> (Inl RecordNotFound, s)
      | Some u \<Rightarrow>
          if usr_status u = status_deleted then (Inl UserDeleted, s)
          else if uu_version req \<noteq> usr_version u then (Inl VersionConflict, s)
          else case apply_user_update p s req u of
            Inl e \<Rightarrow> (Inl e, s)
          | Inr n \<Rightarrow>
              if \<not> has_active_admin_after (as_users s) n then (Inl LastAdministrator, s)
              else let n = touched env actor n
                   in if \<not> ae_save env 0 then (Inl WriteFailed, s)
                      else let s = store_user n s
                           in if usr_status n = status_active then (Inr n, s)
                              else (case revoke_user_sessions env i s of (ok, s) \<Rightarrow> (if ok then Inr n else Inl RevokeFailed, s)))"

definition delete_user :: "auth_env \<Rightarrow> string \<Rightarrow> int \<Rightarrow> string \<Rightarrow> auth_sys \<Rightarrow> (auth_error + auth_user) \<times> auth_sys" where
  "delete_user env i version actor s =
     (case aget (as_users s) i of
        None \<Rightarrow> (Inl RecordNotFound, s)
      | Some u \<Rightarrow>
          if usr_status u = status_deleted then (Inl UserDeleted, s)
          else if version \<noteq> usr_version u then (Inl VersionConflict, s)
          else let n = u\<lparr>usr_status := status_deleted, usr_roles := []\<rparr>
               in if \<not> has_active_admin_after (as_users s) n then (Inl LastAdministrator, s)
                  else let n = touched env actor n
                       in if \<not> ae_save env 0 then (Inl WriteFailed, s)
                          else case revoke_user_sessions env i (store_user n s) of
                            (ok, s) \<Rightarrow> (if ok then Inr n else Inl RevokeFailed, s))"

definition reset_password :: "auth_params \<Rightarrow> auth_env \<Rightarrow> string \<Rightarrow> int \<Rightarrow> string \<Rightarrow> string \<Rightarrow> auth_sys \<Rightarrow> (auth_error + auth_user) \<times> auth_sys" where
  "reset_password p env i version password actor s =
     (case validate_password p password of
        Some e \<Rightarrow> (Inl e, s)
      | None \<Rightarrow>
          (case aget (as_users s) i of
             None \<Rightarrow> (Inl RecordNotFound, s)
           | Some u \<Rightarrow>
               if usr_status u = status_deleted then (Inl UserDeleted, s)
               else if version \<noteq> usr_version u then (Inl VersionConflict, s)
               else case ae_hash env password of
                 None \<Rightarrow> (Inl HashFailed, s)
               | Some hash \<Rightarrow>
                   let n = touched env actor (u\<lparr>usr_hash := hash, usr_must_change := True\<rparr>)
                   in if \<not> ae_save env 0 then (Inl WriteFailed, s)
                      else case revoke_user_sessions env i (store_user n s) of
                        (ok, s) \<Rightarrow> (if ok then Inr n else Inl RevokeFailed, s)))"

definition update_profile :: "auth_env \<Rightarrow> string \<Rightarrow> string \<Rightarrow> string \<Rightarrow> auth_sys \<Rightarrow> (auth_error + auth_user) \<times> auth_sys" where
  "update_profile env i display actor s =
     (case aget (as_users s) i of
        None \<Rightarrow> (Inl RecordNotFound, s)
      | Some u \<Rightarrow>
          let n = touched env actor (u\<lparr>usr_display := display_name display (usr_name u)\<rparr>)
          in if ae_save env 0 then (Inr n, store_user n s) else (Inl WriteFailed, s))"

definition change_password :: "auth_params \<Rightarrow> auth_env \<Rightarrow> string \<Rightarrow> string \<Rightarrow> string \<Rightarrow> auth_sys \<Rightarrow> (auth_error + string \<times> principal) \<times> auth_sys" where
  "change_password p env i current password s =
     (case aget (as_users s) i of
        None \<Rightarrow> (Inl RecordNotFound, s)
      | Some u \<Rightarrow>
          if \<not> ap_password_ok p (usr_hash u) current then (Inl InvalidCredentials, s)
          else case validate_password p password of
            Some e \<Rightarrow> (Inl e, s)
          | None \<Rightarrow>
              (case ae_hash env password of
                 None \<Rightarrow> (Inl HashFailed, s)
               | Some hash \<Rightarrow>
                   let n = touched env i (u\<lparr>usr_hash := hash, usr_must_change := False\<rparr>)
                   in if \<not> ae_save env 0 then (Inl WriteFailed, s)
                      else case revoke_user_sessions env i (store_user n s) of
                        (ok, s) \<Rightarrow> if ok then create_session p env 1 n s else (Inl RevokeFailed, s)))"

subsection \<open>Roles\<close>

definition create_role :: "auth_params \<Rightarrow> auth_env \<Rightarrow> string \<Rightarrow> string \<Rightarrow> string list \<Rightarrow> string \<Rightarrow> auth_sys \<Rightarrow> (auth_error + auth_role) \<times> auth_sys" where
  "create_role p env name description perms actor s =
     (let name = trim_space name
      in if name = [] then (Inl RoleNameMissing, s)
         else if role_name_exists p (as_roles s) name [] then (Inl RoleNameTaken, s)
         else case validate_permissions perms of
           Inl e \<Rightarrow> (Inl e, s)
         | Inr ps \<Rightarrow>
             let r = \<lparr> ro_id = ''role-'' @ ae_uuid env, ro_name = name, ro_description = trim_space description, ro_permissions = ps, ro_built_in = False,
                       ro_version = 1, ro_created_at = ae_now env, ro_updated_at = ae_now env, ro_created_by = actor, ro_updated_by = actor \<rparr>
             in if ae_save env 0 then (Inr r, store_role r s) else (Inl WriteFailed, s))"

definition update_role :: "auth_params \<Rightarrow> auth_env \<Rightarrow> string \<Rightarrow> int \<Rightarrow> string \<Rightarrow> string \<Rightarrow> string list \<Rightarrow> string \<Rightarrow> auth_sys \<Rightarrow> (auth_error + auth_role) \<times> auth_sys" where
  "update_role p env i version name description perms actor s =
     (case aget (as_roles s) i of
        None \<Rightarrow> (Inl RecordNotFound, s)
      | Some r \<Rightarrow>
          if ro_built_in r then (Inl RoleBuiltIn, s)
          else if version \<noteq> ro_version r then (Inl VersionConflict, s)
          else let name = trim_space name
               in if name = [] then (Inl RoleNameMissing, s)
                  else if role_name_exists p (as_roles s) name i then (Inl RoleNameTaken, s)
                  else case validate_permissions perms of
                    Inl e \<Rightarrow> (Inl e, s)
                  | Inr ps \<Rightarrow>
                      let n = r\<lparr>ro_name := name, ro_description := trim_space description, ro_permissions := ps, ro_version := ro_version r + 1,
                                ro_updated_at := ae_now env, ro_updated_by := actor\<rparr>
                      in if ae_save env 0 then (Inr n, store_role n s) else (Inl WriteFailed, s))"

definition delete_role :: "auth_env \<Rightarrow> string \<Rightarrow> int \<Rightarrow> auth_sys \<Rightarrow> auth_error option \<times> auth_sys" where
  "delete_role env i version s =
     (case aget (as_roles s) i of
        None \<Rightarrow> (Some RecordNotFound, s)
      | Some r \<Rightarrow>
          if ro_built_in r then (Some RoleBuiltIn, s)
          else if version \<noteq> ro_version r then (Some VersionConflict, s)
          else case find (\<lambda>u. i \<in> set (usr_roles u)) (map snd (as_users s)) of
            Some u \<Rightarrow> (Some (RoleAssigned (usr_name u)), s)
          | None \<Rightarrow>
              if ae_save env 0
              then (None, s\<lparr>as_roles := adel i (as_roles s), as_disk := (as_disk s)\<lparr>ad_roles := adel i (ad_roles (as_disk s))\<rparr>\<rparr>)
              else (Some WriteFailed, s))"

subsection \<open>The machine\<close>

datatype auth_op =
    AInitialize string string string string
  | ALogin string string string
  | ALogout string
  | ACreateUser string string string "string list" string
  | AUpdateUser string user_update string
  | ADeleteUser string int string
  | AResetPassword string int string string
  | AUpdateProfile string string string
  | AChangePassword string string string
  | ACreateRole string string "string list" string
  | AUpdateRole string int string string "string list" string
  | ADeleteRole string int
  | ARestart

text \<open>Every handler but those of the first two operations is reached only by a request that \<open>authenticate\<close> has let through, and
  so only when the service is ready.\<close>

fun for_principal :: "auth_op \<Rightarrow> bool" where
  "for_principal (AInitialize n d pw c) = False"
| "for_principal (ALogin n pw src) = False"
| "for_principal ARestart = False"
| "for_principal _ = True"

definition exec_auth :: "auth_params \<Rightarrow> auth_env \<times> auth_op \<Rightarrow> auth_sys \<Rightarrow> auth_sys" where
  "exec_auth p eop s =
     (case eop of (env, op) \<Rightarrow>
        if for_principal op \<and> as_state s \<noteq> AuthReady then s
        else case op of
          AInitialize n d pw c \<Rightarrow> snd (initialize p env n d pw c s)
        | ALogin n pw src \<Rightarrow> snd (login p env n pw src s)
        | ALogout t \<Rightarrow> snd (logout p env t s)
        | ACreateUser n d pw rs a \<Rightarrow> snd (create_user p env n d pw rs a s)
        | AUpdateUser i req a \<Rightarrow> snd (update_user p env i req a s)
        | ADeleteUser i v a \<Rightarrow> snd (delete_user env i v a s)
        | AResetPassword i v pw a \<Rightarrow> snd (reset_password p env i v pw a s)
        | AUpdateProfile i d a \<Rightarrow> snd (update_profile env i d a s)
        | AChangePassword i cur pw \<Rightarrow> snd (change_password p env i cur pw s)
        | ACreateRole n d ps a \<Rightarrow> snd (create_role p env n d ps a s)
        | AUpdateRole i v n d ps a \<Rightarrow> snd (update_role p env i v n d ps a s)
        | ADeleteRole i v \<Rightarrow> snd (delete_role env i v s)
        | ARestart \<Rightarrow> load_auth p (as_disk s))"

definition empty_disk :: auth_disk where
  "empty_disk = \<lparr> ad_system = None, ad_users = [], ad_roles = [], ad_sessions = [] \<rparr>"

end
