(* ===== verification/AuthSafe.thy ===== *)
theory AuthSafe
  imports Auth
begin

section \<open>What every operation on the accounts keeps\<close>

text \<open>
  The invariant of the service: identifiers and files agree, roles hold known permissions together with those
  they depend on, and while the service is ready an active administrator exists, user names are unique, every role
  of a user exists and the built-in roles are there. Every operation keeps it, whichever of its writes fail, and a
  start of the process from whatever is on disk.
\<close>

subsection \<open>What is kept in memory and on disk\<close>

definition permissions_ok :: "string list \<Rightarrow> bool" where
  "permissions_ok ps \<longleftrightarrow> set ps \<subseteq> set permission_ids \<and> missing_dependencies ps = []"

definition tidy :: "auth_user \<Rightarrow> bool" where
  "tidy u \<longleftrightarrow> (\<forall>x \<in> set (usr_roles u). x \<noteq> [] \<and> trim_space x = x)"

text \<open>The identifiers given out so far are made of the fresh strings in \<open>used\<close>.\<close>

definition minted :: "string set \<Rightarrow> string \<Rightarrow> bool" where
  "minted used i \<longleftrightarrow> (\<exists>x \<in> used. i = ''user-'' @ x)"

definition users_ok :: "string set \<Rightarrow> (string \<times> auth_user) list \<Rightarrow> bool" where
  "users_ok used us \<longleftrightarrow> distinct (akeys us) \<and> (\<forall>i u. aget us i = Some u \<longrightarrow> usr_id u = i \<and> tidy u \<and> minted used i)"

definition roles_ok :: "(string \<times> auth_role) list \<Rightarrow> bool" where
  "roles_ok rs \<longleftrightarrow> distinct (akeys rs) \<and> (\<forall>i r. aget rs i = Some r \<longrightarrow> ro_id r = i \<and> permissions_ok (ro_permissions r))"

definition built_ins_present :: "(string \<times> auth_role) list \<Rightarrow> bool" where
  "built_ins_present rs \<longleftrightarrow> (\<forall>i \<in> {admin_role, member_role, viewer_role}. \<exists>r. aget rs i = Some r \<and> ro_built_in r)"

definition assignments_ok :: "(string \<times> auth_role) list \<Rightarrow> (string \<times> auth_user) list \<Rightarrow> bool" where
  "assignments_ok rs us \<longleftrightarrow> (\<forall>i u x. aget us i = Some u \<longrightarrow> usr_status u \<noteq> status_deleted \<longrightarrow> x \<in> set (usr_roles u) \<longrightarrow> ahas rs x)"

definition names_unique :: "(string \<times> auth_user) list \<Rightarrow> bool" where
  "names_unique us \<longleftrightarrow> (\<forall>i j u v. aget us i = Some u \<longrightarrow> aget us j = Some v \<longrightarrow> usr_name u = usr_name v \<longrightarrow> i = j)"

definition has_admin :: "(string \<times> auth_user) list \<Rightarrow> bool" where
  "has_admin us \<longleftrightarrow> (\<exists>i u. aget us i = Some u \<and> is_active_admin u)"

definition accounts_ok :: "(string \<times> auth_role) list \<Rightarrow> (string \<times> auth_user) list \<Rightarrow> bool" where
  "accounts_ok rs us \<longleftrightarrow> built_ins_present rs \<and> assignments_ok rs us \<and> names_unique us \<and> has_admin us"

definition auth_ok :: "string set \<Rightarrow> auth_sys \<Rightarrow> bool" where
  "auth_ok used s \<longleftrightarrow> users_ok used (as_users s) \<and> users_ok used (ad_users (as_disk s)) \<and> roles_ok (as_roles s) \<and> roles_ok (ad_roles (as_disk s))
     \<and> (as_state s = AuthReady \<longrightarrow> accounts_ok (as_roles s) (as_users s)) \<and> (as_state s = AuthUninitialized \<longrightarrow> as_users s = [])"

lemma minted_more: "minted used i \<Longrightarrow> minted (insert x used) i"
  by (auto simp: minted_def)

lemma minted_new [simp]: "minted (insert x used) (''user-'' @ x)"
  unfolding minted_def by blast

lemma minted_fresh: "minted used (''user-'' @ x) \<Longrightarrow> x \<in> used"
  unfolding minted_def by auto

lemma aget_mem: "distinct (akeys m) \<Longrightarrow> (k, v) \<in> set m \<longleftrightarrow> aget m k = Some v"
  by (simp add: akeys_def)

lemma list_ex_aget: "distinct (akeys m) \<Longrightarrow> list_ex (\<lambda>(i, v). P i v) m \<longleftrightarrow> (\<exists>i v. aget m i = Some v \<and> P i v)"
  unfolding list_ex_iff by (auto simp: aget_mem) blast

lemma users_ok_keys: "users_ok used us \<Longrightarrow> distinct (akeys us)"
  by (simp add: users_ok_def)

lemma users_ok_id: "users_ok used us \<Longrightarrow> aget us i = Some u \<Longrightarrow> usr_id u = i \<and> tidy u \<and> minted used i"
  unfolding users_ok_def by blast

lemma roles_ok_id: "roles_ok rs \<Longrightarrow> aget rs i = Some r \<Longrightarrow> ro_id r = i \<and> permissions_ok (ro_permissions r)"
  unfolding roles_ok_def by blast

text \<open>Writing a record.\<close>

lemma users_ok_aput: "users_ok used us \<Longrightarrow> tidy u \<Longrightarrow> minted used (usr_id u) \<Longrightarrow> users_ok used (aput (usr_id u) u us)"
  unfolding users_ok_def by auto

lemma users_ok_more: "users_ok used us \<Longrightarrow> users_ok (insert x used) us"
  unfolding users_ok_def by (auto intro: minted_more)

lemma roles_ok_aput: "roles_ok rs \<Longrightarrow> permissions_ok (ro_permissions r) \<Longrightarrow> roles_ok (aput (ro_id r) r rs)"
  unfolding roles_ok_def by auto

lemma roles_ok_adel: "roles_ok rs \<Longrightarrow> roles_ok (adel i rs)"
  unfolding roles_ok_def by auto

text \<open>A user is changed, and an administrator stays.\<close>

lemma has_admin_after:
  assumes "users_ok used us" "aget us i = Some u" "usr_id n = i"
  shows "has_active_admin_after us n \<longleftrightarrow> has_admin (aput i n us)"
  using assms(2,3) unfolding has_active_admin_after_def has_admin_def list_ex_aget [OF users_ok_keys [OF assms(1)]]
  by (auto split: if_splits)

lemma username_taken:
  assumes "users_ok used us"
  shows "username_exists us name except \<longleftrightarrow> (\<exists>i u. aget us i = Some u \<and> i \<noteq> except \<and> usr_name u = name)"
  unfolding username_exists_def list_ex_aget [OF users_ok_keys [OF assms]] by simp

lemma names_unique_aput:
  assumes "users_ok used us" "names_unique us" "\<not> username_exists us (usr_name n) i"
  shows "names_unique (aput i n us)"
proof -
  have other: "usr_name u \<noteq> usr_name n" if "aget us k = Some u" "k \<noteq> i" for k u
    using assms(3) that unfolding username_taken [OF assms(1)] by blast
  have same: "k = l" if "aget us k = Some u" "aget us l = Some v" "usr_name u = usr_name v" for k l u v
    using assms(2) that unfolding names_unique_def by blast
  show ?thesis unfolding names_unique_def using other same by (auto split: if_splits) metis+
qed

lemma names_unique_same:
  assumes "names_unique us" "aget us i = Some u" "usr_name n = usr_name u" shows "names_unique (aput i n us)"
  using assms unfolding names_unique_def by (auto split: if_splits)

lemma assignments_aput:
  assumes "assignments_ok rs us" "usr_status n \<noteq> status_deleted \<longrightarrow> (\<forall>x \<in> set (usr_roles n). ahas rs x)"
  shows "assignments_ok rs (aput i n us)"
  using assms unfolding assignments_ok_def by auto

lemma assignments_roles: "assignments_ok rs us \<Longrightarrow> assignments_ok (aput i r rs) us"
  unfolding assignments_ok_def by auto

lemma built_ins_roles: "built_ins_present rs \<Longrightarrow> i \<notin> {admin_role, member_role, viewer_role} \<Longrightarrow> built_ins_present (aput i r rs)"
  unfolding built_ins_present_def by auto

subsection \<open>Checked values\<close>

lemma unique_sorted_set: "set (unique_sorted xs) = trim_space ` set xs - {[]}"
  by (auto simp: unique_sorted_def)

lemma validate_permissions_ok: "validate_permissions xs = Inr ps \<Longrightarrow> permissions_ok ps"
  by (auto simp: validate_permissions_def permissions_ok_def Let_def find_None_iff split: option.splits if_splits)

lemma validate_role_ids_ok: "validate_role_ids rs ids = None \<Longrightarrow> x \<in> set (unique_sorted ids) \<Longrightarrow> ahas rs x"
  by (auto simp: validate_role_ids_def find_None_iff)

lemma built_in_perms:
  "permissions_ok all_permission_ids" "permissions_ok member_permissions" "permissions_ok viewer_permissions"
  by code_simp+

lemma trim_left_done: "find (\<lambda>e. prefix e (trim_left s)) space_encodings = None"
  by (induction s rule: trim_left.induct) (subst trim_left.simps, auto split: option.split)

lemma trim_right_done: "find (\<lambda>e. suffix e (trim_right s)) space_encodings = None"
  by (induction s rule: trim_right.induct) (subst trim_right.simps, auto split: option.split)

lemma trim_right_prefix: "prefix (trim_right s) s"
proof (induction s rule: trim_right.induct)
  case (1 s)
  show ?case
  proof (cases "find (\<lambda>e. suffix e s) space_encodings")
    case None then show ?thesis by (subst trim_right.simps) simp
  next
    case (Some e)
    then have "prefix (trim_right (take (length s - length e) s)) s" using 1 take_is_prefix prefix_order.trans by blast
    then show ?thesis by (subst trim_right.simps) (simp add: Some)
  qed
qed

lemma trim_space_idem [simp]: "trim_space (trim_space s) = trim_space s"
proof -
  let ?t = "trim_right (trim_left s)"
  have "find (\<lambda>e. prefix e ?t) space_encodings = None"
    using trim_left_done [of s] prefix_order.trans [OF _ trim_right_prefix] unfolding find_None_iff by blast
  then have "trim_left ?t = ?t" by (subst trim_left.simps) simp
  moreover have "trim_right ?t = ?t" using trim_right_done [of "trim_left s"] by (subst trim_right.simps) simp
  ultimately show ?thesis by (simp add: trim_space_def)
qed

subsection \<open>What the invariant does not look at\<close>

lemma auth_ok_fields [simp]:
  "auth_ok used (s\<lparr>as_failures := a\<rparr>) = auth_ok used s" "auth_ok used (s\<lparr>as_cleanup_at := b\<rparr>) = auth_ok used s"
  "auth_ok used (put_session h x s) = auth_ok used s" "auth_ok used (drop_session h s) = auth_ok used s"
  by (simp_all add: auth_ok_def put_session_def drop_session_def)

lemma auth_ok_drop_all [simp]: "auth_ok used (fold drop_session hs s) = auth_ok used s"
  by (induction hs arbitrary: s) simp_all

lemma auth_ok_revoke [simp]: "auth_ok used (snd (revoke_user_sessions env i s)) = auth_ok used s"
  by (simp add: revoke_user_sessions_def Let_def)

lemma auth_ok_session [simp]: "auth_ok used (snd (create_session p env n u s)) = auth_ok used s"
  by (auto simp: create_session_def Let_def split: option.split sum.split)

lemma auth_ok_cleanup [simp]: "auth_ok used (cleanup_login_failures now s) = auth_ok used s"
  by (simp add: cleanup_login_failures_def)

lemma auth_ok_blocked [simp]: "auth_ok used (snd (blocked_scopes ks now r s)) = auth_ok used s"
  by (induction ks now r s rule: blocked_scopes.induct) (simp_all add: case_prod_beta)

lemma auth_ok_capacity [simp]: "auth_ok used (make_failure_capacity now s) = auth_ok used s"
  by (auto simp: make_failure_capacity_def Let_def split: option.split)

lemma auth_ok_record [simp]: "auth_ok used (record_login_failure ks now s) = auth_ok used s"
  by (induction ks now s rule: record_login_failure.induct) (auto simp: Let_def split: prod.split option.split)

lemma auth_ok_more: "auth_ok used s \<Longrightarrow> auth_ok (insert x used) s"
  unfolding auth_ok_def by (simp add: users_ok_more)

subsection \<open>Writing an account\<close>

lemma auth_ok_ready:
  assumes "auth_ok used s" "as_state s = AuthReady"
  shows "users_ok used (as_users s)" "roles_ok (as_roles s)" "built_ins_present (as_roles s)" "assignments_ok (as_roles s) (as_users s)"
    "names_unique (as_users s)" "has_admin (as_users s)"
  using assms by (simp_all add: auth_ok_def accounts_ok_def)

lemma store_user_ok:
  assumes "auth_ok used s" "as_state s = AuthReady" "tidy n" "minted used (usr_id n)"
    and "usr_status n \<noteq> status_deleted \<longrightarrow> (\<forall>x \<in> set (usr_roles n). ahas (as_roles s) x)"
    and "names_unique (aput (usr_id n) n (as_users s))" "has_admin (aput (usr_id n) n (as_users s))"
  shows "auth_ok used (store_user n s)"
proof -
  have "users_ok used (aput (usr_id n) n (as_users s))" "users_ok used (aput (usr_id n) n (ad_users (as_disk s)))"
    using assms(1,3,4) by (auto simp: auth_ok_def users_ok_aput)
  moreover have "accounts_ok (as_roles s) (aput (usr_id n) n (as_users s))"
    using assms auth_ok_ready [OF assms(1,2)] by (simp add: accounts_ok_def assignments_aput)
  ultimately show ?thesis using assms(1,2) by (simp add: auth_ok_def store_user_def write_user_def)
qed

text \<open>A change that leaves the name, the roles and the status alone.\<close>

lemma store_same_ok:
  assumes "auth_ok used s" "as_state s = AuthReady" "aget (as_users s) i = Some u" "usr_id n = usr_id u" "usr_name n = usr_name u"
    and "usr_roles n = usr_roles u" "usr_status n = usr_status u"
  shows "auth_ok used (store_user n s)"
proof -
  note ready = auth_ok_ready [OF assms(1,2)]
  have i: "usr_id u = i" "tidy u" "minted used i" using users_ok_id [OF ready(1) assms(3)] by auto
  obtain k v where admin: "aget (as_users s) k = Some v" "is_active_admin v" using ready(6) by (auto simp: has_admin_def)
  have "has_admin (aput i n (as_users s))"
  proof (cases "k = i")
    case True then show ?thesis using admin assms unfolding has_admin_def is_active_admin_def by (intro exI [of _ i] exI [of _ n]) auto
  next
    case False then show ?thesis using admin unfolding has_admin_def by (intro exI [of _ k] exI [of _ v]) auto
  qed
  moreover have "names_unique (aput i n (as_users s))" using names_unique_same [OF ready(5) assms(3,5)] .
  moreover have "usr_status n \<noteq> status_deleted \<longrightarrow> (\<forall>x \<in> set (usr_roles n). ahas (as_roles s) x)"
    using ready(4) assms(3,6,7) unfolding assignments_ok_def by auto
  moreover have "tidy n" using i(2) assms(6) by (simp add: tidy_def)
  ultimately show ?thesis using store_user_ok [OF assms(1,2)] i assms(4) by simp
qed

lemma touched_fields [simp]:
  "usr_id (touched env a u) = usr_id u" "usr_name (touched env a u) = usr_name u" "usr_roles (touched env a u) = usr_roles u"
  "usr_status (touched env a u) = usr_status u" "tidy (touched env a u) = tidy u" "is_active_admin (touched env a u) = is_active_admin u"
  by (simp_all add: touched_def tidy_def is_active_admin_def)

lemma changed_name_ok:
  assumes "users_ok used (as_users s)" "names_unique (as_users s)" "aget (as_users s) i = Some u" "changed_name p s req u = Inr n"
  shows "usr_id n = i \<and> usr_roles n = usr_roles u \<and> usr_status n = usr_status u \<and> names_unique (aput i n (as_users s))"
proof (cases "uu_name req")
  case None
  then show ?thesis using assms(4) users_ok_id [OF assms(1,3)] names_unique_same [OF assms(2,3), of n] by (simp add: changed_name_def)
next
  case (Some name)
  then obtain m where m: "n = u\<lparr>usr_name := m\<rparr>" "\<not> username_exists (as_users s) m (usr_id u)"
    using assms(4) by (auto simp: changed_name_def split: sum.splits if_splits)
  then show ?thesis using users_ok_id [OF assms(1,3)] names_unique_aput [OF assms(1,2), of n i] by simp
qed

lemma tidy_sorted: "tidy (n\<lparr>usr_roles := unique_sorted ids\<rparr>)"
  by (auto simp: tidy_def unique_sorted_set)

lemma changed_roles_ok:
  assumes "changed_roles s req m = Inr n" "tidy m" "\<forall>x \<in> set (usr_roles m). ahas (as_roles s) x"
  shows "usr_id n = usr_id m \<and> usr_name n = usr_name m \<and> tidy n \<and> (\<forall>x \<in> set (usr_roles n). ahas (as_roles s) x)"
proof (cases "uu_roles req")
  case None then show ?thesis using assms by (simp add: changed_roles_def)
next
  case (Some ids)
  then have "validate_role_ids (as_roles s) ids = None" "n = m\<lparr>usr_roles := unique_sorted ids\<rparr>"
    using assms(1) by (auto simp: changed_roles_def split: option.splits if_splits)
  then show ?thesis using validate_role_ids_ok [of "as_roles s" ids] tidy_sorted by simp
qed

lemma changed_status_ok:
  "changed_status req m = Inr n \<Longrightarrow> usr_id n = usr_id m \<and> usr_name n = usr_name m \<and> usr_roles n = usr_roles m"
  by (auto simp: changed_status_def split: option.splits if_splits)

lemma names_unique_cong: "usr_name n = usr_name m \<Longrightarrow> names_unique (aput i n us) = names_unique (aput i m us)"
  unfolding names_unique_def aget_aput by (auto split: if_splits)

lemma applied_update:
  assumes "auth_ok used s" "as_state s = AuthReady" "aget (as_users s) i = Some u" "usr_status u \<noteq> status_deleted" "apply_user_update p s req u = Inr n"
  shows "usr_id n = i \<and> tidy n \<and> (\<forall>x \<in> set (usr_roles n). ahas (as_roles s) x) \<and> names_unique (aput i n (as_users s))"
proof -
  note ready = auth_ok_ready [OF assms(1,2)]
  have i: "usr_id u = i" "tidy u" using users_ok_id [OF ready(1) assms(3)] by auto
  have roles: "\<forall>x \<in> set (usr_roles u). ahas (as_roles s) x" using ready(4) assms(3,4) unfolding assignments_ok_def by blast
  obtain n1 where n1: "changed_name p s req u = Inr n1" using assms(5)
    by (cases "changed_name p s req u") (simp_all add: apply_user_update_def)
  define n2 where "n2 = (case uu_display req of None \<Rightarrow> n1 | Some d \<Rightarrow> n1\<lparr>usr_display := display_name d (usr_name u)\<rparr>)"
  obtain n3 where n3: "changed_roles s req n2 = Inr n3" "changed_status req n3 = Inr n"
    using assms(5) n1 by (cases "changed_roles s req n2") (simp_all add: apply_user_update_def n2_def [symmetric])
  note one = changed_name_ok [OF ready(1,5) assms(3) n1]
  have two: "usr_id n2 = i" "usr_roles n2 = usr_roles u" "usr_name n2 = usr_name n1"
    using one by (simp_all add: n2_def split: option.split)
  have "tidy n2" using i(2) two(2) by (simp add: tidy_def)
  then have three: "usr_id n3 = i" "usr_name n3 = usr_name n1" "tidy n3" "\<forall>x \<in> set (usr_roles n3). ahas (as_roles s) x"
    using changed_roles_ok [OF n3(1)] roles two by simp_all
  have four: "usr_id n = i" "usr_name n = usr_name n1" "usr_roles n = usr_roles n3"
    using changed_status_ok [OF n3(2)] three(1,2) by simp_all
  have "names_unique (aput i n (as_users s))"
    using names_unique_cong [OF four(2)] one by blast
  moreover have "tidy n" using three(3) four(3) by (simp add: tidy_def)
  moreover have "\<forall>x \<in> set (usr_roles n). ahas (as_roles s) x" using three(4) unfolding four(3) .
  ultimately show ?thesis using four(1) by blast
qed

subsection \<open>Every operation\<close>

lemma update_user_ok:
  assumes "auth_ok used s" "as_state s = AuthReady" shows "auth_ok used (snd (update_user p env i req a s))"
proof (cases "aget (as_users s) i")
  case None then show ?thesis using assms(1) by (simp add: update_user_def)
next
  case (Some u)
  note ready = auth_ok_ready [OF assms]
  show ?thesis
  proof (cases "apply_user_update p s req u")
    case (Inl e) then show ?thesis using assms(1) by (simp add: update_user_def Some)
  next
    case (Inr n)
    have store: "auth_ok used (store_user (touched env a n) s)" if "usr_status u \<noteq> status_deleted" "has_active_admin_after (as_users s) n"
    proof (rule store_user_ok [OF assms])
      note upd = applied_update [OF assms Some that(1) Inr]
      then have same: "aput i (touched env a n) (as_users s) = aput (usr_id (touched env a n)) (touched env a n) (as_users s)" by simp
      show "tidy (touched env a n)" "minted used (usr_id (touched env a n))" using upd users_ok_id [OF ready(1) Some] by simp_all
      show "usr_status (touched env a n) \<noteq> status_deleted \<longrightarrow> (\<forall>x \<in> set (usr_roles (touched env a n)). ahas (as_roles s) x)"
        using upd by simp
      show "names_unique (aput (usr_id (touched env a n)) (touched env a n) (as_users s))"
        using upd names_unique_cong [of "touched env a n" n i] by simp
      have "has_admin (aput i (touched env a n) (as_users s)) = has_admin (aput i n (as_users s))"
        unfolding has_admin_def aget_aput by (auto split: if_splits)
      then show "has_admin (aput (usr_id (touched env a n)) (touched env a n) (as_users s))"
        using upd has_admin_after [OF ready(1) Some, of n] that(2) by simp
    qed
    have revoke: "auth_ok used t" if "revoke_user_sessions env i s' = (ok, t)" "auth_ok used s'" for ok t s'
      using auth_ok_revoke [of used env i s'] that by simp
    then show ?thesis using store assms(1) by (simp add: update_user_def Some Inr Let_def case_prod_beta)
  qed
qed

lemma delete_user_ok:
  assumes "auth_ok used s" "as_state s = AuthReady" shows "auth_ok used (snd (delete_user env i v a s))"
proof (cases "aget (as_users s) i")
  case None then show ?thesis using assms(1) by (simp add: delete_user_def)
next
  case (Some u)
  note ready = auth_ok_ready [OF assms]
  define n where "n = u\<lparr>usr_status := status_deleted, usr_roles := []\<rparr>"
  have n: "usr_id n = i" "usr_name n = usr_name u" "tidy n" "usr_status n = status_deleted"
    using users_ok_id [OF ready(1) Some] by (simp_all add: n_def tidy_def)
  have "auth_ok used (store_user (touched env a n) s)" if "has_active_admin_after (as_users s) n"
  proof (rule store_user_ok [OF assms])
    show "tidy (touched env a n)" "minted used (usr_id (touched env a n))" using n users_ok_id [OF ready(1) Some] by simp_all
    show "usr_status (touched env a n) \<noteq> status_deleted \<longrightarrow> (\<forall>x \<in> set (usr_roles (touched env a n)). ahas (as_roles s) x)"
      using n by simp
    show "names_unique (aput (usr_id (touched env a n)) (touched env a n) (as_users s))"
      using names_unique_same [OF ready(5) Some] n by simp
    have "has_admin (aput i (touched env a n) (as_users s)) = has_admin (aput i n (as_users s))"
      unfolding has_admin_def aget_aput by (auto split: if_splits)
    then show "has_admin (aput (usr_id (touched env a n)) (touched env a n) (as_users s))"
      using n has_admin_after [OF ready(1) Some n(1)] that by simp
  qed
  then show ?thesis using assms(1) by (simp add: delete_user_def Some n_def [symmetric] Let_def case_prod_beta)
qed

lemma reset_password_ok:
  assumes "auth_ok used s" "as_state s = AuthReady" shows "auth_ok used (snd (reset_password p env i v pw a s))"
proof (cases "aget (as_users s) i")
  case (Some u)
  have "auth_ok used (store_user (touched env a (u\<lparr>usr_hash := h, usr_must_change := True\<rparr>)) s)" for h
    by (rule store_same_ok [OF assms Some]) simp_all
  then show ?thesis using assms(1) by (simp add: reset_password_def Some Let_def case_prod_beta split: option.split)
qed (use assms(1) in \<open>simp add: reset_password_def split: option.split\<close>)

lemma update_profile_ok:
  assumes "auth_ok used s" "as_state s = AuthReady" shows "auth_ok used (snd (update_profile env i d a s))"
proof (cases "aget (as_users s) i")
  case (Some u)
  have "auth_ok used (store_user (touched env a (u\<lparr>usr_display := h\<rparr>)) s)" for h
    by (rule store_same_ok [OF assms Some]) simp_all
  then show ?thesis using assms(1) by (simp add: update_profile_def Some Let_def)
qed (use assms(1) in \<open>simp add: update_profile_def\<close>)

lemma change_password_ok:
  assumes "auth_ok used s" "as_state s = AuthReady" shows "auth_ok used (snd (change_password p env i cur pw s))"
proof (cases "aget (as_users s) i")
  case (Some u)
  have "auth_ok used (store_user (touched env i (u\<lparr>usr_hash := h, usr_must_change := False\<rparr>)) s)" for h
    by (rule store_same_ok [OF assms Some]) simp_all
  then show ?thesis using assms(1) by (simp add: change_password_def Some Let_def case_prod_beta split: option.split)
qed (use assms(1) in \<open>simp add: change_password_def\<close>)

lemma login_ok: "auth_ok used s \<Longrightarrow> auth_ok used (snd (login p env n pw src s))"
proof -
  assume ok: "auth_ok used s"
  have "auth_ok used t" if "login_blocked_until ks now s = (r, t)" for ks now r t
    using ok that auth_ok_blocked [of used ks now None "cleanup_login_failures now s"] by (simp add: login_blocked_until_def)
  then show ?thesis using ok by (auto simp: login_def Let_def split: option.split prod.split)
qed

lemma logout_ok: "auth_ok used (snd (logout p env t s)) = auth_ok used s"
  by (simp add: logout_def Let_def)

lemma create_user_ok:
  assumes "auth_ok used s" "as_state s = AuthReady" "ae_uuid env \<notin> used"
  shows "auth_ok (insert (ae_uuid env) used) (snd (create_user p env n d pw rs a s))"
proof -
  let ?used = "insert (ae_uuid env) used"
  note more = auth_ok_more [OF assms(1), of "ae_uuid env"]
  note ready = auth_ok_ready [OF assms(1,2)]
  have unused: "aget (as_users s) (''user-'' @ ae_uuid env) = None"
    using users_ok_id [OF ready(1)] minted_fresh assms(3) by (cases "aget (as_users s) (''user-'' @ ae_uuid env)") blast+
  have store: "auth_ok ?used (store_user u s)"
    if u: "usr_id u = ''user-'' @ ae_uuid env" "tidy u" "\<forall>x \<in> set (usr_roles u). ahas (as_roles s) x" "\<not> username_exists (as_users s) (usr_name u) []" for u
  proof (rule store_user_ok [OF more assms(2) u(2)])
    show "minted ?used (usr_id u)" unfolding u(1) by (rule minted_new)
    show "usr_status u \<noteq> status_deleted \<longrightarrow> (\<forall>x \<in> set (usr_roles u). ahas (as_roles s) x)" using u(3) by blast
    have "\<not> username_exists (as_users s) (usr_name u) (usr_id u)"
      using u(4) users_ok_id [OF ready(1)] unfolding username_taken [OF ready(1)] by (auto simp: minted_def)
    then show "names_unique (aput (usr_id u) u (as_users s))" by (rule names_unique_aput [OF ready(1,5)])
    obtain k v where "aget (as_users s) k = Some v" "is_active_admin v" using ready(6) by (auto simp: has_admin_def)
    then show "has_admin (aput (usr_id u) u (as_users s))"
      using unused u(1) unfolding has_admin_def by (intro exI [of _ k] exI [of _ v]) auto
  qed
  have built: "auth_ok ?used (store_user u s)"
    if "u = \<lparr> usr_id = ''user-'' @ ae_uuid env, usr_name = m, usr_display = e, usr_hash = h, usr_roles = unique_sorted ids, usr_status = status_active,
          usr_must_change = True, usr_version = 1, usr_created_at = ae_now env, usr_updated_at = ae_now env, usr_created_by = a, usr_updated_by = a \<rparr>"
      "\<not> username_exists (as_users s) m []" "validate_role_ids (as_roles s) ids = None" for u m e h ids
    by (rule store) (use that validate_role_ids_ok [OF that(3)] in \<open>auto simp: tidy_def unique_sorted_set\<close>)
  show ?thesis using more built by (auto simp: create_user_def Let_def split: option.split sum.split)
qed

lemma users_ok_Nil [simp]: "users_ok used []"
  by (simp add: users_ok_def akeys_def)

lemma store_role_ok:
  assumes "auth_ok used s" "permissions_ok (ro_permissions r)" "ro_id r \<notin> {admin_role, member_role, viewer_role}"
  shows "auth_ok used (store_role r s)"
  using assms unfolding auth_ok_def accounts_ok_def
  by (simp add: store_role_def write_role_def roles_ok_aput built_ins_roles assignments_roles)

lemma role_id_not_built_in: "''role-'' @ x \<notin> {admin_role, member_role, viewer_role}"
  by (simp add: admin_role_def member_role_def viewer_role_def)

lemma create_role_ok: "auth_ok used s \<Longrightarrow> auth_ok used (snd (create_role p env n d ps a s))"
  using role_id_not_built_in [of "ae_uuid env"]
  by (auto simp: create_role_def Let_def simp del: append_Cons split: sum.split dest: validate_permissions_ok intro!: store_role_ok)

lemma custom_role_id:
  assumes "auth_ok used s" "as_state s = AuthReady" "aget (as_roles s) i = Some r" "\<not> ro_built_in r"
  shows "ro_id r = i" "i \<notin> {admin_role, member_role, viewer_role}"
  using auth_ok_ready [OF assms(1,2)] roles_ok_id [of "as_roles s" i r] assms(3,4) by (auto simp: built_ins_present_def)

lemma update_role_ok:
  assumes "auth_ok used s" "as_state s = AuthReady" shows "auth_ok used (snd (update_role p env i v n d ps a s))"
proof (cases "aget (as_roles s) i")
  case (Some r)
  have "auth_ok used (store_role m s)" if "\<not> ro_built_in r" "validate_permissions ps = Inr qs" "ro_id m = ro_id r" "ro_permissions m = qs" for m qs
    using custom_role_id [OF assms Some that(1)] validate_permissions_ok [OF that(2)] that(3,4) by (intro store_role_ok [OF assms(1)]) simp_all
  then show ?thesis using assms(1) by (simp add: update_role_def Some Let_def split: sum.split)
qed (use assms(1) in \<open>simp add: update_role_def\<close>)

lemma delete_role_ok:
  assumes "auth_ok used s" "as_state s = AuthReady" shows "auth_ok used (snd (delete_role env i v s))"
proof (cases "aget (as_roles s) i")
  case (Some r)
  note ready = auth_ok_ready [OF assms]
  have "auth_ok used (s\<lparr>as_roles := adel i (as_roles s), as_disk := (as_disk s)\<lparr>ad_roles := adel i (ad_roles (as_disk s))\<rparr>\<rparr>)"
    if "\<not> ro_built_in r" "find (\<lambda>u. i \<in> set (usr_roles u)) (map snd (as_users s)) = None"
  proof -
    have "built_ins_present (adel i (as_roles s))"
      using ready(3) custom_role_id(2) [OF assms Some that(1)] unfolding built_ins_present_def by auto
    moreover have "i \<notin> set (usr_roles u)" if "aget (as_users s) k = Some u" for k u
      using \<open>find _ _ = None\<close> map_of_SomeD [OF that] by (force simp: find_None_iff)
    then have "assignments_ok (adel i (as_roles s)) (as_users s)" using ready(4) unfolding assignments_ok_def by auto
    ultimately show ?thesis using assms ready(5,6) unfolding auth_ok_def accounts_ok_def by (simp add: roles_ok_adel)
  qed
  then show ?thesis using assms(1) by (simp add: delete_role_def Some split: option.split)
qed (use assms(1) in \<open>simp add: delete_role_def\<close>)

subsection \<open>The first start and every other\<close>

lemma store_built_ins_ok:
  assumes "auth_ok used s" "as_state s = AuthUninitialized" "\<forall>r \<in> set rs. permissions_ok (ro_permissions r)"
  shows "auth_ok used (snd (store_built_ins env n rs s)) \<and> as_state (snd (store_built_ins env n rs s)) = AuthUninitialized
     \<and> (fst (store_built_ins env n rs s) \<longrightarrow> (\<forall>i. aget (as_roles (snd (store_built_ins env n rs s))) i =
          (case find (\<lambda>r. ro_id r = i) (rev rs) of Some r \<Rightarrow> Some r | None \<Rightarrow> aget (as_roles s) i)))"
  using assms
proof (induction env n rs s rule: store_built_ins.induct)
  case (2 env n r rs s)
  have "auth_ok used (store_role r s)" using 2(2-4) unfolding auth_ok_def by (simp add: store_role_def write_role_def roles_ok_aput)
  moreover have "as_state (store_role r s) = AuthUninitialized" "as_roles (store_role r s) = aput (ro_id r) r (as_roles s)"
    using 2(3) by (simp_all add: store_role_def write_role_def)
  ultimately show ?case using 2 by (auto simp: find_snoc split: option.split)
qed simp

lemma built_in_roles_ok: "r \<in> set (built_in_roles now) \<Longrightarrow> permissions_ok (ro_permissions r)"
  using built_in_perms by (auto simp: built_in_roles_def built_in_role_def)

lemma write_user_ok:
  assumes "auth_ok used s" "tidy u" "minted used (usr_id u)" shows "auth_ok used (write_user u s)"
  using assms users_ok_aput [of used "ad_users (as_disk s)" u] unfolding auth_ok_def by (simp add: write_user_def)

lemma first_user_ok:
  assumes "auth_ok used s" "as_state s = AuthUninitialized" "tidy u" "minted used (usr_id u)" "usr_roles u = [admin_role]" "usr_status u = status_active"
    and "built_ins_present (as_roles s)"
  shows "auth_ok used ((write_user u s)\<lparr>as_disk := (as_disk (write_user u s))\<lparr>ad_system := Some (1, True)\<rparr>,
      as_users := aput (usr_id u) u (as_users (write_user u s)), as_state := AuthReady\<rparr>)"
proof -
  have none: "as_users s = []" using assms(1,2) by (simp add: auth_ok_def)
  have "ahas (as_roles s) admin_role" using assms(7) by (auto simp: built_ins_present_def)
  then have "accounts_ok (as_roles s) [(usr_id u, u)]"
    using assms(5-7) by (auto simp: accounts_ok_def assignments_ok_def names_unique_def has_admin_def is_active_admin_def split: if_splits)
  moreover have "users_ok used [(usr_id u, u)]" using assms(3,4) by (simp add: users_ok_def akeys_def)
  ultimately show ?thesis using write_user_ok [OF assms(1,3,4)] none unfolding auth_ok_def by (simp add: write_user_def)
qed

definition first_user :: "auth_env \<Rightarrow> string \<Rightarrow> string \<Rightarrow> string \<Rightarrow> auth_user" where
  "first_user env m display h = \<lparr> usr_id = ''user-'' @ ae_uuid env, usr_name = m, usr_display = display_name display m, usr_hash = h,
      usr_roles = [admin_role], usr_status = status_active, usr_must_change = False, usr_version = 1,
      usr_created_at = ae_now env, usr_updated_at = ae_now env, usr_created_by = ''system'', usr_updated_by = ''system'' \<rparr>"

lemma first_user_id: "usr_id (first_user env m d h) = ''user-'' @ ae_uuid env"
  by (simp add: first_user_def)

text \<open>The first start, once its built-in roles are written or not.\<close>

lemma initialize_unfolded:
  assumes "as_state s = AuthUninitialized" "store_built_ins env 0 (built_in_roles (ae_now env)) s = (ok, s1)"
  shows "initialize p env n d pw c s =
     (if pw \<noteq> c then (Inl ConfirmationDiffers, s)
      else case normalize_username p n of
        Inl e \<Rightarrow> (Inl e, s)
      | Inr m \<Rightarrow> (case validate_password p pw of
           Some e \<Rightarrow> (Inl e, s)
         | None \<Rightarrow> (case ae_hash env pw of
             None \<Rightarrow> (Inl HashFailed, s)
           | Some h \<Rightarrow>
               if \<not> ok then (Inl WriteFailed, s1)
               else if \<not> ae_save env 3 then (Inl WriteFailed, s1)
               else let u = first_user env m d h; s2 = write_user u s1
                    in if \<not> ae_save env 4 then (Inl WriteFailed, s2)
                       else create_session p env 5 u (s2\<lparr>as_disk := (as_disk s2)\<lparr>ad_system := Some (1, True)\<rparr>,
                              as_users := aput (usr_id u) u (as_users s2), as_state := AuthReady\<rparr>))))"
  unfolding initialize_def first_user_def by (simp add: assms Let_def split: option.split sum.split bool.split)

lemma initialize_ok:
  assumes "auth_ok used s" shows "auth_ok (insert (ae_uuid env) used) (snd (initialize p env n d pw c s))"
proof (cases "as_state s = AuthUninitialized")
  case True
  let ?used = "insert (ae_uuid env) used"
  obtain ok s1 where s1: "store_built_ins env 0 (built_in_roles (ae_now env)) s = (ok, s1)" by fastforce
  note stored = store_built_ins_ok [OF auth_ok_more [OF assms, of "ae_uuid env"] True, of "built_in_roles (ae_now env)" env 0, unfolded s1, simplified]
  have s1_ok: "auth_ok ?used s1" "as_state s1 = AuthUninitialized" using stored built_in_roles_ok by auto
  have built: "built_ins_present (as_roles s1)" if ok
    using stored that built_in_roles_ok
    by (auto simp: built_ins_present_def built_in_roles_def built_in_role_def admin_role_def member_role_def viewer_role_def)
  have written: "auth_ok ?used (write_user u s1)" if "tidy u" "usr_id u = ''user-'' @ ae_uuid env" for u
    using write_user_ok [OF s1_ok(1) that(1)] that(2) minted_new by simp
  have final: "auth_ok ?used ((write_user u s1)\<lparr>as_disk := (as_disk (write_user u s1))\<lparr>ad_system := Some (1, True)\<rparr>,
      as_users := aput (usr_id u) u (as_users (write_user u s1)), as_state := AuthReady\<rparr>)"
    if ok "tidy u" "usr_id u = ''user-'' @ ae_uuid env" "usr_roles u = [admin_role]" "usr_status u = status_active" for u
    using first_user_ok [OF s1_ok that(2) _ that(4,5) built [OF that(1)]] that(3) minted_new by simp
  have admin: "admin_role \<noteq> [] \<and> trim_space admin_role = admin_role"
    using trim_space_graphic [of admin_role] by (simp add: admin_role_def graphic_def)
  have first: "tidy (first_user env m d h)" "usr_roles (first_user env m d h) = [admin_role]" "usr_status (first_user env m d h) = status_active" for m h
    using admin by (simp_all add: first_user_def tidy_def)
  show ?thesis unfolding initialize_unfolded [OF True s1] Let_def
    using auth_ok_more [OF assms] s1_ok(1) written [OF first(1) first_user_id] final [OF _ first(1) first_user_id first(2,3)]
    by (auto split: option.split sum.split)
qed (use auth_ok_more [OF assms] in \<open>simp add: initialize_def\<close>)

lemma load_users_ok:
  "users_ok used m \<Longrightarrow> \<forall>u \<in> set us. tidy u \<and> minted used (usr_id u) \<Longrightarrow> users_ok used (snd (load_users us m))"
  by (induction us m rule: load_users.induct) (simp_all add: users_ok_aput)

lemma load_roles_ok:
  "roles_ok m \<Longrightarrow> \<forall>r \<in> set rs. permissions_ok (ro_permissions r) \<Longrightarrow> roles_ok (snd (load_roles p rs names m))"
  by (induction p rs names m rule: load_roles.induct) (simp_all add: roles_ok_aput Let_def)

lemma check_built_ins_ok: "check_built_ins rs ids = None \<Longrightarrow> i \<in> set ids \<Longrightarrow> \<exists>r. aget rs i = Some r \<and> ro_built_in r"
  by (induction rs ids rule: check_built_ins.induct) (auto split: option.splits if_splits)

lemma check_users_ok:
  "check_users p rs us seen adm = Inr a \<Longrightarrow> distinct (map usr_name us) \<and> usr_name ` set us \<inter> set seen = {}
     \<and> (\<forall>u \<in> set us. usr_status u \<noteq> status_deleted \<longrightarrow> validate_role_ids rs (usr_roles u) = None)
     \<and> (a \<longrightarrow> adm \<or> (\<exists>u \<in> set us. is_active_admin u))"
proof (induction us arbitrary: seen adm)
  case (Cons u us)
  let ?v = "if usr_status u = status_deleted then None else validate_role_ids rs (usr_roles u)"
  have "usr_name u \<notin> set seen" "?v = None" "check_users p rs us (usr_name u # seen) (adm \<or> is_active_admin u) = Inr a"
    using Cons.prems by (simp_all split: if_split_asm option.split_asm)
  then show ?case using Cons.IH [of "usr_name u # seen" "adm \<or> is_active_admin u"] by (auto split: if_split_asm)
qed simp

lemma validated_ok:
  assumes "validate_auth p us rs = None" "users_ok used us" shows "accounts_ok rs us"
proof -
  have built: "check_built_ins rs [admin_role, member_role, viewer_role] = None"
    and users: "check_users p rs (map snd us) [] False = Inr True"
    using assms(1) by (auto simp: validate_auth_def split: if_splits option.splits sum.splits)
  note checked = check_users_ok [OF users]
  have keys: "distinct (akeys us)" using assms(2) by (rule users_ok_keys)
  have mem: "aget us i = Some u \<Longrightarrow> u \<in> snd ` set us" for i u by (force dest: map_of_SomeD)
  have "built_ins_present rs" using check_built_ins_ok [OF built] by (simp add: built_ins_present_def)
  moreover have "assignments_ok rs us"
  proof -
    have "ahas rs x" if "aget us i = Some u" "usr_status u \<noteq> status_deleted" "x \<in> set (usr_roles u)" for i u x
    proof -
      have "validate_role_ids rs (usr_roles u) = None" using checked mem [OF that(1)] that(2) by auto
      moreover have "x \<in> set (unique_sorted (usr_roles u))"
        using users_ok_id [OF assms(2) that(1)] that(3) by (force simp: tidy_def unique_sorted_set)
      ultimately show ?thesis by (rule validate_role_ids_ok)
    qed
    then show ?thesis by (simp add: assignments_ok_def)
  qed
  moreover have "names_unique us"
  proof -
    have inj: "inj_on (usr_name \<circ> snd) (set us)" using checked by (simp add: distinct_map comp_inj_on_iff inj_on_def)
    have "i = j" if "aget us i = Some u" "aget us j = Some v" "usr_name u = usr_name v" for i j u v
      using inj_onD [OF inj, of "(i, u)" "(j, v)"] that by (auto dest: map_of_SomeD)
    then show ?thesis by (simp add: names_unique_def)
  qed
  moreover obtain i u where "(i, u) \<in> set us" "is_active_admin u" using checked by auto
  then have "has_admin us" unfolding has_admin_def aget_mem [OF keys] by blast
  ultimately show ?thesis by (simp add: accounts_ok_def)
qed

lemma load_auth_ok:
  assumes "users_ok used (ad_users d)" "roles_ok (ad_roles d)" shows "auth_ok used (load_auth p d)"
proof -
  have none: "users_ok used []" "roles_ok []" by (simp_all add: users_ok_def roles_ok_def akeys_def)
  obtain e rs where rs: "load_roles p (map snd (ad_roles d)) [] [] = (e, rs)" by fastforce
  have "\<forall>r \<in> set (map snd (ad_roles d)). permissions_ok (ro_permissions r)"
    using assms(2) by (auto simp: roles_ok_def aget_mem [symmetric])
  then have roles: "roles_ok rs" using load_roles_ok [OF none(2), of "map snd (ad_roles d)" p "[]"] by (simp add: rs)
  obtain f us where us: "load_users (map snd (ad_users d)) [] = (f, us)" by fastforce
  have "\<forall>u \<in> set (map snd (ad_users d)). tidy u \<and> minted used (usr_id u)"
    using assms(1) by (auto simp: users_ok_def aget_mem [symmetric])
  then have users: "users_ok used us" using load_users_ok [OF none(1), of "map snd (ad_users d)"] by (simp add: us)
  have "validate_auth p us rs = None \<Longrightarrow> accounts_ok rs us" using validated_ok users by blast
  then show ?thesis using none roles users assms
    by (auto simp: load_auth_def Let_def rs us auth_ok_def split: option.split)
qed

lemma exec_auth_ok:
  assumes "auth_ok used s" "ae_uuid env \<notin> used" shows "auth_ok (insert (ae_uuid env) used) (exec_auth p (env, op) s)"
proof (cases "for_principal op \<and> as_state s \<noteq> AuthReady")
  case False
  note more = auth_ok_more [OF assms(1)]
  have "auth_ok used (load_auth p (as_disk s))" using assms(1) by (intro load_auth_ok) (simp_all add: auth_ok_def)
  then show ?thesis using False assms
    by (cases op) (simp_all add: exec_auth_def initialize_ok more login_ok logout_ok create_user_ok update_user_ok delete_user_ok reset_password_ok
        update_profile_ok change_password_ok create_role_ok update_role_ok delete_role_ok auth_ok_more)
qed (use auth_ok_more [OF assms(1)] in \<open>simp add: exec_auth_def\<close>)

lemma run_auth_ok:
  "auth_ok used s \<Longrightarrow> distinct (map (\<lambda>(env, op). ae_uuid env) ops) \<Longrightarrow> used \<inter> set (map (\<lambda>(env, op). ae_uuid env) ops) = {}
   \<Longrightarrow> \<exists>all. auth_ok all (fold (exec_auth p) ops s)"
proof (induction ops arbitrary: used s)
  case (Cons eop ops)
  obtain env op where eop: "eop = (env, op)" by fastforce
  have "auth_ok (insert (ae_uuid env) used) (exec_auth p (env, op) s)" using Cons.prems exec_auth_ok eop by auto
  then show ?case using Cons.IH [of "insert (ae_uuid env) used" "exec_auth p (env, op) s"] Cons.prems by (auto simp: eop)
qed auto

lemma started_auth_ok: "auth_ok {} (load_auth p empty_disk)"
  by (rule load_auth_ok) (simp_all add: empty_disk_def users_ok_def roles_ok_def akeys_def)

end
