(* ===== verification/AuthClaims.thy ===== *)
theory AuthClaims
  imports AuthSafe
begin

section \<open>What the accounts promise\<close>

text \<open>
  The properties of the service over every run of its machine: who may do what, how long a session and an account
  can be used, what failed logins lead to, and what the next start of the process finds.
\<close>

subsection \<open>Principals\<close>

lemma collect_ok:
  assumes "roles_ok rs" "\<forall>i \<in> set ids. ahas rs i" "permissions_ok qs"
  shows "\<exists>ps. collect_permissions rs ids qs = Inr ps \<and> set qs \<subseteq> set ps \<and> permissions_ok ps \<and> (admin_role \<in> set ids \<longrightarrow> set permission_ids \<subseteq> set ps)"
  using assms(2,3)
proof (induction ids arbitrary: qs)
  case (Cons i ids)
  then obtain r where r: "aget rs i = Some r" by auto
  define extra where "extra = (if i = admin_role then all_permission_ids else [])"
  have "permissions_ok (ro_permissions r)" "permissions_ok extra"
    using roles_ok_id [OF assms(1) r] built_in_perms(1) by (auto simp: extra_def permissions_ok_def missing_dependencies_def)
  moreover have union: "permissions_ok (a @ b)" if "permissions_ok a" "permissions_ok b" for a b
    using that unfolding permissions_ok_def missing_dependencies_def by (fastforce simp: filter_empty_conv split: if_splits)
  ultimately have ok: "permissions_ok (qs @ ro_permissions r @ extra)" using Cons.prems(2) by blast
  obtain ps where ps: "collect_permissions rs ids (qs @ ro_permissions r @ extra) = Inr ps" "set (qs @ ro_permissions r @ extra) \<subseteq> set ps"
      "permissions_ok ps" "admin_role \<in> set ids \<longrightarrow> set permission_ids \<subseteq> set ps"
    using Cons.IH [OF _ ok] Cons.prems(1) by auto
  have "i = admin_role \<longrightarrow> set permission_ids \<subseteq> set ps"
    using ps(2) by (auto simp: extra_def all_permission_ids_def)
  then show ?case using ps r by (intro exI [of _ ps]) (auto simp: extra_def)
qed simp

lemma permissions_ok_set: "set ps = set qs \<Longrightarrow> permissions_ok ps = permissions_ok qs"
  unfolding permissions_ok_def missing_dependencies_def by (simp only:)

lemma principal_ok:
  assumes "auth_ok used s" "as_state s = AuthReady" "aget (as_users s) i = Some u" "usr_status u = status_active"
  shows "\<exists>ps. principal_of (as_roles s) u c = Inr (u, ps, c) \<and> permissions_ok ps \<and> (admin_role \<in> set (usr_roles u) \<longrightarrow> set ps = set permission_ids)"
proof -
  note ready = auth_ok_ready [OF assms(1,2)]
  have "usr_status u \<noteq> status_deleted" using assms(4) by (simp add: status_active_def status_deleted_def)
  then have "\<forall>x \<in> set (usr_roles u). ahas (as_roles s) x" using ready(4) assms(3) unfolding assignments_ok_def by blast
  moreover have "permissions_ok []" by (simp add: permissions_ok_def missing_dependencies_def)
  ultimately obtain ps where ps: "collect_permissions (as_roles s) (usr_roles u) [] = Inr ps" "permissions_ok ps"
      "admin_role \<in> set (usr_roles u) \<longrightarrow> set permission_ids \<subseteq> set ps"
    using collect_ok [OF ready(2)] by blast
  have "set (sort (remdups ps)) = set ps" by simp
  then show ?thesis using ps permissions_ok_set [of "sort (remdups ps)" ps]
    by (intro exI [of _ "sort (remdups ps)"]) (auto simp: principal_of_def permissions_ok_def)
qed

subsection \<open>Sessions that are gone\<close>

definition no_session :: "string \<Rightarrow> auth_sys \<Rightarrow> bool" where
  "no_session h s \<longleftrightarrow> aget (ad_sessions (as_disk s)) h = None"

lemma no_session_fields [simp]:
  "no_session h (s\<lparr>as_failures := a\<rparr>) = no_session h s" "no_session h (s\<lparr>as_cleanup_at := b\<rparr>) = no_session h s"
  "no_session h (s\<lparr>as_users := c\<rparr>) = no_session h s" "no_session h (s\<lparr>as_roles := d\<rparr>) = no_session h s" "no_session h (s\<lparr>as_state := e\<rparr>) = no_session h s"
  "no_session h (s\<lparr>as_disk := (as_disk s)\<lparr>ad_roles := f\<rparr>\<rparr>) = no_session h s" "no_session h (s\<lparr>as_disk := (as_disk s)\<lparr>ad_system := g\<rparr>\<rparr>) = no_session h s"
  "no_session h (write_user u s) = no_session h s" "no_session h (store_user u s) = no_session h s" "no_session h (store_role r s) = no_session h s"
  "no_session h (put_session k ses s) = (h \<noteq> k \<and> no_session h s)" "no_session h (drop_session k s) = (h = k \<or> no_session h s)"
  by (auto simp: no_session_def write_user_def store_user_def write_role_def store_role_def put_session_def drop_session_def)

lemma no_session_drops: "no_session h (fold drop_session ks s) \<longleftrightarrow> h \<in> set ks \<or> no_session h s"
  by (induction ks arbitrary: s) auto

lemma no_session_revoke: "no_session h s \<Longrightarrow> no_session h (snd (revoke_user_sessions env i s))"
  by (simp add: revoke_user_sessions_def Let_def no_session_drops)

lemma revoked:
  assumes "revoke_user_sessions env i s = (True, t)" "aget (ad_sessions (as_disk s)) h = Some ses" "ses_user ses = i"
  shows "no_session h t"
proof -
  let ?own = "map fst (filter (\<lambda>(h, ses). ses_user ses = i) (ad_sessions (as_disk s)))"
  have h: "h \<in> set ?own" using map_of_SomeD [OF assms(2)] assms(3) by force
  have t: "list_all (ae_drop env) ?own" "t = fold drop_session (filter (ae_drop env) ?own) s"
    using assms(1) by (auto simp: revoke_user_sessions_def Let_def split: if_splits)
  then have "h \<in> set (filter (ae_drop env) ?own)" using h by (simp add: list_all_iff)
  then show ?thesis unfolding t(2) no_session_drops by blast
qed

lemma no_session_cleanup [simp]: "no_session h (cleanup_login_failures now s) = no_session h s"
  by (simp add: cleanup_login_failures_def)

lemma no_session_blocked [simp]: "no_session h (snd (blocked_scopes ks now r s)) = no_session h s"
  by (induction ks now r s rule: blocked_scopes.induct) (simp_all add: case_prod_beta)

lemma no_session_capacity [simp]: "no_session h (make_failure_capacity now s) = no_session h s"
  by (auto simp: make_failure_capacity_def Let_def split: option.split)

lemma no_session_record [simp]: "no_session h (record_login_failure ks now s) = no_session h s"
  by (induction ks now s rule: record_login_failure.induct) (auto simp: Let_def split: prod.split option.split)

lemma no_session_built_ins [simp]: "no_session h (snd (store_built_ins env n rs s)) = no_session h s"
  by (induction env n rs s rule: store_built_ins.induct) simp_all

definition other_token :: "auth_params \<Rightarrow> string \<Rightarrow> auth_env \<Rightarrow> bool" where
  "other_token p h env \<longleftrightarrow> (case ae_tokens env of None \<Rightarrow> True | Some (t, c) \<Rightarrow> ap_token_hash p t \<noteq> h)"

lemma no_session_create: "no_session h s \<Longrightarrow> other_token p h env \<Longrightarrow> no_session h (snd (create_session p env n u s))"
  by (auto simp: create_session_def other_token_def Let_def split: option.splits sum.split prod.splits)

lemma no_session_login:
  assumes "no_session h s" "other_token p h env" shows "no_session h (snd (login p env n pw src s))"
proof -
  have "no_session h t" if "login_blocked_until ks now s = (r, t)" for ks now r t
    using assms(1) that no_session_blocked [of h ks now None "cleanup_login_failures now s"] by (simp add: login_blocked_until_def)
  then show ?thesis using assms by (auto simp: login_def Let_def no_session_create split: option.split prod.split)
qed

lemma no_session_initialize:
  assumes "no_session h s" "other_token p h env" shows "no_session h (snd (initialize p env n d pw c s))"
proof -
  have "no_session h t" if "store_built_ins env 0 rs s = (r, t)" for rs r t
    using assms(1) that no_session_built_ins [of h env 0 rs s] by simp
  then show ?thesis using assms
    by (auto simp: initialize_def Let_def intro!: no_session_create split: option.split prod.split sum.split bool.split)
qed

lemma no_session_exec:
  assumes "no_session h s" "other_token p h env" shows "no_session h (exec_auth p (env, op) s)"
proof -
  note facts = assms no_session_revoke [OF assms(1)]
  have revoke: "no_session h t" if "revoke_user_sessions env i s' = (r, t)" "no_session h s'" for i s' r t
    using no_session_revoke [OF that(2), of env i] that(1) by simp
  have "no_session h (snd (create_user p env n d pw rs a s))" for n d pw rs a
    using assms(1) by (auto simp: create_user_def Let_def split: option.split sum.split)
  moreover have "no_session h (snd (update_user p env i req a s))" for i req a
    using assms(1) revoke by (auto simp: update_user_def Let_def split: option.split sum.split prod.split)
  moreover have "no_session h (snd (delete_user env i v a s))" for i v a
    using assms(1) revoke by (auto simp: delete_user_def Let_def split: option.split prod.split)
  moreover have "no_session h (snd (reset_password p env i v pw a s))" for i v pw a
    using assms(1) revoke by (auto simp: reset_password_def Let_def split: option.split prod.split)
  moreover have "no_session h (snd (change_password p env i c pw s))" for i c pw
    using assms revoke by (auto simp: change_password_def Let_def intro!: no_session_create split: option.split prod.split)
  moreover have "no_session h (snd (update_profile env i d a s))" for i d a
    using assms(1) by (auto simp: update_profile_def Let_def split: option.split)
  moreover have "no_session h (snd (create_role p env n d ps a s))" for n d ps a
    using assms(1) by (auto simp: create_role_def Let_def split: sum.split)
  moreover have "no_session h (snd (update_role p env i v n d ps a s))" for i v n d ps a
    using assms(1) by (auto simp: update_role_def Let_def split: sum.split option.split)
  moreover have "no_session h (snd (delete_role env i v s))" for i v
    using assms(1) by (auto simp: delete_role_def no_session_def split: option.split)
  moreover have "no_session h (snd (logout p env t s))" for t
    using assms(1) by (auto simp: logout_def Let_def)
  moreover have "no_session h (load_auth p (as_disk s))"
    using assms(1) by (auto simp: load_auth_def Let_def no_session_def split: option.split prod.split)
  ultimately show ?thesis using assms
    by (cases op) (simp_all add: exec_auth_def no_session_login no_session_initialize)
qed

lemma no_session_run:
  "no_session h s \<Longrightarrow> \<forall>(env, op) \<in> set ops. other_token p h env \<Longrightarrow> no_session h (fold (exec_auth p) ops s)"
  by (induction ops arbitrary: s) (auto simp: no_session_exec)

subsection \<open>Failed logins\<close>

definition failures_ok :: "auth_sys \<Rightarrow> bool" where
  "failures_ok s \<longleftrightarrow> distinct (akeys (as_failures s)) \<and> length (as_failures s) \<le> max_tracked_failures"

lemma failures_ok_cong: "as_failures s = as_failures t \<Longrightarrow> failures_ok s = failures_ok t"
  by (simp add: failures_ok_def)

lemma adel_length: "length (adel k m) \<le> length m"
  by (simp add: AList.delete_eq)

lemma adel_known_length: "aget m k \<noteq> None \<Longrightarrow> length (adel k m) < length m"
  by (induction m) (auto simp: AList.delete_eq le_imp_less_Suc split: if_splits)

lemma active_map:
  "snd (active_login_failure k now m) = m \<or> snd (active_login_failure k now m) = adel k m"
  by (auto simp: active_login_failure_def split: option.split)

lemma active_ok: "distinct (akeys m) \<Longrightarrow> distinct (akeys (snd (active_login_failure k now m)))"
  "length (snd (active_login_failure k now m)) \<le> length m"
  using active_map [of k now m] adel_length [of k m] by auto

lemma cleaned_ok:
  "distinct (akeys m) \<Longrightarrow> distinct (akeys (fold (\<lambda>k m. snd (active_login_failure k now m)) ks m))
     \<and> length (fold (\<lambda>k m. snd (active_login_failure k now m)) ks m) \<le> length m"
proof (induction ks arbitrary: m)
  case (Cons k ks)
  show ?case using Cons.IH [OF active_ok(1) [OF Cons.prems]] active_ok(2) [of k now m] by (auto intro: le_trans)
qed simp

lemma failures_ok_cleanup: "failures_ok s \<Longrightarrow> failures_ok (cleanup_login_failures now s)"
  using cleaned_ok [of "as_failures s" now "akeys (as_failures s)"] by (auto simp: failures_ok_def cleanup_login_failures_def)

lemma failures_ok_blocked: "failures_ok s \<Longrightarrow> failures_ok (snd (blocked_scopes ks now r s))"
proof (induction ks now r s rule: blocked_scopes.induct)
  case (2 key limit ks now r s)
  have "failures_ok (s\<lparr>as_failures := snd (active_login_failure key now (as_failures s))\<rparr>)"
    using 2(2) active_ok(1) [of "as_failures s" key now] active_ok(2) [of key now "as_failures s"] by (simp add: failures_ok_def)
  then show ?case using 2(1) by (simp add: case_prod_beta)
qed simp

lemma oldest_found: "oldest_failure m best = Some (k, t) \<Longrightarrow> best = Some (k, t) \<or> k \<in> set (akeys m)"
proof (induction m arbitrary: best)
  case (Cons e m)
  obtain k' f where e: "e = (k', f)" by fastforce
  define new where "new = (case best of None \<Rightarrow> Some (k', lf_last_attempt f)
      | Some (k'', t) \<Rightarrow> if lf_last_attempt f < t then Some (k', lf_last_attempt f) else best)"
  have "new = best \<or> new = Some (k', lf_last_attempt f)" by (auto simp: new_def split: option.split)
  moreover have "oldest_failure m new = Some (k, t)" using Cons.prems by (simp add: e new_def)
  then have "new = Some (k, t) \<or> k \<in> set (akeys m)" by (rule Cons.IH)
  ultimately show ?case by (auto simp: e akeys_def)
qed simp

lemma oldest_exists: "m \<noteq> [] \<or> best \<noteq> None \<Longrightarrow> oldest_failure m best \<noteq> None"
  by (induction m best rule: oldest_failure.induct) (auto split: option.split)

lemma capacity_made:
  assumes "failures_ok s"
  shows "distinct (akeys (as_failures (make_failure_capacity now s))) \<and> length (as_failures (make_failure_capacity now s)) < max_tracked_failures"
proof (cases "length (as_failures s) < max_tracked_failures")
  case True then show ?thesis using assms by (simp add: make_failure_capacity_def failures_ok_def)
next
  case False
  define t where "t = cleanup_login_failures now s"
  have t: "failures_ok t" using failures_ok_cleanup [OF assms] by (simp add: t_def)
  show ?thesis
  proof (cases "length (as_failures t) < max_tracked_failures")
    case True then show ?thesis using t False by (simp add: make_failure_capacity_def t_def [symmetric] failures_ok_def Let_def)
  next
    case full: False
    have bound: "distinct (akeys (as_failures t))" "length (as_failures t) \<le> max_tracked_failures" using t by (simp_all add: failures_ok_def)
    have "0 < max_tracked_failures" by (simp add: max_tracked_failures_def)
    then have "as_failures t \<noteq> []" using full by auto
    then obtain k u where o: "oldest_failure (as_failures t) None = Some (k, u)"
      using oldest_exists [of "as_failures t" None] by (cases "oldest_failure (as_failures t) None") auto
    then have "aget (as_failures t) k \<noteq> None" using oldest_found [OF o] by (simp add: akeys_aget_iff)
    then have "length (adel k (as_failures t)) < max_tracked_failures"
      by (rule less_le_trans [OF adel_known_length bound(2)])
    moreover have "distinct (akeys (adel k (as_failures t)))" by (rule distinct_akeys_adel [OF bound(1)])
    moreover have "as_failures (make_failure_capacity now s) = adel k (as_failures t)"
      using False full o by (simp add: make_failure_capacity_def t_def [symmetric] Let_def)
    ultimately show ?thesis by simp
  qed
qed

lemma aput_length: "length (aput k v m) \<le> Suc (length m)"
  by (induction m) auto

lemma failures_ok_record: "failures_ok s \<Longrightarrow> failures_ok (record_login_failure ks now s)"
proof (induction ks arbitrary: s)
  case (Cons e ks)
  obtain key limit where e: "e = (key, limit)" by fastforce
  obtain f m where a: "active_login_failure key now (as_failures s) = (f, m)" by fastforce
  have m: "failures_ok (s\<lparr>as_failures := m\<rparr>)"
    using Cons.prems active_ok(1) [of "as_failures s" key now] active_ok(2) [of key now "as_failures s"] by (simp add: failures_ok_def a)
  show ?case
  proof (cases f)
    case None
    let ?t = "make_failure_capacity now (s\<lparr>as_failures := m\<rparr>)"
    have "failures_ok (?t\<lparr>as_failures := aput key v (as_failures ?t)\<rparr>)" for v
      using capacity_made [OF m, of now] aput_length [of key v "as_failures ?t"] by (simp add: failures_ok_def)
    then show ?thesis using Cons.IH by (simp add: e a None Let_def)
  next
    case (Some g)
    have "aget m key \<noteq> None" using a Some by (auto simp: active_login_failure_def split: option.splits if_splits)
    then have "failures_ok (s\<lparr>as_failures := aput key v m\<rparr>)" for v using m by (simp add: failures_ok_def aput_known_length)
    then show ?thesis using Cons.IH by (simp add: e a Some)
  qed
qed simp

lemma failures_fields [simp]:
  "as_failures (write_user u s) = as_failures s" "as_failures (store_user u s) = as_failures s" "as_failures (store_role r s) = as_failures s"
  "as_failures (put_session k ses s) = as_failures s" "as_failures (drop_session k s) = as_failures s"
  by (simp_all add: write_user_def store_user_def write_role_def store_role_def put_session_def drop_session_def)

lemma failures_drops [simp]: "as_failures (fold drop_session ks s) = as_failures s"
  by (induction ks arbitrary: s) auto

lemma failures_revoke: "revoke_user_sessions env i s = (ok, t) \<Longrightarrow> as_failures t = as_failures s"
  by (auto simp: revoke_user_sessions_def Let_def split: if_splits)

lemma failures_create [simp]: "as_failures (snd (create_session p env n u s)) = as_failures s"
  by (auto simp: create_session_def Let_def split: option.split sum.split prod.split)

lemma failures_built_ins: "as_failures (snd (store_built_ins env n rs s)) = as_failures s"
  by (induction env n rs s rule: store_built_ins.induct) simp_all

lemma failures_initialize: "as_failures (snd (initialize p env n d pw c s)) = as_failures s"
proof -
  have "as_failures t = as_failures s" if "store_built_ins env 0 rs s = (r, t)" for rs r t
    using that failures_built_ins [of env 0 rs s] by simp
  then show ?thesis by (auto simp: initialize_def Let_def split: option.split prod.split sum.split bool.split)
qed

lemma failures_ok_login:
  assumes "failures_ok s" shows "failures_ok (snd (login p env n pw src s))"
proof -
  have blocked: "failures_ok t" if "login_blocked_until ks now s = (r, t)" for ks now r t
    using failures_ok_blocked [OF failures_ok_cleanup [OF assms], of ks now None now] that by (simp add: login_blocked_until_def)
  have drop: "failures_ok (snd (create_session p env 0 u (t\<lparr>as_failures := adel k (as_failures t)\<rparr>)))" if "failures_ok t" for t k u
    using that adel_length [of k "as_failures t"] by (auto simp: failures_ok_def)
  show ?thesis using assms
    by (auto simp: login_def Let_def failures_ok_record drop dest: blocked split: option.split prod.split)
qed

lemma failures_exec:
  assumes "\<forall>n pw src. op \<noteq> ALogin n pw src" "op \<noteq> ARestart" shows "as_failures (exec_auth p (env, op) s) = as_failures s"
proof -
  have "as_failures (snd (create_user p env n d pw rs a s)) = as_failures s" for n d pw rs a
    by (auto simp: create_user_def Let_def split: option.split sum.split)
  moreover have "as_failures (snd (update_user p env i req a s)) = as_failures s" for i req a
    by (auto simp: update_user_def Let_def failures_revoke split: option.split sum.split prod.split)
  moreover have "as_failures (snd (delete_user env i v a s)) = as_failures s" for i v a
    by (auto simp: delete_user_def Let_def failures_revoke split: option.split prod.split)
  moreover have "as_failures (snd (reset_password p env i v pw a s)) = as_failures s" for i v pw a
    by (auto simp: reset_password_def Let_def failures_revoke split: option.split prod.split)
  moreover have "as_failures (snd (change_password p env i c pw s)) = as_failures s" for i c pw
    by (auto simp: change_password_def Let_def failures_revoke split: option.split prod.split)
  moreover have "as_failures (snd (update_profile env i d a s)) = as_failures s" for i d a
    by (auto simp: update_profile_def Let_def split: option.split)
  moreover have "as_failures (snd (create_role p env n d ps a s)) = as_failures s" for n d ps a
    by (auto simp: create_role_def Let_def split: sum.split)
  moreover have "as_failures (snd (update_role p env i v n d ps a s)) = as_failures s" for i v n d ps a
    by (auto simp: update_role_def Let_def split: sum.split option.split)
  moreover have "as_failures (snd (delete_role env i v s)) = as_failures s" for i v
    by (auto simp: delete_role_def split: option.split)
  moreover have "as_failures (snd (logout p env t s)) = as_failures s" for t
    by (auto simp: logout_def Let_def)
  ultimately show ?thesis using assms by (cases op) (simp_all add: exec_auth_def failures_initialize)
qed

lemma failures_ok_load: "failures_ok (load_auth p d)"
  by (auto simp: load_auth_def Let_def failures_ok_def akeys_def split: option.split prod.split)

lemma failures_ok_exec: "failures_ok s \<Longrightarrow> failures_ok (exec_auth p (env, op) s)"
proof (cases "(\<exists>n pw src. op = ALogin n pw src) \<or> op = ARestart")
  case False
  then have "as_failures (exec_auth p (env, op) s) = as_failures s" by (intro failures_exec) auto
  moreover assume "failures_ok s"
  ultimately show ?thesis by (simp add: failures_ok_def)
qed (auto simp: exec_auth_def failures_ok_login failures_ok_load)

lemma failures_ok_run: "failures_ok s \<Longrightarrow> failures_ok (fold (exec_auth p) ops s)"
  by (induction ops arbitrary: s) (auto simp: failures_ok_exec)

subsection \<open>Concrete accounts\<close>

text \<open>Equations by which the text functions compute: the recursive call stands under a condition.\<close>

declare space_encodings_eval [code]

lemma trim_right_code [code]:
  "trim_right s = (if s \<noteq> [] \<and> graphic (last s) then s 
     else if find (\<lambda>e. suffix e s) space_encodings = None then s
     else trim_right (take (length s - length (the (find (\<lambda>e. suffix e s) space_encodings))) s))"
proof (cases "s \<noteq> [] \<and> graphic (last s)")
  case True
  then have "trim_right s = s" using trim_right_graphic [of "last s" "butlast s"] by simp
  then show ?thesis using True by simp
qed (subst trim_right.simps, simp only: if_False, simp split: option.split)

lemma trim_left_code [code]:
  "trim_left s = (if s \<noteq> [] \<and> graphic (hd s) then s 
     else if find (\<lambda>e. prefix e s) space_encodings = None then s
     else trim_left (drop (length (the (find (\<lambda>e. prefix e s) space_encodings))) s))"
proof (cases "s \<noteq> [] \<and> graphic (hd s)")
  case True
  then have "trim_left s = s" using trim_left_graphic [of "hd s" "tl s"] by simp
  then show ?thesis using True by simp
qed (subst trim_left.simps, simp only: if_False, simp split: option.split)

lemma runes_of_code [code]:
  "runes_of [] = []"
  "runes_of (c # s) = (if byte c < 0x80 then byte c # runes_of s
     else fst (decode_rune (c # s)) # runes_of (drop (snd (decode_rune (c # s))) (c # s)))"
  using runes_of_ascii [of c s] runes_of.simps [of "c # s"] by simp_all

definition plain_params :: auth_params where
  "plain_params = \<lparr> ap_lower = (\<lambda>s. s), ap_fold_equal = (=), ap_letter = (\<lambda>r. 0x61 \<le> r \<and> r \<le> 0x7A), ap_digit = (\<lambda>r. 0x30 \<le> r \<and> r \<le> 0x39),
     ap_token_hash = (\<lambda>t. t), ap_password_ok = (\<lambda>h pw. h = pw) \<rparr>"

definition plain_env :: "string \<Rightarrow> auth_env" where
  "plain_env x = \<lparr> ae_now = 0, ae_uuid = x, ae_tokens = Some (x, x), ae_hash = (\<lambda>pw. Some pw), ae_save = (\<lambda>n. True), ae_drop = (\<lambda>h. True), ae_listed = True \<rparr>"

definition first_account :: "(auth_env \<times> auth_op) list" where
  "first_account = [(plain_env ''a'', AInitialize ''root'' ''Root'' ''password1'' ''password1'')]"

definition auth_trace :: "(auth_env \<times> auth_op) list \<Rightarrow> auth_sys" where
  "auth_trace ops = fold (exec_auth plain_params) ops (load_auth plain_params empty_disk)"

lemma first_account_facts:
  "as_state (auth_trace first_account) = AuthReady" "distinct (map (\<lambda>(env, op). ae_uuid env) first_account)"
  by code_simp+

lemma reached_accounts:
  assumes "distinct (map (\<lambda>(env, op). ae_uuid env) ops)"
  shows "\<exists>used. auth_ok used (fold (exec_auth p) ops (load_auth p empty_disk))"
  by (rule run_auth_ok [OF started_auth_ok assms]) simp

subsection \<open>Properties\<close>

text \<open>C13: While the service is ready there is an active administrator, no two accounts share a name, and every role an account
  is given exists: no sequence of requests, of failing writes and of restarts leads anywhere else. The identifiers drawn for new records are taken
  to be distinct.\<close>

theorem active_administrator_remains:
  assumes "s = fold (exec_auth p) ops (load_auth p empty_disk)" "distinct (map (\<lambda>(env, op). ae_uuid env) ops)" "as_state s = AuthReady"
  shows "(\<exists>i u. aget (as_users s) i = Some u \<and> usr_status u = status_active \<and> admin_role \<in> set (usr_roles u))
    \<and> (\<forall>i j u v. aget (as_users s) i = Some u \<longrightarrow> aget (as_users s) j = Some v \<longrightarrow> usr_name u = usr_name v \<longrightarrow> i = j)
    \<and> (\<forall>i u x. aget (as_users s) i = Some u \<longrightarrow> usr_status u \<noteq> status_deleted \<longrightarrow> x \<in> set (usr_roles u) \<longrightarrow> ahas (as_roles s) x)"
proof -
  obtain used where "auth_ok used s" using reached_accounts [OF assms(2)] assms(1) by blast
  note ready = auth_ok_ready [OF this assms(3)]
  have "\<exists>i u. aget (as_users s) i = Some u \<and> usr_status u = status_active \<and> admin_role \<in> set (usr_roles u)"
    using ready(6) unfolding has_admin_def is_active_admin_def by blast
  then show ?thesis using ready(4,5) unfolding assignments_ok_def names_unique_def by blast
qed

lemma active_administrator_remains_witness:
  "\<exists>i u. aget (as_users (auth_trace first_account)) i = Some u \<and> usr_status u = status_active \<and> admin_role \<in> set (usr_roles u)"
  using active_administrator_remains [where s = "auth_trace first_account" and ops = first_account and p = plain_params]
    first_account_facts by (simp add: auth_trace_def)

text \<open>The permissions of a principal are those of its roles.\<close>

lemma collected:
  "collect_permissions rs ids qs = Inr ps \<Longrightarrow>
     set ps = set qs \<union> {x. \<exists>i \<in> set ids. \<exists>r. aget rs i = Some r \<and> (x \<in> set (ro_permissions r) \<or> i = admin_role \<and> x \<in> set permission_ids)}"
proof (induction rs ids qs rule: collect_permissions.induct)
  case (2 rs i ids qs)
  then obtain r where r: "aget rs i = Some r" by (cases "aget rs i") auto
  show ?case using 2(1) [OF r] 2(2) r by (auto simp: all_permission_ids_def split: if_splits)
qed simp

lemma closed:
  assumes "permissions_ok ps" shows "\<forall>(x, deps) \<in> set permission_dependencies. x \<in> set ps \<longrightarrow> (\<forall>y \<in> set deps. y \<in> set ps)"
proof (rule ballI, clarify)
  fix x deps y assume "(x, deps) \<in> set permission_dependencies" "x \<in> set ps" "y \<in> set deps"
  moreover have "\<forall>(x, deps) \<in> set permission_dependencies. x \<in> set ps \<longrightarrow> filter (\<lambda>d. d \<notin> set ps) deps = []"
    using assms by (auto simp: permissions_ok_def missing_dependencies_def split: if_splits)
  ultimately show "y \<in> set ps" by (auto simp: filter_empty_conv)
qed

text \<open>C16: A token is accepted exactly when it has a session of an active account. The permissions it gives are the union of those of the
  roles of the account, every known one for an administrator, and they are closed: no permission comes without those it depends on.\<close>

theorem principals_are_sound:
  assumes "s = fold (exec_auth p) ops (load_auth p empty_disk)" "distinct (map (\<lambda>(env, op). ae_uuid env) ops)" "as_state s = AuthReady"
    and "token \<noteq> []" "aget (ad_sessions (as_disk s)) (ap_token_hash p token) = Some ses" "aget (as_users s) (ses_user ses) = Some u"
  shows "if usr_status u \<noteq> status_active then authenticate p token s = Inl Unauthorized
     else \<exists>ps. authenticate p token s = Inr (u, ps, ses_csrf ses)
       \<and> (\<forall>x. has_permission (u, ps, ses_csrf ses) x \<longleftrightarrow>
            (\<exists>i \<in> set (usr_roles u). \<exists>r. aget (as_roles s) i = Some r \<and> (x \<in> set (ro_permissions r) \<or> i = admin_role \<and> x \<in> set permission_ids)))
       \<and> set ps \<subseteq> set permission_ids
       \<and> (\<forall>(x, deps) \<in> set permission_dependencies. has_permission (u, ps, ses_csrf ses) x \<longrightarrow> (\<forall>y \<in> set deps. has_permission (u, ps, ses_csrf ses) y))"
proof (cases "usr_status u = status_active")
  case True
  obtain used where ok: "auth_ok used s" using reached_accounts [OF assms(2)] assms(1) by blast
  obtain ps where ps: "principal_of (as_roles s) u (ses_csrf ses) = Inr (u, ps, ses_csrf ses)" "permissions_ok ps"
    using principal_ok [OF ok assms(3,6) True] by blast
  then obtain qs where qs: "collect_permissions (as_roles s) (usr_roles u) [] = Inr qs" "set ps = set qs"
    by (cases "collect_permissions (as_roles s) (usr_roles u) []") (auto simp: principal_of_def)
  let ?pr = "(u, ps, ses_csrf ses)"
  have "authenticate p token s = Inr ?pr"
    using assms(3-6) True ps(1) by (simp add: authenticate_def require_ready_def)
  moreover have "\<forall>x. has_permission ?pr x \<longleftrightarrow>
      (\<exists>i \<in> set (usr_roles u). \<exists>r. aget (as_roles s) i = Some r \<and> (x \<in> set (ro_permissions r) \<or> i = admin_role \<and> x \<in> set permission_ids))"
    using collected [OF qs(1)] qs(2) by (simp add: has_permission_def)
  moreover have "set ps \<subseteq> set permission_ids" using ps(2) by (simp add: permissions_ok_def)
  moreover have "\<forall>(x, deps) \<in> set permission_dependencies. has_permission ?pr x \<longrightarrow> (\<forall>y \<in> set deps. has_permission ?pr y)"
    using closed [OF ps(2)] by (simp add: has_permission_def)
  ultimately show ?thesis using True by auto
qed (use assms in \<open>simp add: authenticate_def require_ready_def\<close>)

lemma first_session:
  "aget (ad_sessions (as_disk (auth_trace first_account))) (ap_token_hash plain_params ''a'') = Some \<lparr> ses_user = ''user-a'', ses_csrf = ''a'', ses_created_at = 0 \<rparr>"
  "map_option usr_status (aget (as_users (auth_trace first_account)) ''user-a'') = Some status_active"
  by code_simp+

lemma principals_are_sound_witness:
  "\<exists>u ps. aget (as_users (auth_trace first_account)) ''user-a'' = Some u \<and> authenticate plain_params ''a'' (auth_trace first_account) = Inr (u, ps, ''a'')"
proof -
  obtain u where "aget (as_users (auth_trace first_account)) ''user-a'' = Some u" "usr_status u = status_active"
    using first_session(2) by auto
  then show ?thesis
    using principals_are_sound [where s = "auth_trace first_account" and ops = first_account and p = plain_params and token = "''a''" and u = u]
      first_account_facts first_session(1) by (auto simp: auth_trace_def)
qed

text \<open>C40: The table of failed logins never holds more than its 8192 entries, whatever names and addresses are tried.\<close>

theorem failures_bounded: "length (as_failures (fold (exec_auth p) ops (load_auth p d))) \<le> max_tracked_failures"
  using failures_ok_run [OF failures_ok_load] by (simp add: failures_ok_def)

text \<open>C15: Once a password has been reset or changed or an account deleted, a token that was issued for it before is refused for good, whatever
  follows: it is accepted again only if a new token hashes to the same value.\<close>

theorem revoked_token_stays_dead:
  assumes "(\<exists>v pw a n. reset_password p env i v pw a s = (Inr n, t)) \<or> (\<exists>v a n. delete_user env i v a s = (Inr n, t))
      \<or> (\<exists>pw pw' r. change_password p env i pw pw' s = (Inr r, t) \<and> other_token p (ap_token_hash p token) env)"
    and "aget (ad_sessions (as_disk s)) (ap_token_hash p token) = Some ses" "ses_user ses = i"
    and "\<forall>(env, op) \<in> set ops. other_token p (ap_token_hash p token) env"
  shows "\<exists>e. authenticate p token (fold (exec_auth p) ops t) = Inl e"
proof -
  let ?h = "ap_token_hash p token"
  have keep: "ad_sessions (as_disk (store_user n s)) = ad_sessions (as_disk s)" for n by (simp add: store_user_def write_user_def)
  have dead: "no_session ?h s'" if "revoke_user_sessions env i (store_user n s) = (True, s')" for n s'
    using revoked [OF that] assms(2,3) by (simp add: keep)
  have "no_session ?h t" if "reset_password p env i v pw a s = (Inr n, t)" for v pw a n
    using that by (auto simp: reset_password_def Let_def dest!: dead split: option.splits if_splits prod.splits)
  moreover have "no_session ?h t" if "delete_user env i v a s = (Inr n, t)" for v a n
    using that by (auto simp: delete_user_def Let_def dest!: dead split: option.splits if_splits prod.splits)
  moreover have "no_session ?h t" if change: "change_password p env i pw pw' s = (Inr r, t)" and other: "other_token p ?h env" for pw pw' r
  proof -
    obtain n s' where "revoke_user_sessions env i (store_user n s) = (True, s')" "create_session p env 1 n s' = (Inr r, t)"
      using change by (auto simp: change_password_def Let_def split: option.splits if_splits prod.splits)
    then show ?thesis using no_session_create [OF dead other, of n s' 1 n] by simp
  qed
  ultimately have "no_session ?h t" using assms(1) by blast
  from no_session_run [OF this assms(4)] show ?thesis
    by (auto simp: authenticate_def no_session_def split: option.split)
qed

lemma revoked_token_stays_dead_witness:
  "\<exists>n t. reset_password plain_params (plain_env ''b'') ''user-a'' 1 ''password2'' ''user-a'' (auth_trace first_account) = (Inr n, t)
     \<and> (\<exists>e. authenticate plain_params ''a'' (fold (exec_auth plain_params) [(plain_env ''c'', ALogin ''root'' ''password2'' '''')] t) = Inl e)"
proof -
  have "case fst (reset_password plain_params (plain_env ''b'') ''user-a'' 1 ''password2'' ''user-a'' (auth_trace first_account)) of Inr n \<Rightarrow> True | Inl e \<Rightarrow> False"
    by code_simp
  then obtain n t where reset: "reset_password plain_params (plain_env ''b'') ''user-a'' 1 ''password2'' ''user-a'' (auth_trace first_account) = (Inr n, t)"
    by (cases "reset_password plain_params (plain_env ''b'') ''user-a'' 1 ''password2'' ''user-a'' (auth_trace first_account)") (auto split: sum.splits)
  have hash: "ap_token_hash plain_params ''a'' = ''a''" by (simp add: plain_params_def)
  have "other_token plain_params ''a'' (plain_env ''c'')" by code_simp
  then have "\<exists>e. authenticate plain_params ''a'' (fold (exec_auth plain_params) [(plain_env ''c'', ALogin ''root'' ''password2'' '''')] t) = Inl e"
    using reset first_session(1)
    by (intro revoked_token_stays_dead [where env = "plain_env ''b''" and i = "''user-a''" and s = "auth_trace first_account"]) (auto simp: hash)
  then show ?thesis using reset by blast
qed

end
