(* ===== verification/AuthDurable.thy ===== *)
theory AuthDurable
  imports AuthClaims
begin

section \<open>Accounts on disk\<close>

text \<open>
  What the files hold against what the service holds in memory: every account and role in memory is on disk as it is, an account never
  loses a change that was confirmed, and what a start of the process makes of the files. At the end, three runs in
  which the service contradicts itself.
\<close>

subsection \<open>Memory and disk\<close>

definition synced :: "auth_sys \<Rightarrow> bool" where
  "synced s \<longleftrightarrow> (\<forall>i u. aget (as_users s) i = Some u \<longrightarrow> aget (ad_users (as_disk s)) i = Some u)
     \<and> (\<forall>i r. aget (as_roles s) i = Some r \<longrightarrow> aget (ad_roles (as_disk s)) i = Some r)"

text \<open>Accounts that have been written with a version: they stay, with that version or a later one.\<close>

definition written :: "(string \<times> int) set \<Rightarrow> auth_sys \<Rightarrow> bool" where
  "written A s \<longleftrightarrow> (\<forall>(i, v) \<in> A. \<exists>u. aget (ad_users (as_disk s)) i = Some u \<and> v \<le> usr_version u)"

lemma synced_fields [simp]:
  "synced (s\<lparr>as_failures := a\<rparr>) = synced s" "synced (s\<lparr>as_cleanup_at := b\<rparr>) = synced s" "synced (s\<lparr>as_state := e\<rparr>) = synced s"
  "synced (s\<lparr>as_disk := (as_disk s)\<lparr>ad_system := g\<rparr>\<rparr>) = synced s"
  "synced (put_session k ses s) = synced s" "synced (drop_session k s) = synced s"
  by (simp_all add: synced_def put_session_def drop_session_def)

lemma written_fields [simp]:
  "written A (s\<lparr>as_failures := a\<rparr>) = written A s" "written A (s\<lparr>as_cleanup_at := b\<rparr>) = written A s" "written A (s\<lparr>as_state := e\<rparr>) = written A s"
  "written A (s\<lparr>as_users := c\<rparr>) = written A s" "written A (s\<lparr>as_roles := d\<rparr>) = written A s"
  "written A (s\<lparr>as_disk := (as_disk s)\<lparr>ad_system := g\<rparr>\<rparr>) = written A s" "written A (s\<lparr>as_disk := (as_disk s)\<lparr>ad_roles := h\<rparr>\<rparr>) = written A s"
  "written A (put_session k ses s) = written A s" "written A (drop_session k s) = written A s" "written A (store_role r s) = written A s"
  "written A (store_user u s) = written A (write_user u s)"
  by (simp_all add: written_def put_session_def drop_session_def store_role_def write_role_def store_user_def write_user_def)

lemma synced_store [simp]: "synced s \<Longrightarrow> synced (store_user u s)" "synced s \<Longrightarrow> synced (store_role r s)"
  by (simp_all add: synced_def store_user_def write_user_def store_role_def write_role_def)

text \<open>Both together: what a step keeps of an account.\<close>

definition settled :: "(string \<times> int) set \<Rightarrow> auth_sys \<Rightarrow> bool" where
  "settled A s \<longleftrightarrow> synced s \<and> written A s"

lemma settled_fields [simp]:
  "settled A (s\<lparr>as_failures := a\<rparr>) = settled A s" "settled A (s\<lparr>as_cleanup_at := b\<rparr>) = settled A s"
  "settled A (put_session k ses s) = settled A s" "settled A (drop_session k s) = settled A s"
  "settled A s \<Longrightarrow> settled A (store_role r s)"
  by (simp_all add: settled_def)

lemma settled_drops [simp]: "settled A (fold drop_session ks s) = settled A s"
  by (induction ks arbitrary: s) auto

lemma settled_revoke: "settled A s \<Longrightarrow> revoke_user_sessions env j s = (ok, t) \<Longrightarrow> settled A t"
  by (auto simp: revoke_user_sessions_def Let_def split: if_splits)

lemma settled_create [simp]: "settled A s \<Longrightarrow> settled A (snd (create_session p env n u s))"
  by (auto simp: create_session_def Let_def split: option.split sum.split prod.split)

text \<open>A change of an account that is in memory raises its version.\<close>

lemma written_store: "written A s \<Longrightarrow> (\<And>v. (usr_id w, v) \<in> A \<Longrightarrow> v \<le> usr_version w) \<Longrightarrow> written A (write_user w s)"
  by (fastforce simp: written_def write_user_def)

lemma settled_store:
  assumes "settled A s" "aget (as_users s) j = Some u" "usr_id w = j" "usr_version u \<le> usr_version w"
  shows "settled A (store_user w s)"
proof -
  have disk: "aget (ad_users (as_disk s)) j = Some u" using assms(1,2) by (simp add: settled_def synced_def)
  have "v \<le> usr_version w" if "(usr_id w, v) \<in> A" for v
    using assms(1,3,4) that disk unfolding settled_def written_def by fastforce
  then show ?thesis using assms(1) written_store [of A s w] by (simp add: settled_def)
qed

lemma settled_new:
  assumes "settled A s" "aget (ad_users (as_disk s)) (usr_id w) = None" shows "settled A (store_user w s)" "written A (write_user w s)"
proof -
  have "(usr_id w, v) \<notin> A" for v using assms unfolding settled_def written_def by fastforce
  then show "settled A (store_user w s)" "written A (write_user w s)" using assms(1) written_store [of A s w] by (auto simp: settled_def)
qed

lemma touched_version [simp]: "usr_version (touched env a u) = usr_version u + 1" "usr_id (touched env a u) = usr_id u"
  by (simp_all add: touched_def)

lemma updated_version: "apply_user_update p s req u = Inr n \<Longrightarrow> usr_version n = usr_version u \<and> usr_id n = usr_id u"
  by (auto simp: apply_user_update_def changed_name_def changed_roles_def changed_status_def split: sum.splits option.splits if_splits)

subsection \<open>What is loaded\<close>

lemma loaded_user: "aget (snd (load_users us m)) i = Some u \<Longrightarrow> aget m i = Some u \<or> u \<in> set us \<and> usr_id u = i"
  by (induction us m rule: load_users.induct) (auto split: if_splits)

lemma loaded_users_kept: "fst (load_users us m) = None \<Longrightarrow> aget m i = Some u \<Longrightarrow> aget (snd (load_users us m)) i = Some u"
proof (induction us m rule: load_users.induct)
  case (2 x us m)
  then show ?case by (cases "i = usr_id x") (auto split: if_splits)
qed simp

lemma all_users_loaded: "fst (load_users us m) = None \<Longrightarrow> u \<in> set us \<Longrightarrow> aget (snd (load_users us m)) (usr_id u) = Some u"
  by (induction us m rule: load_users.induct) (auto simp: loaded_users_kept split: if_splits)

lemma loaded_role: "aget (snd (load_roles p rs names m)) i = Some r \<Longrightarrow> aget m i = Some r \<or> r \<in> set rs \<and> ro_id r = i"
  by (induction p rs names m rule: load_roles.induct) (auto simp: Let_def split: if_splits)

lemma loaded_roles_kept: "fst (load_roles p rs names m) = None \<Longrightarrow> aget m i = Some r \<Longrightarrow> aget (snd (load_roles p rs names m)) i = Some r"
proof (induction p rs names m rule: load_roles.induct)
  case (2 p x rs names m)
  then show ?case by (cases "i = ro_id x") (auto simp: Let_def split: if_splits)
qed simp

lemma all_roles_loaded: "fst (load_roles p rs names m) = None \<Longrightarrow> r \<in> set rs \<Longrightarrow> aget (snd (load_roles p rs names m)) (ro_id r) = Some r"
  by (induction p rs names m rule: load_roles.induct) (auto simp: Let_def loaded_roles_kept split: if_splits)

lemma disk_user:
  assumes "users_ok used d" shows "u \<in> set (map snd d) \<and> usr_id u = i \<longleftrightarrow> aget d i = Some u"
  using assms by (auto simp: users_ok_def aget_mem [symmetric] intro: rev_image_eqI)

lemma disk_role:
  assumes "roles_ok d" shows "r \<in> set (map snd d) \<and> ro_id r = i \<longleftrightarrow> aget d i = Some r"
  using assms by (auto simp: roles_ok_def aget_mem [symmetric] intro: rev_image_eqI)

lemma synced_load:
  assumes "users_ok used (ad_users d)" "roles_ok (ad_roles d)" shows "synced (load_auth p d)"
proof -
  have users: "aget (ad_users d) i = Some u" if "aget (snd (load_users (map snd (ad_users d)) [])) i = Some u" for i u
    using loaded_user [OF that] disk_user [OF assms(1)] by auto
  have roles: "aget (ad_roles d) i = Some r" if "aget (snd (load_roles p (map snd (ad_roles d)) [] [])) i = Some r" for i r
    using loaded_role [OF that] disk_role [OF assms(2)] by auto
  obtain e us f rs where l: "load_users (map snd (ad_users d)) [] = (e, us)" "load_roles p (map snd (ad_roles d)) [] [] = (f, rs)" by fastforce
  show ?thesis using users roles by (auto simp: synced_def load_auth_def Let_def l split: option.split)
qed

lemma disk_of_load [simp]: "as_disk (load_auth p d) = d"
  by (auto simp: load_auth_def Let_def split: option.split prod.split)

lemma option_eq: "(\<And>v. x = Some v \<longleftrightarrow> y = Some v) \<Longrightarrow> x = y"
  by (metis option.collapse)

lemma all_loaded:
  assumes "users_ok used (ad_users d)" "roles_ok (ad_roles d)" "as_state (load_auth p d) = AuthReady"
  shows "aget (as_users (load_auth p d)) i = aget (ad_users d) i" "aget (as_roles (load_auth p d)) i = aget (ad_roles d) i"
proof -
  obtain e us f rs where l: "load_users (map snd (ad_users d)) [] = (e, us)" "load_roles p (map snd (ad_roles d)) [] [] = (f, rs)" by fastforce
  have ready: "e = None" "f = None" "as_users (load_auth p d) = us" "as_roles (load_auth p d) = rs"
    using assms(3) by (auto simp: load_auth_def Let_def l split: option.splits if_splits)
  have users: "aget us i = Some u \<longleftrightarrow> aget (ad_users d) i = Some u" for u
    using all_users_loaded [of "map snd (ad_users d)" "[]" u] loaded_user [of "map snd (ad_users d)" "[]" i u] disk_user [OF assms(1), of u i]
    by (auto simp: l ready)
  then show "aget (as_users (load_auth p d)) i = aget (ad_users d) i" unfolding ready by (rule option_eq)
  have roles: "aget rs i = Some r \<longleftrightarrow> aget (ad_roles d) i = Some r" for r
    using all_roles_loaded [of p "map snd (ad_roles d)" "[]" "[]" r] loaded_role [of p "map snd (ad_roles d)" "[]" "[]" i r] disk_role [OF assms(2), of r i]
    by (auto simp: l ready)
  then show "aget (as_roles (load_auth p d)) i = aget (ad_roles d) i" unfolding ready by (rule option_eq)
qed

subsection \<open>Every step\<close>

lemma settled_cleanup [simp]: "settled A (cleanup_login_failures now s) = settled A s"
  by (simp add: cleanup_login_failures_def)

lemma settled_blocked [simp]: "settled A (snd (blocked_scopes ks now r s)) = settled A s"
  by (induction ks now r s rule: blocked_scopes.induct) (simp_all add: case_prod_beta)

lemma settled_capacity [simp]: "settled A (make_failure_capacity now s) = settled A s"
  by (auto simp: make_failure_capacity_def Let_def split: option.split)

lemma settled_record [simp]: "settled A (record_login_failure ks now s) = settled A s"
  by (induction ks now s rule: record_login_failure.induct) (auto simp: Let_def split: prod.split option.split)

lemma settled_login: assumes "settled A s" shows "settled A (snd (login p env n pw src s))"
proof -
  have "settled A t" if "login_blocked_until ks now s = (r, t)" for ks now r t
    using assms that settled_blocked [of A ks now None "cleanup_login_failures now s"] by (simp add: login_blocked_until_def)
  then show ?thesis using assms by (auto simp: login_def Let_def split: option.split prod.split)
qed

lemma settled_built_ins: "settled A s \<Longrightarrow> store_built_ins env n rs s = (ok, t) \<Longrightarrow>
    settled A t \<and> as_users t = as_users s \<and> ad_users (as_disk t) = ad_users (as_disk s)"
proof (induction env n rs s rule: store_built_ins.induct)
  case (2 env n r rs s)
  have "as_users (store_role r s) = as_users s" "ad_users (as_disk (store_role r s)) = ad_users (as_disk s)"
    by (simp_all add: store_role_def write_role_def)
  then show ?case using 2 by (auto split: if_splits)
qed auto

lemma fresh_account:
  assumes "auth_ok used s" "ae_uuid env \<notin> used" shows "aget (ad_users (as_disk s)) (''user-'' @ ae_uuid env) = None"
proof (rule ccontr)
  assume "aget (ad_users (as_disk s)) (''user-'' @ ae_uuid env) \<noteq> None"
  then obtain u where "aget (ad_users (as_disk s)) (''user-'' @ ae_uuid env) = Some u" by blast
  moreover have "users_ok used (ad_users (as_disk s))" using assms(1) by (simp add: auth_ok_def)
  ultimately show False using users_ok_id minted_fresh assms(2) by blast
qed

lemma settled_create_user:
  assumes "auth_ok used s" "ae_uuid env \<notin> used" "settled A s" shows "settled A (snd (create_user p env n d pw rs a s))"
proof -
  have "settled A (store_user u s)" if "usr_id u = ''user-'' @ ae_uuid env" for u
    using settled_new(1) [OF assms(3)] fresh_account [OF assms(1,2)] that by simp
  then show ?thesis using assms(3) by (auto simp: create_user_def Let_def split: option.split sum.split)
qed

lemma settled_initialize:
  assumes "auth_ok used s" "ae_uuid env \<notin> used" "settled A s" shows "settled A (snd (initialize p env n d pw c s))"
proof (cases "as_state s = AuthUninitialized")
  case True
  then have users: "as_users s = []" using assms(1) by (simp add: auth_ok_def)
  have built: "settled A t" if "store_built_ins env 0 rs s = (ok, t)" for rs ok t
    using settled_built_ins [OF assms(3) that] by simp
  have one: "settled A (write_user u t)" "settled A (t'\<lparr>as_users := aput (usr_id u) u (as_users t'), as_state := AuthReady\<rparr>)"
    if t: "store_built_ins env 0 rs s = (ok, t)" and u: "usr_id u = ''user-'' @ ae_uuid env"
      and t': "t' = (write_user u t)\<lparr>as_disk := (as_disk (write_user u t))\<lparr>ad_system := g\<rparr>\<rparr>" for rs ok t u g t'
  proof -
    note b = settled_built_ins [OF assms(3) t]
    have w: "written A (write_user u t)" using settled_new(2) [of A t u] b fresh_account [OF assms(1,2)] by (simp add: u)
    have t_ok: "synced t" "as_users t = []" using b users by (simp_all add: settled_def)
    then show "settled A (write_user u t)" using w by (auto simp: settled_def synced_def write_user_def)
    show "settled A (t'\<lparr>as_users := aput (usr_id u) u (as_users t'), as_state := AuthReady\<rparr>)"
      using w t_ok by (auto simp: t' settled_def synced_def write_user_def written_def)
  qed
  obtain ok t where t: "store_built_ins env 0 (built_in_roles (ae_now env)) s = (ok, t)" by fastforce
  show ?thesis unfolding initialize_unfolded [OF True t] Let_def
    using assms(3) built [OF t] one(1) [OF t first_user_id] one(2) [OF t first_user_id refl] settled_create
    by (auto split: option.split sum.split)
qed (use assms in \<open>simp add: initialize_def\<close>)

lemma settled_delete_role: "settled A s \<Longrightarrow> settled A (snd (delete_role env i v s))"
  by (auto simp: delete_role_def settled_def synced_def written_def split: option.split)

lemma settled_exec:
  assumes "auth_ok used s" "ae_uuid env \<notin> used" "settled A s" shows "settled A (exec_auth p (env, op) s)"
proof (cases "for_principal op \<and> as_state s \<noteq> AuthReady")
  case False
  have change: "settled A (store_user w s)" if "aget (as_users s) i = Some u" "usr_id w = usr_id u" "usr_version u \<le> usr_version w" for i u w
  proof -
    have "usr_id u = i" using users_ok_id that(1) assms(1) by (auto simp: auth_ok_def)
    then show ?thesis using settled_store [OF assms(3) that(1)] that(2,3) by simp
  qed
  have "settled A (snd (update_user p env i req a s))" for i req a
    using assms(3) by (auto simp: update_user_def Let_def dest!: updated_version intro!: change elim!: settled_revoke [rotated]
        split: option.split sum.split prod.split)
  moreover have "settled A (snd (delete_user env i v a s))" for i v a
    using assms(3) by (auto simp: delete_user_def Let_def intro!: change elim!: settled_revoke [rotated] split: option.split prod.split)
  moreover have "settled A (snd (reset_password p env i v pw a s))" for i v pw a
    using assms(3) by (auto simp: reset_password_def Let_def intro!: change elim!: settled_revoke [rotated] split: option.split prod.split)
  moreover have "settled A (snd (change_password p env i c pw s))" for i c pw
    using assms(3) by (auto simp: change_password_def Let_def intro!: change settled_create elim!: settled_revoke [rotated] split: option.split prod.split)
  moreover have "settled A (snd (update_profile env i d a s))" for i d a
    using assms(3) by (auto simp: update_profile_def Let_def intro!: change split: option.split)
  moreover have "settled A (snd (create_role p env n d ps a s))" for n d ps a
    using assms(3) by (auto simp: create_role_def Let_def split: sum.split)
  moreover have "settled A (snd (update_role p env i v n d ps a s))" for i v n d ps a
    using assms(3) by (auto simp: update_role_def Let_def split: sum.split option.split)
  moreover have "settled A (snd (logout p env t s))" for t
    using assms(3) by (auto simp: logout_def Let_def)
  moreover have "settled A (load_auth p (as_disk s))"
    using assms(1,3) synced_load [of used "as_disk s"] by (auto simp: settled_def written_def auth_ok_def)
  ultimately show ?thesis using False assms
    by (cases op) (simp_all add: exec_auth_def settled_login settled_initialize settled_create_user settled_delete_role)
qed (use assms in \<open>simp add: exec_auth_def\<close>)

lemma settled_run:
  "auth_ok used s \<Longrightarrow> settled A s \<Longrightarrow> distinct (map (\<lambda>(env, op). ae_uuid env) ops) \<Longrightarrow> used \<inter> set (map (\<lambda>(env, op). ae_uuid env) ops) = {}
   \<Longrightarrow> settled A (fold (exec_auth p) ops s)"
proof (induction ops arbitrary: used s)
  case (Cons eop ops)
  obtain env op where eop: "eop = (env, op)" by fastforce
  have fresh: "ae_uuid env \<notin> used" using Cons.prems(4) by (simp add: eop)
  have "auth_ok (insert (ae_uuid env) used) (exec_auth p eop s)" using exec_auth_ok [OF Cons.prems(1) fresh] by (simp add: eop)
  moreover have "settled A (exec_auth p eop s)" using settled_exec [OF Cons.prems(1) fresh Cons.prems(2)] by (simp add: eop)
  ultimately show ?case using Cons.IH [of "insert (ae_uuid env) used" "exec_auth p eop s"] Cons.prems(3,4) by (auto simp: eop)
qed auto

lemma run_auth_used:
  "auth_ok used s \<Longrightarrow> distinct (map (\<lambda>(env, op). ae_uuid env) ops) \<Longrightarrow> used \<inter> set (map (\<lambda>(env, op). ae_uuid env) ops) = {}
   \<Longrightarrow> auth_ok (used \<union> set (map (\<lambda>(env, op). ae_uuid env) ops)) (fold (exec_auth p) ops s)"
proof (induction ops arbitrary: used s)
  case (Cons eop ops)
  obtain env op where eop: "eop = (env, op)" by fastforce
  have "auth_ok (insert (ae_uuid env) used) (exec_auth p eop s)" using exec_auth_ok [OF Cons.prems(1)] Cons.prems(3) by (simp add: eop)
  then show ?case using Cons.IH [of "insert (ae_uuid env) used" "exec_auth p eop s"] Cons.prems(2,3) by (simp add: eop)
qed simp

lemma reached_synced:
  assumes "distinct (map (\<lambda>(env, op). ae_uuid env) ops)" shows "synced (fold (exec_auth p) ops (load_auth p empty_disk))"
proof -
  have "synced (load_auth p empty_disk)" by (rule synced_load [of "{}"]) (simp_all add: empty_disk_def users_ok_def roles_ok_def akeys_def)
  then have "settled {} (load_auth p empty_disk)" by (simp add: settled_def written_def)
  from settled_run [OF started_auth_ok this assms] show ?thesis by (simp add: settled_def)
qed

subsection \<open>One edit for each version\<close>

definition succeeds :: "('e + 'a) \<times> auth_sys \<Rightarrow> bool" where
  "succeeds r = (case fst r of Inl e \<Rightarrow> False | Inr x \<Rightarrow> True)"

text \<open>The operation changes the account, on the strength of the version the caller has seen.\<close>

fun user_edit :: "auth_params \<Rightarrow> auth_env \<Rightarrow> auth_op \<Rightarrow> string \<Rightarrow> int \<Rightarrow> auth_sys \<Rightarrow> bool" where
  "user_edit p env (AUpdateUser j req a) i v s = (as_state s = AuthReady \<and> j = i \<and> uu_version req = v \<and> succeeds (update_user p env i req a s))"
| "user_edit p env (ADeleteUser j w a) i v s = (as_state s = AuthReady \<and> j = i \<and> w = v \<and> succeeds (delete_user env i v a s))"
| "user_edit p env (AResetPassword j w pw a) i v s = (as_state s = AuthReady \<and> j = i \<and> w = v \<and> succeeds (reset_password p env i v pw a s))"
| "user_edit p env _ i v s = False"

lemma written_drops: "written A (fold drop_session ks s) = written A s"
  by (induction ks arbitrary: s) auto

lemma written_revoke: "revoke_user_sessions env j s = (ok, t) \<Longrightarrow> written A t = written A s"
  by (auto simp: revoke_user_sessions_def Let_def written_drops split: if_splits)

lemma written_now: "usr_id w = i \<Longrightarrow> usr_version w = v + 1 \<Longrightarrow> written {(i, v + 1)} (write_user w s)"
  by (simp add: written_def write_user_def)

lemma edit_needs_version:
  assumes "user_edit p env op i v s" shows "\<exists>u. aget (as_users s) i = Some u \<and> usr_version u = v"
proof -
  have "?thesis" if "succeeds (update_user p env i req a s)" "uu_version req = v" for req a
    using that by (auto simp: succeeds_def update_user_def split: option.splits if_split_asm)
  moreover have "?thesis" if "succeeds (delete_user env i v a s)" for a
    using that by (auto simp: succeeds_def delete_user_def split: option.splits if_split_asm)
  moreover have "?thesis" if "succeeds (reset_password p env i v pw a s)" for pw a
    using that by (auto simp: succeeds_def reset_password_def split: option.splits if_split_asm)
  ultimately show ?thesis using assms by (cases op) auto
qed

lemma edit_written:
  assumes "user_edit p env op i v s" "users_ok used (as_users s)" shows "written {(i, v + 1)} (exec_auth p (env, op) s)"
proof -
  obtain u where u: "aget (as_users s) i = Some u" "usr_version u = v" using edit_needs_version [OF assms(1)] by blast
  have ready: "as_state s = AuthReady" using assms(1) by (cases op) auto
  have "usr_id u = i" using users_ok_id [OF assms(2) u(1)] by simp
  then have now: "written {(i, usr_version u + 1)} (write_user w s)" if "usr_id w = usr_id u" "usr_version w = usr_version u + 1" for w
    using written_now [of w i v s] that u(2) by simp
  have "written {(i, v + 1)} (snd (update_user p env i req a s))" if "succeeds (update_user p env i req a s)" for req a
    using that u by (auto simp: succeeds_def update_user_def Let_def written_revoke dest!: updated_version intro!: now split: option.splits sum.splits if_splits prod.splits)
  moreover have "written {(i, v + 1)} (snd (delete_user env i w a s))" if "succeeds (delete_user env i w a s)" for w a
    using that u by (auto simp: succeeds_def delete_user_def Let_def written_revoke intro!: now split: option.splits if_splits prod.splits)
  moreover have "written {(i, v + 1)} (snd (reset_password p env i w pw a s))" if "succeeds (reset_password p env i w pw a s)" for w pw a
    using that u by (auto simp: succeeds_def reset_password_def Let_def written_revoke intro!: now split: option.splits if_splits prod.splits)
  ultimately show ?thesis using assms(1) ready by (cases op) (auto simp: exec_auth_def)
qed

text \<open>C14: Of two edits of an account that rest on the same version only one succeeds, whatever happens between them, restarts included: no administrator
  overwrites a change of another that he has not seen.\<close>

theorem one_edit_per_version:
  assumes "s = fold (exec_auth p) earlier (load_auth p empty_disk)" "distinct (map (\<lambda>(env, op). ae_uuid env) (earlier @ (env, op) # later))"
    and "user_edit p env op i v s" "t = fold (exec_auth p) later (exec_auth p (env, op) s)"
  shows "\<not> user_edit p env' op' i v t"
proof
  let ?u = "\<lambda>ops. set (map (\<lambda>(env :: auth_env, op :: auth_op). ae_uuid env) ops)"
  assume again: "user_edit p env' op' i v t"
  have fresh: "distinct (map (\<lambda>(env, op). ae_uuid env) earlier)" "distinct (map (\<lambda>(env, op). ae_uuid env) later)"
      "ae_uuid env \<notin> ?u earlier" "insert (ae_uuid env) (?u earlier) \<inter> ?u later = {}"
    using assms(2) by auto
  have ok: "auth_ok (?u earlier) s" using run_auth_used [OF started_auth_ok fresh(1)] by (simp add: assms(1))
  have "settled {} s" using reached_synced [OF fresh(1)] by (simp add: settled_def written_def assms(1))
  then have "settled {} (exec_auth p (env, op) s)" by (rule settled_exec [OF ok fresh(3)])
  moreover have "written {(i, v + 1)} (exec_auth p (env, op) s)"
    using edit_written [OF assms(3)] ok by (auto simp: auth_ok_def)
  ultimately have "settled {(i, v + 1)} (exec_auth p (env, op) s)" by (simp add: settled_def)
  then have "settled {(i, v + 1)} t"
    unfolding assms(4) by (rule settled_run [OF exec_auth_ok [OF ok fresh(3)] _ fresh(2,4)])
  moreover obtain u where "aget (as_users t) i = Some u" "usr_version u = v" using edit_needs_version [OF again] by blast
  ultimately show False by (auto simp: settled_def synced_def written_def)
qed

subsection \<open>A restart\<close>

lemma collected_more:
  "collect_permissions rs ids qs = Inr ps \<Longrightarrow> (\<And>i r. aget rs i = Some r \<Longrightarrow> aget rs' i = Some r) \<Longrightarrow> collect_permissions rs' ids qs = Inr ps"
  by (induction rs ids qs rule: collect_permissions.induct) (auto split: option.splits)

text \<open>C17: A restart that finds the accounts valid changes nothing for those who use them: every account and role is as it was, and every token that was accepted
  is accepted, with the same permissions.\<close>

theorem restart_keeps_accounts:
  assumes "s = fold (exec_auth p) ops (load_auth p empty_disk)" "distinct (map (\<lambda>(env, op). ae_uuid env) ops)"
    and "t = exec_auth p (env, ARestart) s" "as_state t = AuthReady"
  shows "(\<forall>i u. aget (as_users s) i = Some u \<longrightarrow> aget (as_users t) i = Some u)
    \<and> (\<forall>i r. aget (as_roles s) i = Some r \<longrightarrow> aget (as_roles t) i = Some r)
    \<and> (\<forall>token pr. authenticate p token s = Inr pr \<longrightarrow> authenticate p token t = Inr pr)"
proof -
  have t: "t = load_auth p (as_disk s)" by (simp add: assms(3) exec_auth_def)
  obtain used where ok: "auth_ok used s" using reached_accounts [OF assms(2)] assms(1) by blast
  have synced: "synced s" using reached_synced [OF assms(2)] by (simp add: assms(1))
  have "users_ok used (ad_users (as_disk s))" "roles_ok (ad_roles (as_disk s))" using ok by (simp_all add: auth_ok_def)
  note loaded = all_loaded [OF this, of p, folded t, OF assms(4)]
  have users: "aget (as_users s) i = Some u \<Longrightarrow> aget (as_users t) i = Some u" for i u using synced loaded(1) by (simp add: synced_def)
  have roles: "aget (as_roles s) i = Some r \<Longrightarrow> aget (as_roles t) i = Some r" for i r using synced loaded(2) by (simp add: synced_def)
  have disk: "as_disk t = as_disk s" by (simp add: t)
  have principal: "principal_of (as_roles s) u c = Inr pr \<Longrightarrow> principal_of (as_roles t) u c = Inr pr" for u c pr
    using collected_more [OF _ roles] by (auto simp: principal_of_def split: sum.splits)
  have "authenticate p token t = Inr pr" if accepted: "authenticate p token s = Inr pr" for token pr
  proof -
    obtain ses u where "token \<noteq> []" "aget (ad_sessions (as_disk s)) (ap_token_hash p token) = Some ses" "aget (as_users s) (ses_user ses) = Some u"
        "usr_status u = status_active" "principal_of (as_roles s) u (ses_csrf ses) = Inr pr"
      using accepted by (auto simp: authenticate_def split: option.splits if_split_asm)
    then show ?thesis using users [of "ses_user ses" u] principal [of u "ses_csrf ses" pr] assms(4)
      by (simp add: authenticate_def require_ready_def disk)
  qed
  then show ?thesis using users roles by blast
qed

lemma restart_facts:
  "as_state (exec_auth plain_params (plain_env ''b'', ARestart) (auth_trace first_account)) = AuthReady"
  "case authenticate plain_params ''a'' (auth_trace first_account) of Inr pr \<Rightarrow> True | Inl e \<Rightarrow> False"
  by code_simp+

lemma restart_keeps_accounts_witness:
  "\<exists>pr. authenticate plain_params ''a'' (exec_auth plain_params (plain_env ''b'', ARestart) (auth_trace first_account)) = Inr pr"
proof -
  obtain pr where "authenticate plain_params ''a'' (auth_trace first_account) = Inr pr"
    using restart_facts(2) by (cases "authenticate plain_params ''a'' (auth_trace first_account)") auto
  moreover have run: "auth_trace first_account = fold (exec_auth plain_params) first_account (load_auth plain_params empty_disk)"
    by (simp add: auth_trace_def)
  ultimately show ?thesis
    using restart_keeps_accounts [OF run first_account_facts(2) refl restart_facts(1)] by blast
qed

definition rename_edit :: auth_op where
  "rename_edit = AUpdateUser ''user-a'' \<lparr> uu_version = 1, uu_name = None, uu_display = Some ''R'', uu_roles = None, uu_status = None \<rparr> ''user-a''"

lemma rename_facts:
  "user_edit plain_params (plain_env ''b'') rename_edit ''user-a'' 1 (auth_trace first_account)"
  "distinct (map (\<lambda>(env, op). ae_uuid env) (first_account @ (plain_env ''b'', rename_edit) # [(plain_env ''c'', ARestart)]))"
  by code_simp+

lemma one_edit_per_version_witness:
  "\<not> user_edit plain_params (plain_env ''d'') rename_edit ''user-a'' 1 (fold (exec_auth plain_params) [(plain_env ''c'', ARestart)]
       (exec_auth plain_params (plain_env ''b'', rename_edit) (auth_trace first_account)))"
  by (rule one_edit_per_version [where earlier = first_account and later = "[(plain_env ''c'', ARestart)]" and env = "plain_env ''b''" and op = rename_edit
      and s = "auth_trace first_account", OF _ rename_facts(2,1) refl]) (simp add: auth_trace_def)

subsection \<open>Accounts that go wrong\<close>

text \<open>A list of blank role names is not refused when an account is made: the account has no role, and the next start
  of the process finds the accounts invalid. Nobody can log in any more, the administrator neither.\<close>

theorem blank_roles_lock_everyone_out:
  "let s = auth_trace first_account;
       r = create_user plain_params (plain_env ''b'') ''bob'' '''' ''password1'' ['' ''] ''user-a'' s;
       t = load_auth plain_params (as_disk (snd r))
   in as_state s = AuthReady \<and> succeeds r \<and> as_state (snd r) = AuthReady
      \<and> as_state t = AuthRecovery (UserWithoutRoles ''user-b'')
      \<and> fst (login plain_params (plain_env ''c'') ''root'' ''password1'' '''' t) = Inl InRecovery"
  unfolding Let_def by (intro conjI; code_simp)

definition leaver_deleted :: "(auth_env \<times> auth_op) list" where
  "leaver_deleted = first_account @
     [(plain_env ''r'', ACreateRole ''ops'' '''' [] ''user-a''), (plain_env ''b'', ACreateUser ''bob'' '''' ''password1'' [''role-r''] ''user-a''),
      (plain_env ''c'', AUpdateUser ''user-b'' \<lparr> uu_version = 1, uu_name = None, uu_display = None, uu_roles = None, uu_status = Some status_deleted \<rparr> ''user-a'')]"

text \<open>An account that is deleted by an update of its status keeps its roles. A custom role it has can never be deleted: the account
  can neither be changed nor deleted again.\<close>

theorem deleted_account_blocks_role:
  "let s = auth_trace leaver_deleted
   in map_option usr_status (aget (as_users s) ''user-b'') = Some status_deleted
      \<and> fst (delete_role (plain_env ''d'') ''role-r'' 1 s) = Some (RoleAssigned ''bob'')
      \<and> fst (delete_user (plain_env ''d'') ''user-b'' 2 ''user-a'' s) = Inl UserDeleted"
  unfolding Let_def by (intro conjI; code_simp)

definition failing_env :: "string \<Rightarrow> nat \<Rightarrow> auth_env" where
  "failing_env x n = (plain_env x)\<lparr>ae_save := (\<lambda>k. k \<noteq> n)\<rparr>"

definition abandoned_start :: auth_sys where
  "abandoned_start = exec_auth plain_params (failing_env ''a'' 4, AInitialize ''root'' '''' ''password1'' ''password1'') (load_auth plain_params empty_disk)"

definition second_start :: "string \<Rightarrow> auth_sys" where
  "second_start name = exec_auth plain_params (plain_env ''b'', AInitialize name '''' ''password2'' ''password2'') abandoned_start"

text \<open>When the last write of the first start fails, the administrator it was making is on disk already. The one who tries again gets
  another account; after a restart the first account is an active administrator as well, and its password opens the instance. With the same name on both
  tries the restart finds a duplicate and locks everyone out.\<close>

theorem failed_first_start_leaves_administrator:
  "as_state abandoned_start = AuthUninitialized
   \<and> fst (login plain_params (plain_env ''c'') ''root'' ''password1'' '''' (second_start ''admin'')) = Inl InvalidCredentials
   \<and> succeeds (login plain_params (plain_env ''c'') ''root'' ''password1'' '''' (load_auth plain_params (as_disk (second_start ''admin''))))
   \<and> as_state (load_auth plain_params (as_disk (second_start ''root''))) = AuthRecovery DuplicateUsername"
proof (intro conjI)
  show "as_state abandoned_start = AuthUninitialized" by code_simp
  show "fst (login plain_params (plain_env ''c'') ''root'' ''password1'' '''' (second_start ''admin'')) = Inl InvalidCredentials" by code_simp
  show "succeeds (login plain_params (plain_env ''c'') ''root'' ''password1'' '''' (load_auth plain_params (as_disk (second_start ''admin''))))" by code_simp
  show "as_state (load_auth plain_params (as_disk (second_start ''root''))) = AuthRecovery DuplicateUsername" by code_simp
qed

text \<open>Two role names that differ under case folding but not in lower case, as \<open>i\<close> and the capital dotted I of Turkish, whose lower case is \<open>i\<close>: both roles
  can be made, and the next start refuses them as duplicates.\<close>

definition dotted_params :: auth_params where
  "dotted_params = plain_params\<lparr>ap_lower := (\<lambda>s. if s = [CHR 0xC4, CHR 0xB0] then ''i'' else s)\<rparr>"

theorem equal_lower_case_roles_lock_everyone_out:
  "let s = fold (exec_auth dotted_params) (first_account @ [(plain_env ''r'', ACreateRole ''i'' '''' [] ''user-a''),
         (plain_env ''q'', ACreateRole [CHR 0xC4, CHR 0xB0] '''' [] ''user-a'')]) (load_auth dotted_params empty_disk)
   in ahas (as_roles s) ''role-r'' \<and> ahas (as_roles s) ''role-q'' \<and> as_state (load_auth dotted_params (as_disk s)) = AuthRecovery DuplicateRoleName"
  unfolding Let_def by (intro conjI; code_simp)

end
