(* ===== verification/Spec2Isabelle.thy ===== *)
theory Spec2Isabelle
  imports GraphSnapshot GraphProtocol GraphValidated GraphRuns GraphDecisions GraphEvents GraphLifecycled JobClaims AuthDurable
begin

text \<open>
  A model of the graph-workflow engine of the repository (Go, \<open>services/graph\<close>).
\<close>

end
